(* ===== verification/Prelude.thy ===== *)
theory Prelude
  imports Complex_Main "HOL-Library.Sublist"
begin

text \<open>
  What every component shares: the fact collections of the development, JavaScript truthiness of
  optional strings, negative slicing of arrays, the decimal rendering of integers in template
  literals, and the generic transition system whose invariant rule the component machines use.
\<close>

named_theorems store_defs \<open>the operations of the application store, unfolded\<close>
named_theorems term_defs \<open>the operations of the terminal hook, unfolded\<close>

section \<open>Truthiness and slices\<close>

text \<open>
  A \<open>string | null | undefined\<close> is \<open>string option\<close>; as a condition it is true when it is present
  and not the empty string.
\<close>

definition truthy :: "string option \<Rightarrow> bool" where
  "truthy x = (case x of None \<Rightarrow> False | Some s \<Rightarrow> s \<noteq> [])"

lemma truthy_simps [simp]:
  "\<not> truthy None"
  "truthy (Some s) \<longleftrightarrow> s \<noteq> []"
  by (simp_all add: truthy_def)

lemma truthyE: "truthy x \<Longrightarrow> (\<And>s. x = Some s \<Longrightarrow> s \<noteq> [] \<Longrightarrow> P) \<Longrightarrow> P"
  by (cases x) auto

text \<open>\<open>xs.slice(-n)\<close> for a positive \<open>n\<close>: the last \<open>n\<close> elements, or all of them.\<close>

definition slice_last :: "nat \<Rightarrow> 'a list \<Rightarrow> 'a list" where
  "slice_last n xs = drop (length xs - n) xs"

lemma length_slice_last [simp]: "length (slice_last n xs) = min n (length xs)"
  by (simp add: slice_last_def)

lemma set_slice_last: "x \<in> set (slice_last n xs) \<Longrightarrow> x \<in> set xs"
  by (auto simp: slice_last_def dest: in_set_dropD)

lemma distinct_slice_last: "distinct (map f xs) \<Longrightarrow> distinct (map f (slice_last n xs))"
  by (simp add: slice_last_def drop_map [symmetric])

lemma slice_last_snoc: "0 < n \<Longrightarrow> slice_last n (xs @ [x]) = slice_last (n - 1) xs @ [x]"
  by (cases n) (auto simp: slice_last_def)

lemma slice_last_all [simp]: "length xs \<le> n \<Longrightarrow> slice_last n xs = xs"
  by (simp add: slice_last_def)

lemma distinct_map_filter_key: "distinct (map f xs) \<Longrightarrow> distinct (map f (filter P xs))"
  by (rule distinct_map_filter)

text \<open>\<open>xs[0]?.f\<close> on an array that may be empty.\<close>

definition head_opt :: "'a list \<Rightarrow> 'a option" where
  "head_opt xs = (case xs of [] \<Rightarrow> None | x # _ \<Rightarrow> Some x)"

lemma head_opt_simps [simp]:
  "head_opt [] = None"
  "head_opt (x # xs) = Some x"
  by (simp_all add: head_opt_def)

lemma head_opt_None [simp]: "head_opt xs = None \<longleftrightarrow> xs = []"
  by (cases xs) simp_all

lemma head_opt_in: "head_opt xs = Some x \<Longrightarrow> x \<in> set xs"
  by (cases xs) simp_all

text \<open>The operator \<open>??\<close>.\<close>

definition coalesce :: "'a option \<Rightarrow> 'a option \<Rightarrow> 'a option" where
  "coalesce x y = (case x of None \<Rightarrow> y | Some v \<Rightarrow> Some v)"

lemma coalesce_simps [simp]:
  "coalesce None y = y"
  "coalesce (Some v) y = Some v"
  by (simp_all add: coalesce_def)

section \<open>Integers in template literals\<close>

fun digit_list :: "nat \<Rightarrow> nat list" where
  "digit_list n = (if n < 10 then [n] else digit_list (n div 10) @ [n mod 10])"

declare digit_list.simps [simp del]

definition digit_char :: "nat \<Rightarrow> char" where
  "digit_char d = char_of (48 + d)"

definition num_str :: "int \<Rightarrow> string" where
  "num_str n = (if n < 0 then CHR ''-'' # map digit_char (digit_list (nat (- n)))
                else map digit_char (digit_list (nat n)))"

lemma digit_list_less: "d \<in> set (digit_list n) \<Longrightarrow> d < 10"
proof (induction n rule: digit_list.induct)
  case (1 n)
  then show ?case by (subst (asm) digit_list.simps) (auto split: if_splits)
qed

fun digits_val :: "nat list \<Rightarrow> nat" where
  "digits_val ds = foldl (\<lambda>v d. 10 * v + d) 0 ds"

lemma digits_val_digit_list: "digits_val (digit_list n) = n"
proof (induction n rule: digit_list.induct)
  case (1 n)
  then show ?case
    by (subst digit_list.simps) auto
qed

lemma digit_list_inject: "digit_list m = digit_list n \<Longrightarrow> m = n"
  by (metis digits_val_digit_list)

lemma of_digit_char: "d < 10 \<Longrightarrow> (of_char (digit_char d) :: nat) = 48 + d"
  by (simp add: digit_char_def)

lemma digit_char_inject:
  assumes "d < 10" and "e < 10" and "digit_char d = digit_char e"
  shows "d = e"
proof -
  have "(of_char (digit_char d) :: nat) = of_char (digit_char e)"
    using assms(3) by simp
  then show ?thesis using assms(1,2) by (simp add: of_digit_char)
qed

lemma digit_char_not_minus: "d < 10 \<Longrightarrow> digit_char d \<noteq> CHR ''-''"
proof
  assume "d < 10" and "digit_char d = CHR ''-''"
  then have "48 + d = (of_char (CHR ''-'') :: nat)"
    using of_digit_char by metis
  then show False by simp
qed

lemma num_str_nonneg: "0 \<le> n \<Longrightarrow> num_str n = map digit_char (digit_list (nat n))"
  by (simp add: num_str_def)

lemma num_str_inject:
  assumes "0 \<le> m" and "0 \<le> n" and "num_str m = num_str n"
  shows "m = n"
proof -
  have "inj_on digit_char {d. d < 10}"
    by (auto intro!: inj_onI dest: digit_char_inject)
  moreover have "set (digit_list (nat m)) \<union> set (digit_list (nat n)) \<subseteq> {d. d < 10}"
    by (auto dest: digit_list_less)
  ultimately have "inj_on digit_char (set (digit_list (nat m)) \<union> set (digit_list (nat n)))"
    by (rule inj_on_subset)
  then have "digit_list (nat m) = digit_list (nat n)"
    using assms by (auto simp: num_str_nonneg dest: map_inj_on)
  then show ?thesis
    using assms(1,2) by (auto dest: digit_list_inject)
qed

lemma num_str_no_minus: "0 \<le> n \<Longrightarrow> CHR ''-'' \<notin> set (num_str n)"
  by (auto simp: num_str_nonneg dest!: digit_list_less dest: digit_char_not_minus [symmetric])

text \<open>
  A key \<open>`${s}-${n}`\<close> with a non-negative number determines both of its parts: the last hyphen
  separates them.
\<close>

lemma split_last_sep:
  assumes "x @ c # u = y @ c # v" and "c \<notin> set u" and "c \<notin> set v"
  shows "x = y \<and> u = v"
proof -
  from assms(1) obtain us where
    "(x = y @ us \<and> us @ c # u = c # v) \<or> (x @ us = y \<and> c # u = us @ c # v)"
    by (auto simp: append_eq_append_conv2)
  then show ?thesis
    using assms(2,3) by (cases us) auto
qed

lemma dash_num_inject:
  assumes "s @ ''-'' @ num_str m = t @ ''-'' @ num_str n" and "0 \<le> m" and "0 \<le> n"
  shows "s = t \<and> m = n"
  using assms split_last_sep [of s "CHR ''-''" "num_str m" t "num_str n"]
  by (auto dest: num_str_inject simp: num_str_no_minus)

section \<open>Machines\<close>

text \<open>
  A component that reacts to events is a relation \<open>step s e s'\<close>. \<open>reach\<close> are the states it can get
  to from a starting state; \<open>run_path\<close> the finite runs with their events.
\<close>

inductive reach :: "('s \<Rightarrow> bool) \<Rightarrow> ('s \<Rightarrow> 'e \<Rightarrow> 's \<Rightarrow> bool) \<Rightarrow> 's \<Rightarrow> bool"
  for start :: "'s \<Rightarrow> bool" and step :: "'s \<Rightarrow> 'e \<Rightarrow> 's \<Rightarrow> bool" where
  reach_start: "start s \<Longrightarrow> reach start step s"
| reach_step: "reach start step s \<Longrightarrow> step s e t \<Longrightarrow> reach start step t"

inductive run_path :: "('s \<Rightarrow> 'e \<Rightarrow> 's \<Rightarrow> bool) \<Rightarrow> 's \<Rightarrow> 'e list \<Rightarrow> 's \<Rightarrow> bool"
  for step :: "'s \<Rightarrow> 'e \<Rightarrow> 's \<Rightarrow> bool" where
  run_nil: "run_path step s [] s"
| run_cons: "step s e t \<Longrightarrow> run_path step t es u \<Longrightarrow> run_path step s (e # es) u"

inductive_simps run_path_Nil [simp]: "run_path step s [] t"
inductive_simps run_path_Cons: "run_path step s (e # es) t"

lemma run_path_append: "run_path step s es t \<Longrightarrow> run_path step t fs u \<Longrightarrow> run_path step s (es @ fs) u"
  by (induction rule: run_path.induct) (auto intro: run_path.intros)

lemma run_path_reach: "run_path step s es t \<Longrightarrow> reach start step s \<Longrightarrow> reach start step t"
  by (induction rule: run_path.induct) (auto intro: reach_step)

text \<open>
  The interface between a machine and its invariant: it holds at the start and each step keeps it.
  Each component proves the two laws for its own machine and gets the rest from here.
\<close>

locale invariant_machine =
  fixes start :: "'s \<Rightarrow> bool"
    and step :: "'s \<Rightarrow> 'e \<Rightarrow> 's \<Rightarrow> bool"
    and inv :: "'s \<Rightarrow> bool"
  assumes inv_start: "start s \<Longrightarrow> inv s"
    and inv_step: "inv s \<Longrightarrow> step s e t \<Longrightarrow> inv t"
begin

lemma reach_inv: "reach start step s \<Longrightarrow> inv s"
  by (induction rule: reach.induct) (auto intro: inv_start inv_step)

lemma run_inv: "run_path step s es t \<Longrightarrow> inv s \<Longrightarrow> inv t"
  by (induction rule: run_path.induct) (auto intro: inv_step)

lemma start_run_inv: "start s \<Longrightarrow> run_path step s es t \<Longrightarrow> inv t"
  by (auto intro: run_inv inv_start)

end

end
