(* ===== verification/JsObject.thy ===== *)
theory JsObject
  imports Prelude "HOL-Library.AList"
begin

text \<open>
  JavaScript dictionaries. A \<open>Record<string, T>\<close> is an ordinary object: its own string keys with
  their values, in the order in which the keys were first written. \<open>Object.entries\<close> lists the keys
  that are array indices first, in ascending order, and then the others in insertion order. A
  \<open>Map<string, T>\<close> is only looked up, written and deleted from in this program, so it is a partial
  function. Both offer the same interface, the locale \<open>dictionary\<close>.
\<close>

section \<open>Objects\<close>

type_synonym 'v jsobj = "(string \<times> 'v) list"

definition obj_get :: "'v jsobj \<Rightarrow> string \<Rightarrow> 'v option" where
  "obj_get ob k = map_of ob k"

definition obj_put :: "string \<Rightarrow> 'v \<Rightarrow> 'v jsobj \<Rightarrow> 'v jsobj" where
  "obj_put k v ob = AList.update k v ob"

definition obj_del :: "string \<Rightarrow> 'v jsobj \<Rightarrow> 'v jsobj" where
  "obj_del k ob = AList.delete k ob"

definition obj_wf :: "'v jsobj \<Rightarrow> bool" where
  "obj_wf ob = distinct (map fst ob)"

text \<open>
  The array index a key spells, if it spells one: a decimal numeral in canonical form, below
  \<open>2 ^ 32 - 1\<close>.
\<close>

definition digit_of :: "char \<Rightarrow> nat option" where
  "digit_of c = (let n = of_char c in if 48 \<le> n \<and> n < 58 then Some (n - 48) else None)"

fun digits_of :: "string \<Rightarrow> nat list option" where
  "digits_of [] = Some []"
| "digits_of (c # cs) =
     (case digit_of c of None \<Rightarrow> None
      | Some d \<Rightarrow> (case digits_of cs of None \<Rightarrow> None | Some ds \<Rightarrow> Some (d # ds)))"

definition array_index :: "string \<Rightarrow> nat option" where
  "array_index k =
     (case digits_of k of
        Some (d # ds) \<Rightarrow>
          (if (d \<noteq> 0 \<or> ds = []) \<and> int (digits_val (d # ds)) < 2 ^ 32 - 1
           then Some (digits_val (d # ds)) else None)
      | _ \<Rightarrow> None)"

definition obj_entries :: "'v jsobj \<Rightarrow> (string \<times> 'v) list" where
  "obj_entries ob =
     sort_key (\<lambda>p. the (array_index (fst p))) (filter (\<lambda>p. array_index (fst p) \<noteq> None) ob)
     @ filter (\<lambda>p. array_index (fst p) = None) ob"

lemma set_obj_entries [simp]: "set (obj_entries ob) = set ob"
  by (auto simp: obj_entries_def)

lemma obj_entries_get:
  "obj_wf ob \<Longrightarrow> (k, v) \<in> set (obj_entries ob) \<longleftrightarrow> obj_get ob k = Some v"
  by (simp add: obj_wf_def obj_get_def)

lemma obj_wf_empty [simp]: "obj_wf []"
  by (simp add: obj_wf_def)

lemma obj_wf_put [simp]: "obj_wf ob \<Longrightarrow> obj_wf (obj_put k v ob)"
  by (simp add: obj_wf_def obj_put_def distinct_update)

lemma obj_wf_del [simp]: "obj_wf ob \<Longrightarrow> obj_wf (obj_del k ob)"
  by (simp add: obj_wf_def obj_del_def distinct_delete)

section \<open>The dictionary interface\<close>

text \<open>
  The clients look keys up, write them and delete them, one at a time and in loops over a list of
  keys. The laws are those of a finite map.
\<close>

locale dictionary =
  fixes nothing :: "'d"
    and get :: "'d \<Rightarrow> string \<Rightarrow> 'v option"
    and put :: "string \<Rightarrow> 'v \<Rightarrow> 'd \<Rightarrow> 'd"
    and del :: "string \<Rightarrow> 'd \<Rightarrow> 'd"
  assumes get_nothing: "get nothing k = None"
    and get_put: "get (put k v d) j = (if j = k then Some v else get d j)"
    and get_del: "get (del k d) j = (if j = k then None else get d j)"
begin

lemma get_put_same: "get (put k v d) k = Some v"
  by (simp add: get_put)

lemma get_put_other: "j \<noteq> k \<Longrightarrow> get (put k v d) j = get d j"
  by (simp add: get_put)

lemma get_del_all: "get (fold del ks d) j = (if j \<in> set ks then None else get d j)"
  by (induction ks arbitrary: d) (auto simp: get_del)

lemma get_put_all:
  "get (fold (\<lambda>(k, v). put k v) kvs d) j =
     (case map_of (rev kvs) j of Some v \<Rightarrow> Some v | None \<Rightarrow> get d j)"
  by (induction kvs arbitrary: d) (auto simp: get_put map_add_def split: option.splits)

lemma get_foldr_del: "get (foldr del ks d) j = (if j \<in> set ks then None else get d j)"
  by (induction ks) (auto simp: get_del)

end

interpretation obj: dictionary "[]" obj_get obj_put obj_del
  by unfold_locales (auto simp: obj_get_def obj_put_def obj_del_def update_conv' delete_conv')

definition map_get :: "(string \<rightharpoonup> 'v) \<Rightarrow> string \<Rightarrow> 'v option" where
  "map_get m k = m k"

definition map_put :: "string \<Rightarrow> 'v \<Rightarrow> (string \<rightharpoonup> 'v) \<Rightarrow> (string \<rightharpoonup> 'v)" where
  "map_put k v m = m(k \<mapsto> v)"

definition map_del :: "string \<Rightarrow> (string \<rightharpoonup> 'v) \<Rightarrow> (string \<rightharpoonup> 'v)" where
  "map_del k m = m(k := None)"

interpretation jsmap: dictionary Map.empty map_get map_put map_del
  by unfold_locales (auto simp: map_get_def map_put_def map_del_def)

lemmas dict_simps [simp] = obj.get_nothing obj.get_put obj.get_del
  jsmap.get_nothing jsmap.get_put jsmap.get_del

text \<open>
  A spread copy \<open>{...o}\<close> keeps the keys in their order, so \<open>{...o, [k]: v}\<close> is \<open>obj_put k v o\<close>: an
  existing key keeps its place, a new one goes last.
\<close>

lemma obj_put_keys:
  "map fst (obj_put k v ob) = (if k \<in> fst ` set ob then map fst ob else map fst ob @ [k])"
  by (simp add: obj_put_def update_keys)

lemma obj_get_fold_delete_wf: "obj_wf ob \<Longrightarrow> obj_wf (fold obj_del ks ob)"
  by (induction ks arbitrary: ob) simp_all

lemma dom_obj: "obj_get ob k = None \<longleftrightarrow> k \<notin> fst ` set ob"
  by (simp add: obj_get_def map_of_eq_None_iff)

text \<open>
  The first entry of an object with some property, as a loop over \<open>Object.entries\<close> with a \<open>break\<close>
  finds it.
\<close>

lemma find_entries_Some:
  assumes "obj_wf ob" and "find P (obj_entries ob) = Some (k, v)"
  shows "obj_get ob k = Some v \<and> P (k, v)"
proof -
  from assms(2) obtain i where "i < length (obj_entries ob)" and "P (obj_entries ob ! i)"
    and "(k, v) = obj_entries ob ! i"
    by (auto simp: find_Some_iff)
  then have "(k, v) \<in> set (obj_entries ob)" and "P (k, v)"
    using nth_mem by fastforce+
  then show ?thesis using assms(1) by (simp only: obj_entries_get)
qed

lemma find_entries_None:
  "find P (obj_entries ob) = None \<longleftrightarrow> (\<forall>p \<in> set ob. \<not> P p)"
  by (auto simp: find_None_iff)

end
