(* ===== verification/Timers.thy ===== *)
theory Timers
  imports Prelude
begin

text \<open>
  The browser's timer queue: \<open>setTimeout\<close>, \<open>clearTimeout\<close> and the firing of a due timer. A timer has
  a number, the time from which it may fire, and the data of its callback. The application store and
  the terminal hook keep the numbers of their timers, so that each owner has one timer at most; the
  locale \<open>timer_service\<close> states what they rely on and proves that discipline once.
\<close>

record 'c timers =
  next_timer :: nat
  pending :: "(nat \<times> int \<times> 'c) list"

definition no_timers :: "'c timers" where
  "no_timers = \<lparr>next_timer = 1, pending = []\<rparr>"

definition timer_lookup :: "'c timers \<Rightarrow> nat \<Rightarrow> (int \<times> 'c) option" where
  "timer_lookup T i = map_of (pending T) i"

definition set_timeout :: "int \<Rightarrow> int \<Rightarrow> 'c \<Rightarrow> 'c timers \<Rightarrow> nat \<times> 'c timers" where
  "set_timeout now delay c T =
     (next_timer T,
      T\<lparr>next_timer := Suc (next_timer T),
        pending := pending T @ [(next_timer T, now + delay, c)]\<rparr>)"

definition clear_timeout :: "nat option \<Rightarrow> 'c timers \<Rightarrow> 'c timers" where
  "clear_timeout i T =
     (case i of None \<Rightarrow> T | Some n \<Rightarrow> T\<lparr>pending := filter (\<lambda>p. fst p \<noteq> n) (pending T)\<rparr>)"

definition timers_wf :: "'c timers \<Rightarrow> bool" where
  "timers_wf T \<longleftrightarrow> (\<forall>p \<in> set (pending T). fst p < next_timer T)"

text \<open>
  The discipline of an owner that stores the number of its timer in a field. \<open>exclusive\<close>: a pending
  timer of an owner is the one whose number the owner holds, so there is one at most. \<open>backed\<close>: a
  number an owner holds is the number of a pending timer of that owner.
\<close>

definition exclusive :: "('o \<rightharpoonup> nat) \<Rightarrow> (nat \<Rightarrow> (int \<times> 'c) option) \<Rightarrow> ('c \<Rightarrow> 'o option) \<Rightarrow> bool" where
  "exclusive own look owner \<longleftrightarrow>
     (\<forall>i d c k. look i = Some (d, c) \<longrightarrow> owner c = Some k \<longrightarrow> own k = Some i)"

definition backed :: "('o \<rightharpoonup> nat) \<Rightarrow> (nat \<Rightarrow> (int \<times> 'c) option) \<Rightarrow> ('c \<Rightarrow> 'o option) \<Rightarrow> bool" where
  "backed own look owner \<longleftrightarrow>
     (\<forall>k i. own k = Some i \<longrightarrow> (\<exists>d c. look i = Some (d, c) \<and> owner c = Some k))"

lemma exclusiveD:
  "exclusive own look owner \<Longrightarrow> look i = Some (d, c) \<Longrightarrow> owner c = Some k \<Longrightarrow> own k = Some i"
  by (auto simp: exclusive_def)

lemma exclusive_unique:
  "exclusive own look owner \<Longrightarrow> look i = Some (d, c) \<Longrightarrow> look j = Some (e, b) \<Longrightarrow>
   owner c = Some k \<Longrightarrow> owner b = Some k \<Longrightarrow> i = j"
  by (metis exclusiveD option.inject)

lemma backedE:
  assumes "backed own look owner" and "own k = Some i"
  obtains d c where "look i = Some (d, c)" and "owner c = Some k"
  using assms unfolding backed_def by blast

locale timer_service =
  fixes look :: "'t \<Rightarrow> nat \<Rightarrow> (int \<times> 'c) option"
    and arm :: "int \<Rightarrow> int \<Rightarrow> 'c \<Rightarrow> 't \<Rightarrow> nat \<times> 't"
    and cancel :: "nat option \<Rightarrow> 't \<Rightarrow> 't"
    and good :: "'t \<Rightarrow> bool"
  assumes good_arm: "good T \<Longrightarrow> good (snd (arm now d c T))"
    and good_cancel: "good T \<Longrightarrow> good (cancel n T)"
    and arm_fresh: "good T \<Longrightarrow> look T (fst (arm now d c T)) = None"
    and look_arm: "good T \<Longrightarrow> look (snd (arm now d c T)) j =
          (if j = fst (arm now d c T) then Some (now + d, c) else look T j)"
    and look_cancel: "look (cancel n T) j = (if n = Some j then None else look T j)"
begin

text \<open>A cancelled timer is gone, whatever is armed afterwards never has its number back.\<close>

lemma cancel_same: "look (cancel (Some i) T) i = None"
  by (simp add: look_cancel)

text \<open>An owner that drops its timer, and one that replaces it.\<close>

lemma exclusive_cancel:
  "exclusive own (look T) owner \<Longrightarrow> exclusive (own(k := None)) (look (cancel (own k) T)) owner"
  by (auto simp: exclusive_def look_cancel split: if_splits)

lemma exclusive_cancel_keep:
  "exclusive own (look T) owner \<Longrightarrow> exclusive own (look (cancel n T)) owner"
  by (auto simp: exclusive_def look_cancel split: if_splits)

lemma exclusive_rearm:
  assumes "good T" and "exclusive own (look T) owner" and "owner c = Some k"
    and "arm now d c (cancel (own k) T) = (i, T')"
  shows "exclusive (own(k \<mapsto> i)) (look T') owner"
proof -
  have good: "good (cancel (own k) T)" using assms(1) by (rule good_cancel)
  have i: "i = fst (arm now d c (cancel (own k) T))"
    and T': "T' = snd (arm now d c (cancel (own k) T))"
    using assms(4) by simp_all
  show ?thesis
    using assms(2,3) unfolding exclusive_def i T'
    by (auto simp: look_arm [OF good] look_cancel split: if_splits)
qed

lemma exclusive_arm_other:
  assumes "good T" and "exclusive own (look T) owner" and "owner c = None"
  shows "exclusive own (look (snd (arm now d c T))) owner"
  using assms by (auto simp: exclusive_def look_arm split: if_splits)

lemma backed_cancel:
  assumes "backed own (look T) owner" and "exclusive own (look T) owner"
  shows "backed (own(k := None)) (look (cancel (own k) T)) owner"
  unfolding backed_def
proof (intro allI impI)
  fix j i
  assume "(own(k := None)) j = Some i"
  then have jk: "j \<noteq> k" and j: "own j = Some i" by (auto split: if_splits)
  from assms(1) j obtain d c where dc: "look T i = Some (d, c)" "owner c = Some j"
    by (rule backedE)
  have "own k \<noteq> Some i"
  proof
    assume "own k = Some i"
    with assms(1) obtain d' c' where "look T i = Some (d', c')" "owner c' = Some k"
      by (rule backedE)
    with dc have "owner c = Some k" by simp
    with dc jk show False by simp
  qed
  with dc show "\<exists>d c. look (cancel (own k) T) i = Some (d, c) \<and> owner c = Some j"
    by (auto simp: look_cancel)
qed

lemma backed_rearm:
  assumes "good T" and "backed own (look T) owner" and "exclusive own (look T) owner"
    and "owner c = Some k" and "arm now d c (cancel (own k) T) = (i, T')"
  shows "backed (own(k \<mapsto> i)) (look T') owner"
proof -
  have good: "good (cancel (own k) T)" using assms(1) by (rule good_cancel)
  have i: "i = fst (arm now d c (cancel (own k) T))"
    and T': "T' = snd (arm now d c (cancel (own k) T))"
    using assms(5) by simp_all
  have b: "backed (own(k := None)) (look (cancel (own k) T)) owner"
    using assms(2,3) by (rule backed_cancel)
  show ?thesis
    unfolding backed_def
  proof (intro allI impI)
    fix j n
    assume jn: "(own(k \<mapsto> i)) j = Some n"
    show "\<exists>d c. look T' n = Some (d, c) \<and> owner c = Some j"
    proof (cases "j = k")
      case True
      with jn assms(4) show ?thesis by (auto simp: T' i look_arm [OF good])
    next
      case False
      with jn have "(own(k := None)) j = Some n" by simp
      with b obtain d' c'
        where *: "look (cancel (own k) T) n = Some (d', c')" "owner c' = Some j"
        by (rule backedE)
      moreover have "n \<noteq> i" using * arm_fresh [OF good] by (auto simp: i)
      ultimately show ?thesis by (auto simp: T' i look_arm [OF good])
    qed
  qed
qed

end

lemma timers_wf_lookup: "timers_wf T \<Longrightarrow> timer_lookup T i = Some x \<Longrightarrow> i < next_timer T"
  by (auto simp: timers_wf_def timer_lookup_def dest!: map_of_SomeD)

lemma timers_wf_none [simp]: "timers_wf no_timers"
  by (simp add: timers_wf_def no_timers_def)

lemma timer_lookup_none [simp]: "timer_lookup no_timers i = None"
  by (simp add: timer_lookup_def no_timers_def)

lemma map_of_filter_key: "map_of (filter (\<lambda>p. fst p \<noteq> n) ps) j = (if j = n then None else map_of ps j)"
  by (induction ps) auto

interpretation tmr: timer_service timer_lookup set_timeout clear_timeout timers_wf
proof unfold_locales
  fix T :: "'a timers" and now d c n j
  show "timers_wf T \<Longrightarrow> timers_wf (snd (set_timeout now d c T))"
    by (auto simp: timers_wf_def set_timeout_def)
  show "timers_wf T \<Longrightarrow> timers_wf (clear_timeout n T)"
    by (auto simp: timers_wf_def clear_timeout_def split: option.splits)
  show "timers_wf T \<Longrightarrow> timer_lookup T (fst (set_timeout now d c T)) = None"
    using timers_wf_lookup [of T "next_timer T"]
    by (cases "timer_lookup T (next_timer T)") (auto simp: set_timeout_def)
  show "timer_lookup (clear_timeout n T) j = (if n = Some j then None else timer_lookup T j)"
    by (auto simp: timer_lookup_def clear_timeout_def map_of_filter_key split: option.splits)
  assume wf: "timers_wf T"
  then have "timer_lookup T (next_timer T) = None"
    using timers_wf_lookup [of T "next_timer T"]
    by (cases "timer_lookup T (next_timer T)") auto
  then show "timer_lookup (snd (set_timeout now d c T)) j =
      (if j = fst (set_timeout now d c T) then Some (now + d, c) else timer_lookup T j)"
    by (auto simp: timer_lookup_def set_timeout_def map_add_def split: option.splits)
qed

lemmas timer_simps [simp] = tmr.look_cancel tmr.good_cancel tmr.good_arm

end
