(* ===== verification/AppStore.thy ===== *)
theory AppStore
  imports JsObject Timers
begin

text \<open>
  The zustand store of \<open>frontend/src/stores/appStore.ts\<close>: the data of workspaces, sessions, activity
  and toasts, the module-level tracking maps, and every synchronous operation. The parts of the
  asynchronous operations that run after a reply are here too, one definition per \<open>set\<close> call;
  \<open>AppAsync\<close> puts them in sequence.
\<close>

section \<open>Data\<close>

record workspace =
  ws_id :: string
  ws_name :: string
  ws_sortOrder :: int
  ws_createdAt :: string
  ws_updatedAt :: string

record session =
  sess_id :: string
  sess_workspaceId :: string
  sess_title :: string
  sess_shell :: "string option"
  sess_cwd :: "string option"
  sess_sortOrder :: int
  sess_createdAt :: string
  sess_updatedAt :: string

record activity =
  unread :: bool
  lastOutputAt :: int
  notifiedAt :: int

record toast =
  toast_id :: string
  toast_sessionId :: string
  toast_workspaceId :: string
  toast_sessionTitle :: string
  toast_createdAt :: int

record busy_track =
  startedAt :: int
  lastByteAt :: int

definition MAX_TOASTS :: nat where "MAX_TOASTS = 5"
definition IDLE_MS :: int where "IDLE_MS = 1500"
definition MIN_BUSY_MS :: int where "MIN_BUSY_MS = 500"

record app_state =
  workspaces :: "workspace list"
  sessions :: "session list jsobj"
  activeWorkspaceId :: "string option"
  activeSessionId :: "string option"
  activeSessionByWorkspace :: "string jsobj"
  sessionActivity :: "activity jsobj"
  toasts :: "toast list"
  initialized :: bool

text \<open>
  The module's state: the store, the two tracking maps, and what the browser keeps for it (the timer
  queue, the clock that \<open>Date.now()\<close> and the timers read, and \<open>document.visibilityState\<close>). A callback
  in the queue is the session its closure captured.
\<close>

record app_world =
  store :: app_state
  busyTrack :: "string \<rightharpoonup> busy_track"
  idleTimers :: "string \<rightharpoonup> nat"
  idleQueue :: "string timers"
  clock :: int
  docVisible :: bool

definition initial_state :: app_state where
  "initial_state = \<lparr>workspaces = [], sessions = [], activeWorkspaceId = None,
     activeSessionId = None, activeSessionByWorkspace = [], sessionActivity = [], toasts = [],
     initialized = False\<rparr>"

section \<open>Idle tracking\<close>

definition cancelIdleTracking :: "string \<Rightarrow> app_world \<Rightarrow> app_world" where
  "cancelIdleTracking sid w =
     w\<lparr>idleQueue := clear_timeout (map_get (idleTimers w) sid) (idleQueue w),
       idleTimers := map_del sid (idleTimers w),
       busyTrack := map_del sid (busyTrack w)\<rparr>"

text \<open>The comparison of the polled session list with the cached one.\<close>

fun sessions_loop :: "session list \<Rightarrow> session list \<Rightarrow> bool" where
  "sessions_loop (ai # a) (bi # b) =
     (if sess_id ai \<noteq> sess_id bi \<or> sess_title ai \<noteq> sess_title bi \<or> sess_cwd ai \<noteq> sess_cwd bi
         \<or> sess_updatedAt ai \<noteq> sess_updatedAt bi
      then False else sessions_loop a b)"
| "sessions_loop _ _ = True"

definition sessionsEqual :: "session list \<Rightarrow> session list \<Rightarrow> bool" where
  "sessionsEqual a b = (if length a \<noteq> length b then False else sessions_loop a b)"

section \<open>Synchronous operations\<close>

definition has_toast :: "string \<Rightarrow> toast list \<Rightarrow> bool" where
  "has_toast sid ts = list_ex (\<lambda>t. toast_sessionId t = sid) ts"

definition drop_toasts :: "string \<Rightarrow> toast list \<Rightarrow> toast list" where
  "drop_toasts sid ts =
     (if has_toast sid ts then filter (\<lambda>t. toast_sessionId t \<noteq> sid) ts else ts)"

definition clear_flag :: "string \<Rightarrow> activity jsobj \<Rightarrow> activity jsobj" where
  "clear_flag sid act =
     (case obj_get act sid of
        Some prev \<Rightarrow> if unread prev then obj_put sid (prev\<lparr>unread := False\<rparr>) act else act
      | None \<Rightarrow> act)"

definition setActiveSession :: "string \<Rightarrow> app_world \<Rightarrow> app_world" where
  "setActiveSession sid w0 =
     (let w = cancelIdleTracking sid w0; s = store w in
      w\<lparr>store := s\<lparr>
          activeSessionId := Some sid,
          activeSessionByWorkspace :=
            (if truthy (activeWorkspaceId s)
             then obj_put (the (activeWorkspaceId s)) sid (activeSessionByWorkspace s)
             else activeSessionByWorkspace s),
          sessionActivity := clear_flag sid (sessionActivity s),
          toasts := drop_toasts sid (toasts s)\<rparr>\<rparr>)"

definition clearSessionUnread :: "string \<Rightarrow> app_world \<Rightarrow> app_world" where
  "clearSessionUnread sid w0 =
     (let w = cancelIdleTracking sid w0; s = store w;
          prev = obj_get (sessionActivity s) sid in
      if (case prev of None \<Rightarrow> True | Some a \<Rightarrow> \<not> unread a) \<and> \<not> has_toast sid (toasts s) then w
      else w\<lparr>store := s\<lparr>
          sessionActivity := clear_flag sid (sessionActivity s),
          toasts := drop_toasts sid (toasts s)\<rparr>\<rparr>)"

definition dismissToast :: "string \<Rightarrow> app_world \<Rightarrow> app_world" where
  "dismissToast tid w =
     (let s = store w in
      if \<not> list_ex (\<lambda>t. toast_id t = tid) (toasts s) then w
      else w\<lparr>store := s\<lparr>toasts := filter (\<lambda>t. toast_id t \<noteq> tid) (toasts s)\<rparr>\<rparr>)"

definition sessionUnread :: "app_state \<Rightarrow> string \<Rightarrow> bool" where
  "sessionUnread s sid =
     (case obj_get (sessionActivity s) sid of Some a \<Rightarrow> unread a | None \<Rightarrow> False)"

definition workspaceUnread :: "app_state \<Rightarrow> string \<Rightarrow> bool" where
  "workspaceUnread s wid =
     (case obj_get (sessions s) wid of
        None \<Rightarrow> False
      | Some l \<Rightarrow> list_ex (\<lambda>x. sessionUnread s (sess_id x)) l)"

section \<open>Output and idling\<close>

definition markSessionOutput :: "string \<Rightarrow> app_world \<Rightarrow> app_world" where
  "markSessionOutput sid w =
     (if activeSessionId (store w) = Some sid \<and> docVisible w then cancelIdleTracking sid w
      else
        let now = clock w;
            bt = (case map_get (busyTrack w) sid of
                    Some track \<Rightarrow> map_put sid (track\<lparr>lastByteAt := now\<rparr>) (busyTrack w)
                  | None \<Rightarrow> map_put sid \<lparr>startedAt = now, lastByteAt = now\<rparr> (busyTrack w));
            q = clear_timeout (map_get (idleTimers w) sid) (idleQueue w);
            (i, q') = set_timeout now IDLE_MS sid q
        in w\<lparr>busyTrack := bt, idleQueue := q', idleTimers := map_put sid i (idleTimers w)\<rparr>)"

text \<open>The loop over \<open>Object.entries(s.sessions)\<close> that looks for the session's list.\<close>

fun locate_session :: "string \<Rightarrow> (string \<times> session list) list \<Rightarrow> (string \<times> session) option" where
  "locate_session sid [] = None"
| "locate_session sid ((wid, l) # es) =
     (case find (\<lambda>x. sess_id x = sid) l of
        Some found \<Rightarrow> Some (wid, found)
      | None \<Rightarrow> locate_session sid es)"

definition make_toast :: "string \<Rightarrow> string \<Rightarrow> string \<Rightarrow> int \<Rightarrow> toast" where
  "make_toast sid wid title tm =
     \<lparr>toast_id = sid @ ''-'' @ num_str tm, toast_sessionId = sid, toast_workspaceId = wid,
      toast_sessionTitle = title, toast_createdAt = tm\<rparr>"

definition idle_mark :: "string \<Rightarrow> busy_track \<Rightarrow> app_state \<Rightarrow> app_state" where
  "idle_mark sid t s =
     (if sessionUnread s sid then s
      else
        let nextActivity = obj_put sid
              \<lparr>unread = True, lastOutputAt = lastByteAt t, notifiedAt = lastByteAt t\<rparr>
              (sessionActivity s);
            (workspaceId, sessionTitle) =
              (case locate_session sid (obj_entries (sessions s)) of
                 Some (wid, x) \<Rightarrow> (wid, sess_title x) | None \<Rightarrow> ([], []))
        in if workspaceId = [] then s\<lparr>sessionActivity := nextActivity\<rparr>
           else s\<lparr>sessionActivity := nextActivity,
                  toasts := slice_last MAX_TOASTS
                    (filter (\<lambda>x. toast_sessionId x \<noteq> sid) (toasts s)
                     @ [make_toast sid workspaceId sessionTitle (lastByteAt t)])\<rparr>)"

text \<open>The callback of the idle timer, and the browser firing the timer with a given number.\<close>

definition idle_callback :: "string \<Rightarrow> app_world \<Rightarrow> app_world" where
  "idle_callback sid w =
     (let t = map_get (busyTrack w) sid;
          w1 = w\<lparr>idleTimers := map_del sid (idleTimers w), busyTrack := map_del sid (busyTrack w)\<rparr>
      in case t of
           None \<Rightarrow> w1
         | Some b \<Rightarrow>
             if lastByteAt b - startedAt b < MIN_BUSY_MS then w1
             else if \<not> (activeSessionId (store w1) \<noteq> Some sid \<or> \<not> docVisible w1) then w1
             else w1\<lparr>store := idle_mark sid b (store w1)\<rparr>)"

definition fire_idle :: "nat \<Rightarrow> app_world \<Rightarrow> app_world" where
  "fire_idle i w =
     (case timer_lookup (idleQueue w) i of
        None \<Rightarrow> w
      | Some (due, sid) \<Rightarrow>
          idle_callback sid (w\<lparr>idleQueue := clear_timeout (Some i) (idleQueue w)\<rparr>))"

section \<open>After the reply: the \<open>set\<close> calls of the asynchronous operations\<close>

definition set_workspaces :: "workspace list \<Rightarrow> app_world \<Rightarrow> app_world" where
  "set_workspaces wss w = w\<lparr>store := (store w)\<lparr>workspaces := wss\<rparr>\<rparr>"

definition createWorkspace_set :: "workspace \<Rightarrow> session \<Rightarrow> app_world \<Rightarrow> app_world" where
  "createWorkspace_set ws sess w =
     (let s = store w in
      w\<lparr>store := s\<lparr>
          workspaces := workspaces s @ [ws],
          sessions := obj_put (ws_id ws) [sess] (sessions s),
          activeWorkspaceId := Some (ws_id ws),
          activeSessionId := Some (sess_id sess),
          activeSessionByWorkspace :=
            obj_put (ws_id ws) (sess_id sess) (activeSessionByWorkspace s)\<rparr>\<rparr>)"

definition session_list :: "app_state \<Rightarrow> string \<Rightarrow> session list" where
  "session_list s wid = (case obj_get (sessions s) wid of Some l \<Rightarrow> l | None \<Rightarrow> [])"

definition deleteWorkspace_set :: "string \<Rightarrow> app_world \<Rightarrow> app_world" where
  "deleteWorkspace_set wid w0 =
     (let s = store w0;
          wss = filter (\<lambda>x. ws_id x \<noteq> wid) (workspaces s);
          removed = session_list s wid;
          sess = obj_del wid (sessions s);
          abw = obj_del wid (activeSessionByWorkspace s);
          nextWid = map_option ws_id (head_opt wss);
          nextActive =
            (if truthy nextWid
             then coalesce (obj_get abw (the nextWid))
                    (Option.bind (obj_get sess (the nextWid)) (\<lambda>l. map_option sess_id (head_opt l)))
             else None);
          ids = map sess_id removed;
          w = fold cancelIdleTracking ids w0
      in w\<lparr>store := s\<lparr>
          workspaces := wss,
          sessions := sess,
          activeWorkspaceId := nextWid,
          activeSessionId := nextActive,
          activeSessionByWorkspace := abw,
          sessionActivity := fold obj_del ids (sessionActivity s),
          toasts :=
            (if list_ex (\<lambda>t. List.member ids (toast_sessionId t)) (toasts s)
             then filter (\<lambda>t. \<not> List.member ids (toast_sessionId t)) (toasts s)
             else toasts s)\<rparr>\<rparr>)"

definition renameWorkspace_set :: "string \<Rightarrow> workspace \<Rightarrow> app_world \<Rightarrow> app_world" where
  "renameWorkspace_set wid updated w =
     w\<lparr>store := (store w)\<lparr>workspaces :=
         map (\<lambda>x. if ws_id x = wid then updated else x) (workspaces (store w))\<rparr>\<rparr>"

definition setActiveWorkspace_set :: "string \<Rightarrow> session list \<Rightarrow> app_world \<Rightarrow> app_world" where
  "setActiveWorkspace_set wid l w0 =
     (let s = store w0;
          remembered = obj_get (activeSessionByWorkspace s) wid;
          stillExists = (truthy remembered \<and> list_ex (\<lambda>x. Some (sess_id x) = remembered) l);
          nextActive = (if stillExists then remembered else map_option sess_id (head_opt l));
          viewed = truthy nextActive;
          sid = the nextActive;
          w = (if viewed then cancelIdleTracking sid w0 else w0)
      in w\<lparr>store := s\<lparr>
          sessions := obj_put wid l (sessions s),
          activeWorkspaceId := Some wid,
          activeSessionId := nextActive,
          activeSessionByWorkspace :=
            (if viewed then obj_put wid sid (activeSessionByWorkspace s)
             else activeSessionByWorkspace s),
          sessionActivity :=
            (if viewed then clear_flag sid (sessionActivity s) else sessionActivity s),
          toasts := (if viewed then drop_toasts sid (toasts s) else toasts s)\<rparr>\<rparr>)"

definition set_sessions :: "string \<Rightarrow> session list \<Rightarrow> app_world \<Rightarrow> app_world" where
  "set_sessions wid l w = w\<lparr>store := (store w)\<lparr>sessions := obj_put wid l (sessions (store w))\<rparr>\<rparr>"

definition pollActive_set :: "string \<Rightarrow> session list \<Rightarrow> app_world \<Rightarrow> app_world" where
  "pollActive_set wid l w =
     (if sessionsEqual (session_list (store w) wid) l then w else set_sessions wid l w)"

definition createSession_set :: "string \<Rightarrow> session \<Rightarrow> app_world \<Rightarrow> app_world" where
  "createSession_set wid sess w =
     (let s = store w in
      w\<lparr>store := s\<lparr>
          sessions := obj_put wid (session_list s wid @ [sess]) (sessions s),
          activeSessionId := Some (sess_id sess),
          activeSessionByWorkspace := obj_put wid (sess_id sess) (activeSessionByWorkspace s)\<rparr>\<rparr>)"

definition deleteSession_set :: "string \<Rightarrow> app_world \<Rightarrow> app_world" where
  "deleteSession_set sid w0 =
     (let w = cancelIdleTracking sid w0; s = store w in
      if \<not> truthy (activeWorkspaceId s) then w
      else
        let wid = the (activeWorkspaceId s);
            l = filter (\<lambda>x. sess_id x \<noteq> sid) (session_list s wid);
            wasActive = (activeSessionId s = Some sid);
            nextActive = (if wasActive then map_option sess_id (head_opt l) else activeSessionId s);
            abw = activeSessionByWorkspace s
        in w\<lparr>store := s\<lparr>
            sessions := obj_put wid l (sessions s),
            activeSessionId := nextActive,
            activeSessionByWorkspace :=
              (if obj_get abw wid = Some sid
               then (if truthy nextActive then obj_put wid (the nextActive) abw else obj_del wid abw)
               else abw),
            sessionActivity := obj_del sid (sessionActivity s),
            toasts := drop_toasts sid (toasts s)\<rparr>\<rparr>)"

definition renameSession_set :: "string \<Rightarrow> session \<Rightarrow> app_world \<Rightarrow> app_world" where
  "renameSession_set sid updated w =
     (let s = store w in
      if \<not> truthy (activeWorkspaceId s) then w
      else
        let wid = the (activeWorkspaceId s) in
        w\<lparr>store := s\<lparr>sessions := obj_put wid
            (map (\<lambda>x. if sess_id x = sid then updated else x) (session_list s wid))
            (sessions s)\<rparr>\<rparr>)"

end
