(* ===== verification/AppInv.thy ===== *)
theory AppInv
  imports AppStore
begin

text \<open>
  The invariants of the store and that every operation keeps them. \<open>track_inv\<close>: the idle timers, the
  busy tracks and the browser's queue agree. \<open>toast_inv\<close>: the toast stack is bounded, has one toast per
  session, and each of its sessions is unread. \<open>obj_inv\<close>: each dictionary has each key once.
\<close>

section \<open>The tracking maps and the timer queue\<close>

definition track_inv :: "app_world \<Rightarrow> bool" where
  "track_inv w \<longleftrightarrow>
     0 \<le> clock w \<and> timers_wf (idleQueue w)
     \<and> exclusive (idleTimers w) (timer_lookup (idleQueue w)) Some
     \<and> backed (idleTimers w) (timer_lookup (idleQueue w)) Some
     \<and> (\<forall>sid. busyTrack w sid = None \<longleftrightarrow> idleTimers w sid = None)
     \<and> (\<forall>sid b. busyTrack w sid = Some b \<longrightarrow>
          0 \<le> startedAt b \<and> startedAt b \<le> lastByteAt b \<and> lastByteAt b \<le> clock w)
     \<and> (\<forall>sid b i d. busyTrack w sid = Some b \<longrightarrow> timer_lookup (idleQueue w) i = Some (d, sid)
          \<longrightarrow> d = lastByteAt b + IDLE_MS)"

lemmas map_defs = map_get_def map_put_def map_del_def

lemma track_inv_store [simp]: "track_inv (w\<lparr>store := s\<rparr>) = track_inv w"
  by (simp add: track_inv_def)

lemma track_inv_visible [simp]: "track_inv (w\<lparr>docVisible := v\<rparr>) = track_inv w"
  by (simp add: track_inv_def)

lemma track_inv_clock: "track_inv w \<Longrightarrow> clock w \<le> t \<Longrightarrow> track_inv (w\<lparr>clock := t\<rparr>)"
  unfolding track_inv_def by (simp, meson order_trans)

lemma store_cancelIdleTracking [simp]: "store (cancelIdleTracking sid w) = store w"
  by (simp add: cancelIdleTracking_def)

lemma clock_cancelIdleTracking [simp]: "clock (cancelIdleTracking sid w) = clock w"
  by (simp add: cancelIdleTracking_def)

lemma track_inv_cancel: "track_inv w \<Longrightarrow> track_inv (cancelIdleTracking sid w)"
  unfolding track_inv_def cancelIdleTracking_def map_defs
  by (auto intro!: tmr.exclusive_cancel tmr.backed_cancel)

lemma track_inv_fold_cancel: "track_inv w \<Longrightarrow> track_inv (fold cancelIdleTracking ids w)"
  by (induction ids arbitrary: w) (auto intro: track_inv_cancel)

lemma store_fold_cancel [simp]: "store (fold cancelIdleTracking ids w) = store w"
  by (induction ids arbitrary: w) auto

text \<open>A cancelled session has no track, no timer number, and no pending timer.\<close>

definition untracked :: "string \<Rightarrow> app_world \<Rightarrow> bool" where
  "untracked sid w \<longleftrightarrow>
     busyTrack w sid = None \<and> idleTimers w sid = None
     \<and> (\<forall>i d. timer_lookup (idleQueue w) i \<noteq> Some (d, sid))"

lemma track_inv_untracked:
  assumes "track_inv w" and "idleTimers w sid = None"
  shows "untracked sid w"
proof -
  have "timer_lookup (idleQueue w) i \<noteq> Some (d, sid)" for i d
    using assms exclusiveD [of "idleTimers w" "timer_lookup (idleQueue w)" Some i d sid sid]
    by (auto simp: track_inv_def)
  then show ?thesis using assms by (simp add: untracked_def track_inv_def)
qed

lemma cancel_untracked: "track_inv w \<Longrightarrow> untracked sid (cancelIdleTracking sid w)"
  by (rule track_inv_untracked [OF track_inv_cancel])
     (simp_all add: cancelIdleTracking_def map_defs)

lemma busy_update: "b\<lparr>lastByteAt := n\<rparr> = \<lparr>startedAt = startedAt b, lastByteAt = n\<rparr>"
  by (cases b) simp

lemma markSessionOutput_bg:
  assumes "\<not> (activeSessionId (store w) = Some sid \<and> docVisible w)"
  shows "markSessionOutput sid w =
    w\<lparr>busyTrack := (busyTrack w)(sid \<mapsto>
         \<lparr>startedAt = (case busyTrack w sid of Some b \<Rightarrow> startedAt b | None \<Rightarrow> clock w),
          lastByteAt = clock w\<rparr>),
      idleQueue := snd (set_timeout (clock w) IDLE_MS sid
                          (clear_timeout (idleTimers w sid) (idleQueue w))),
      idleTimers := (idleTimers w)(sid \<mapsto> fst (set_timeout (clock w) IDLE_MS sid
                          (clear_timeout (idleTimers w sid) (idleQueue w))))\<rparr>"
  using assms
  by (auto simp: markSessionOutput_def map_defs Let_def busy_update split: option.splits prod.splits)

lemma track_inv_output:
  assumes inv: "track_inv w"
  shows "track_inv (markSessionOutput sid w)"
proof (cases "activeSessionId (store w) = Some sid \<and> docVisible w")
  case True
  with inv show ?thesis by (simp add: markSessionOutput_def track_inv_cancel)
next
  case False
  let ?q = "clear_timeout (idleTimers w sid) (idleQueue w)"
  let ?i = "fst (set_timeout (clock w) IDLE_MS sid ?q)"
  let ?q' = "snd (set_timeout (clock w) IDLE_MS sid ?q)"
  from inv have wf: "timers_wf (idleQueue w)"
    and ex: "exclusive (idleTimers w) (timer_lookup (idleQueue w)) Some"
    and ba: "backed (idleTimers w) (timer_lookup (idleQueue w)) Some"
    by (auto simp: track_inv_def)
  have wfq: "timers_wf ?q" using wf by simp
  have ex': "exclusive ((idleTimers w)(sid \<mapsto> ?i)) (timer_lookup ?q') Some"
    by (rule tmr.exclusive_rearm [OF wf ex, where d = IDLE_MS and now = "clock w" and c = sid]) simp_all
  have ba': "backed ((idleTimers w)(sid \<mapsto> ?i)) (timer_lookup ?q') Some"
    by (rule tmr.backed_rearm [OF wf ba ex, where d = IDLE_MS and now = "clock w" and c = sid]) simp_all
  have due: "d = lastByteAt b + IDLE_MS"
    if "((busyTrack w)(sid \<mapsto> \<lparr>startedAt = st, lastByteAt = clock w\<rparr>)) k = Some b"
      and "timer_lookup ?q' i = Some (d, k)" for k b i d st
  proof (cases "k = sid")
    case True
    with that(2) have "((idleTimers w)(sid \<mapsto> ?i)) sid = Some i"
      using exclusiveD [OF ex'] by blast
    then have "i = ?i" by simp
    with that True show ?thesis by (auto simp: tmr.look_arm [OF wfq])
  next
    case False
    with that inv show ?thesis
      by (auto simp: tmr.look_arm [OF wfq] track_inv_def split: if_splits)
  qed
  have started: "startedAt b \<le> clock w" if "busyTrack w sid = Some b" for b
    using inv that unfolding track_inv_def by (meson order_trans)
  show ?thesis
    unfolding markSessionOutput_bg [OF False] track_inv_def
    using inv ex' ba' due wfq started
    by (auto simp: track_inv_def split: option.splits)
qed

text \<open>The firing of a due timer forgets the burst it was armed for.\<close>

lemma fire_idle_cases:
  assumes inv: "track_inv w" and q: "timer_lookup (idleQueue w) i = Some (d, sid)"
  obtains b where "busyTrack w sid = Some b" and "idleTimers w sid = Some i"
    and "d = lastByteAt b + IDLE_MS" and "0 \<le> startedAt b" and "startedAt b \<le> lastByteAt b"
    and "lastByteAt b \<le> clock w"
proof -
  have i: "idleTimers w sid = Some i"
    using inv q exclusiveD [of "idleTimers w" "timer_lookup (idleQueue w)" Some] unfolding track_inv_def
    by blast
  then obtain b where "busyTrack w sid = Some b"
    using inv unfolding track_inv_def by (cases "busyTrack w sid") auto
  with inv q i that show ?thesis unfolding track_inv_def by blast
qed

definition forget_track :: "string \<Rightarrow> app_world \<Rightarrow> app_world" where
  "forget_track sid w =
     w\<lparr>idleTimers := map_del sid (idleTimers w), busyTrack := map_del sid (busyTrack w)\<rparr>"

lemma fire_idle_eq:
  assumes "track_inv w" and "timer_lookup (idleQueue w) i = Some (d, sid)"
    and "busyTrack w sid = Some b"
  shows "fire_idle i w =
    (let w1 = cancelIdleTracking sid w in
     if MIN_BUSY_MS \<le> lastByteAt b - startedAt b
        \<and> (activeSessionId (store w) \<noteq> Some sid \<or> \<not> docVisible w)
     then w1\<lparr>store := idle_mark sid b (store w)\<rparr> else w1)"
proof -
  from fire_idle_cases [OF assms(1,2)] have "idleTimers w sid = Some i" by metis
  with assms(2,3) show ?thesis
    by (auto simp: fire_idle_def idle_callback_def cancelIdleTracking_def map_defs Let_def)
qed

lemma track_inv_fire: "track_inv w \<Longrightarrow> track_inv (fire_idle i w)"
proof (cases "timer_lookup (idleQueue w) i")
  case None
  then show "track_inv w \<Longrightarrow> ?thesis" by (simp add: fire_idle_def)
next
  case (Some p)
  assume inv: "track_inv w"
  obtain d sid where p: "p = (d, sid)" by (cases p)
  with Some inv obtain b where "busyTrack w sid = Some b"
    by (blast elim: fire_idle_cases)
  with Some p inv show ?thesis
    by (simp add: fire_idle_eq Let_def track_inv_cancel)
qed

section \<open>The toast stack\<close>

definition unread_in :: "activity jsobj \<Rightarrow> string \<Rightarrow> bool" where
  "unread_in act sid = (case obj_get act sid of Some a \<Rightarrow> unread a | None \<Rightarrow> False)"

lemma sessionUnread_alt: "sessionUnread s sid = unread_in (sessionActivity s) sid"
  by (simp add: sessionUnread_def unread_in_def)

lemma drop_toasts_filter: "drop_toasts sid ts = filter (\<lambda>t. toast_sessionId t \<noteq> sid) ts"
  by (auto simp: drop_toasts_def has_toast_def list_ex_iff intro!: filter_True [symmetric])

lemma get_clear_flag: "obj_get (clear_flag sid act) k =
  (if k = sid then map_option (\<lambda>a. a\<lparr>unread := False\<rparr>) (obj_get act k) else obj_get act k)"
  by (auto simp: clear_flag_def split: option.splits)

lemma unread_in_clear [simp]: "unread_in (clear_flag sid act) k \<longleftrightarrow> k \<noteq> sid \<and> unread_in act k"
  by (auto simp: unread_in_def get_clear_flag split: option.splits)

lemma unread_in_put [simp]: "unread_in (obj_put k a act) j = (if j = k then unread a else unread_in act j)"
  by (simp add: unread_in_def)

lemma unread_in_del_all [simp]: "unread_in (fold obj_del ks act) j \<longleftrightarrow> j \<notin> set ks \<and> unread_in act j"
  by (simp add: unread_in_def obj.get_del_all)

lemma unread_in_del [simp]: "unread_in (obj_del k act) j \<longleftrightarrow> j \<noteq> k \<and> unread_in act j"
  using unread_in_del_all [of "[k]" act j] by simp

definition toast_ok :: "toast \<Rightarrow> bool" where
  "toast_ok t \<longleftrightarrow> toast_id t = toast_sessionId t @ ''-'' @ num_str (toast_createdAt t)
     \<and> 0 \<le> toast_createdAt t \<and> toast_workspaceId t \<noteq> []"

definition stack_ok :: "activity jsobj \<Rightarrow> toast list \<Rightarrow> bool" where
  "stack_ok act ts \<longleftrightarrow>
     length ts \<le> MAX_TOASTS \<and> distinct (map toast_sessionId ts)
     \<and> (\<forall>t \<in> set ts. toast_ok t \<and> unread_in act (toast_sessionId t))"

lemma stack_ok_filter: "stack_ok act ts \<Longrightarrow> stack_ok act (filter P ts)"
  by (auto simp: stack_ok_def distinct_map_filter intro: order_trans [OF length_filter_le])

lemma stack_ok_weaken:
  "stack_ok act ts \<Longrightarrow> (\<And>t. t \<in> set ts \<Longrightarrow> unread_in act' (toast_sessionId t)) \<Longrightarrow> stack_ok act' ts"
  by (auto simp: stack_ok_def)

lemma stack_ok_clear: "stack_ok act ts \<Longrightarrow> stack_ok (clear_flag sid act) (drop_toasts sid ts)"
  unfolding drop_toasts_filter
  by (rule stack_ok_weaken [OF stack_ok_filter]) (auto simp: stack_ok_def)

lemma stack_ok_delete:
  "stack_ok act ts \<Longrightarrow>
   stack_ok (fold obj_del ids act) (filter (\<lambda>t. toast_sessionId t \<notin> set ids) ts)"
  by (rule stack_ok_weaken [OF stack_ok_filter]) (auto simp: stack_ok_def)

lemma stack_ok_push:
  assumes ok: "stack_ok act ts" and t: "toast_ok t" and a: "unread a"
  shows "stack_ok (obj_put (toast_sessionId t) a act)
    (slice_last MAX_TOASTS (filter (\<lambda>x. toast_sessionId x \<noteq> toast_sessionId t) ts @ [t]))"
proof -
  let ?ts = "filter (\<lambda>x. toast_sessionId x \<noteq> toast_sessionId t) ts @ [t]"
  have "distinct (map toast_sessionId ?ts)"
    using ok by (auto simp: stack_ok_def distinct_map_filter)
  then have "distinct (map toast_sessionId (slice_last MAX_TOASTS ?ts))"
    by (rule distinct_slice_last)
  moreover have "toast_ok x \<and> unread_in (obj_put (toast_sessionId t) a act) (toast_sessionId x)"
    if "x \<in> set (slice_last MAX_TOASTS ?ts)" for x
    using set_slice_last [OF that] ok t a by (auto simp: stack_ok_def)
  ultimately show ?thesis by (simp add: stack_ok_def)
qed

definition toast_inv :: "app_state \<Rightarrow> bool" where
  "toast_inv s \<longleftrightarrow> stack_ok (sessionActivity s) (toasts s)"

definition obj_inv :: "app_state \<Rightarrow> bool" where
  "obj_inv s \<longleftrightarrow> obj_wf (sessions s) \<and> obj_wf (activeSessionByWorkspace s) \<and> obj_wf (sessionActivity s)"

text \<open>What the activity entries record: when the last byte came, at least an idle window ago.\<close>

definition act_ok :: "int \<Rightarrow> activity jsobj \<Rightarrow> bool" where
  "act_ok now act \<longleftrightarrow>
     (\<forall>sid a. obj_get act sid = Some a \<longrightarrow>
        0 \<le> lastOutputAt a \<and> notifiedAt a = lastOutputAt a \<and> lastOutputAt a + IDLE_MS \<le> now)"

definition act_inv :: "app_world \<Rightarrow> bool" where
  "act_inv w \<longleftrightarrow> act_ok (clock w) (sessionActivity (store w))"

lemma act_ok_clear: "act_ok now act \<Longrightarrow> act_ok now (clear_flag sid act)"
  by (fastforce simp: act_ok_def get_clear_flag)

lemma act_ok_del: "act_ok now act \<Longrightarrow> act_ok now (fold obj_del ids act)"
  by (auto simp: act_ok_def obj.get_del_all)

lemma act_ok_put:
  "act_ok now act \<Longrightarrow> 0 \<le> lastOutputAt a \<Longrightarrow> notifiedAt a = lastOutputAt a \<Longrightarrow>
   lastOutputAt a + IDLE_MS \<le> now \<Longrightarrow> act_ok now (obj_put sid a act)"
  by (auto simp: act_ok_def)

lemma act_ok_mono: "act_ok now act \<Longrightarrow> now \<le> now' \<Longrightarrow> act_ok now' act"
  by (fastforce simp: act_ok_def)

definition app_inv :: "app_world \<Rightarrow> bool" where
  "app_inv w \<longleftrightarrow> track_inv w \<and> toast_inv (store w) \<and> obj_inv (store w) \<and> act_inv w"

lemma app_invI:
  "track_inv w \<Longrightarrow> toast_inv (store w) \<Longrightarrow> obj_inv (store w) \<Longrightarrow> act_inv w \<Longrightarrow> app_inv w"
  by (simp add: app_inv_def)

lemmas app_inv_defs = app_inv_def toast_inv_def obj_inv_def act_inv_def

lemma obj_wf_clear [simp]: "obj_wf act \<Longrightarrow> obj_wf (clear_flag sid act)"
  by (simp add: clear_flag_def split: option.splits)

section \<open>Every synchronous operation keeps the invariants\<close>

lemma app_inv_cancel: "app_inv w \<Longrightarrow> app_inv (cancelIdleTracking sid w)"
  by (simp add: app_inv_defs track_inv_cancel)

lemma app_inv_fold_cancel: "app_inv w \<Longrightarrow> app_inv (fold cancelIdleTracking ids w)"
  by (induction ids arbitrary: w) (auto intro: app_inv_cancel)

lemma store_markSessionOutput [simp]: "store (markSessionOutput sid w) = store w"
  by (simp add: markSessionOutput_def Let_def split: prod.splits)

lemma clock_markSessionOutput [simp]: "clock (markSessionOutput sid w) = clock w"
  by (simp add: markSessionOutput_def Let_def split: prod.splits)

lemma app_inv_output: "app_inv w \<Longrightarrow> app_inv (markSessionOutput sid w)"
  by (simp add: app_inv_defs track_inv_output)

lemma app_inv_setActiveSession: "app_inv w \<Longrightarrow> app_inv (setActiveSession sid w)"
  by (simp add: setActiveSession_def Let_def app_inv_defs track_inv_cancel stack_ok_clear act_ok_clear)

lemma app_inv_clearSessionUnread: "app_inv w \<Longrightarrow> app_inv (clearSessionUnread sid w)"
  by (simp add: clearSessionUnread_def Let_def app_inv_defs track_inv_cancel stack_ok_clear act_ok_clear)

lemma app_inv_dismissToast: "app_inv w \<Longrightarrow> app_inv (dismissToast tid w)"
  by (simp add: dismissToast_def Let_def app_inv_defs stack_ok_filter)

lemma locate_session_Some:
  "locate_session sid es = Some (wid, x) \<Longrightarrow> \<exists>l. (wid, l) \<in> set es \<and> x \<in> set l \<and> sess_id x = sid"
  by (induction sid es rule: locate_session.induct)
     (auto split: option.splits simp: find_Some_iff in_set_conv_nth)

lemma idle_mark_inv:
  assumes "toast_inv s" and "obj_inv s" and "act_ok now (sessionActivity s)"
    and "0 \<le> lastByteAt b" and "lastByteAt b + IDLE_MS \<le> now"
  shows "toast_inv (idle_mark sid b s) \<and> obj_inv (idle_mark sid b s)
    \<and> act_ok now (sessionActivity (idle_mark sid b s))"
proof -
  let ?a = "\<lparr>unread = True, lastOutputAt = lastByteAt b, notifiedAt = lastByteAt b\<rparr>"
  have push: "stack_ok (obj_put sid ?a (sessionActivity s))
      (slice_last MAX_TOASTS (filter (\<lambda>x. toast_sessionId x \<noteq> sid) (toasts s)
         @ [make_toast sid wid title (lastByteAt b)]))" if "wid \<noteq> []" for wid title
    using assms(1,4) that
      stack_ok_push [of "sessionActivity s" "toasts s" "make_toast sid wid title (lastByteAt b)" ?a]
    by (simp add: toast_inv_def toast_ok_def make_toast_def)
  have keep: "stack_ok (obj_put sid ?a (sessionActivity s)) (toasts s)"
    using assms(1) by (auto simp: toast_inv_def stack_ok_def)
  show ?thesis
    using assms push keep
    by (auto simp: idle_mark_def Let_def toast_inv_def obj_inv_def act_ok_put split: option.splits)
qed

lemma app_inv_fire:
  assumes inv: "app_inv w" and due: "timer_lookup (idleQueue w) i = Some (d, sid)" "d \<le> clock w"
  shows "app_inv (fire_idle i w)"
proof -
  have t: "track_inv w" using inv by (simp add: app_inv_def)
  obtain b where b: "busyTrack w sid = Some b" "d = lastByteAt b + IDLE_MS"
    "0 \<le> startedAt b" "startedAt b \<le> lastByteAt b"
    using fire_idle_cases [OF t due(1)] by metis
  have "app_inv (w\<lparr>store := idle_mark sid b (store w)\<rparr>)"
    using idle_mark_inv [of "store w" "clock w" b sid] inv b due(2) by (auto simp: app_inv_defs)
  moreover have "app_inv w \<Longrightarrow> app_inv (cancelIdleTracking sid w)" for w by (rule app_inv_cancel)
  ultimately show ?thesis
    using inv unfolding fire_idle_eq [OF t due(1) b(1)]
    by (auto simp: Let_def app_inv_defs track_inv_cancel)
qed

section \<open>Every update after a reply keeps the invariants\<close>

lemma filter_none: "\<not> list_ex P xs \<Longrightarrow> filter (\<lambda>x. \<not> P x) xs = xs"
  by (auto simp: list_ex_iff intro!: filter_True)

lemma if_list_ex_filter:
  "(if list_ex P xs then filter (\<lambda>x. \<not> P x) xs else xs) = filter (\<lambda>x. \<not> P x) xs"
  by (auto simp: filter_none)

lemma app_inv_store_frame:
  "app_inv w \<Longrightarrow> sessionActivity s = sessionActivity (store w) \<Longrightarrow> toasts s = toasts (store w) \<Longrightarrow>
   obj_wf (sessions s) \<Longrightarrow> obj_wf (activeSessionByWorkspace s) \<Longrightarrow> app_inv (w\<lparr>store := s\<rparr>)"
  by (simp add: app_inv_defs)

lemma app_inv_objs: "app_inv w \<Longrightarrow> obj_wf (sessions (store w)) \<and> obj_wf (activeSessionByWorkspace (store w))"
  by (simp add: app_inv_defs)

lemma app_inv_set_workspaces: "app_inv w \<Longrightarrow> app_inv (set_workspaces wss w)"
  unfolding set_workspaces_def by (rule app_inv_store_frame) (auto dest: app_inv_objs)

lemma app_inv_createWorkspace: "app_inv w \<Longrightarrow> app_inv (createWorkspace_set ws sess w)"
  unfolding createWorkspace_set_def Let_def
  by (rule app_inv_store_frame) (auto dest: app_inv_objs)

lemma app_inv_renameWorkspace: "app_inv w \<Longrightarrow> app_inv (renameWorkspace_set wid ws w)"
  unfolding renameWorkspace_set_def by (rule app_inv_store_frame) (auto dest: app_inv_objs)

lemma app_inv_set_sessions: "app_inv w \<Longrightarrow> app_inv (set_sessions wid l w)"
  unfolding set_sessions_def by (rule app_inv_store_frame) (auto dest: app_inv_objs)

lemma app_inv_pollActive: "app_inv w \<Longrightarrow> app_inv (pollActive_set wid l w)"
  by (simp add: pollActive_set_def app_inv_set_sessions)

lemma app_inv_createSession: "app_inv w \<Longrightarrow> app_inv (createSession_set wid sess w)"
  unfolding createSession_set_def Let_def by (rule app_inv_store_frame) (auto dest: app_inv_objs)

lemma app_inv_renameSession: "app_inv w \<Longrightarrow> app_inv (renameSession_set sid sess w)"
  unfolding renameSession_set_def Let_def
  by (auto intro!: app_inv_store_frame dest: app_inv_objs)

lemma app_inv_deleteSession:
  assumes "app_inv w"
  shows "app_inv (deleteSession_set sid w)"
proof -
  have "stack_ok (obj_del sid (sessionActivity (store w))) (drop_toasts sid (toasts (store w)))"
    and "act_ok (clock w) (obj_del sid (sessionActivity (store w)))"
    using assms stack_ok_delete [of "sessionActivity (store w)" "toasts (store w)" "[sid]"]
      act_ok_del [of "clock w" "sessionActivity (store w)" "[sid]"]
    by (simp_all add: app_inv_defs drop_toasts_filter)
  then show ?thesis
    using assms by (simp add: deleteSession_set_def Let_def app_inv_defs track_inv_cancel)
qed

lemma clock_fold_cancel [simp]: "clock (fold cancelIdleTracking ids w) = clock w"
  by (induction ids arbitrary: w) auto

lemma app_inv_deleteWorkspace:
  assumes "app_inv w"
  shows "app_inv (deleteWorkspace_set wid w)"
proof -
  let ?ids = "map sess_id (session_list (store w) wid)"
  have "stack_ok (fold obj_del ?ids (sessionActivity (store w)))
      (filter (\<lambda>t. toast_sessionId t \<notin> set ?ids) (toasts (store w)))"
    and "act_ok (clock w) (fold obj_del ?ids (sessionActivity (store w)))"
    using assms stack_ok_delete [of "sessionActivity (store w)" "toasts (store w)" ?ids]
      act_ok_del [of "clock w" "sessionActivity (store w)" ?ids]
    by (simp_all add: app_inv_defs)
  moreover have "app_inv (fold cancelIdleTracking ?ids w)"
    using assms by (rule app_inv_fold_cancel)
  ultimately show ?thesis
    unfolding deleteWorkspace_set_def Let_def if_list_ex_filter
    using assms app_inv_objs [OF assms]
    by (simp add: app_inv_defs obj_get_fold_delete_wf)
qed

lemma app_inv_setActiveWorkspace:
  assumes "app_inv w"
  shows "app_inv (setActiveWorkspace_set wid l w)"
proof -
  have "app_inv (cancelIdleTracking sid w)" for sid using assms by (rule app_inv_cancel)
  then show ?thesis
    using assms
    by (simp add: setActiveWorkspace_set_def Let_def app_inv_defs stack_ok_clear act_ok_clear)
qed

lemmas app_inv_ops = app_inv_cancel app_inv_output app_inv_setActiveSession
  app_inv_clearSessionUnread app_inv_dismissToast app_inv_set_workspaces app_inv_createWorkspace
  app_inv_renameWorkspace app_inv_set_sessions app_inv_pollActive app_inv_createSession
  app_inv_renameSession app_inv_deleteSession app_inv_deleteWorkspace app_inv_setActiveWorkspace

end
