(* ===== verification/Http.thy ===== *)
theory Http
  imports JsObject
begin

text \<open>
  The HTTP edge of the front end: JSON values, requests and responses, and the client functions of
  \<open>frontend/src/api\<close>. What the server answers is a parameter: a response, or a failed \<open>fetch\<close>. A thrown
  error or a rejected promise is an \<open>Inl\<close> with the error's message.
\<close>

section \<open>JSON values\<close>

datatype json =
    JNull
  | JBool bool
  | JNum int
  | JStr string
  | JArr "json list"
  | JObj "(string \<times> json) list"

fun json_truthy :: "json \<Rightarrow> bool" where
  "json_truthy JNull = False"
| "json_truthy (JBool b) = b"
| "json_truthy (JNum n) = (n \<noteq> 0)"
| "json_truthy (JStr s) = (s \<noteq> [])"
| "json_truthy (JArr _) = True"
| "json_truthy (JObj _) = True"

text \<open>
  Reading a property: \<open>null\<close> throws a \<open>TypeError\<close>, a value without the property gives \<open>undefined\<close>
  (\<open>None\<close>). The properties this program reads are not among those of strings and arrays.
\<close>

definition TypeError :: string where "TypeError = ''TypeError''"

fun json_field :: "json \<Rightarrow> string \<Rightarrow> string + json option" where
  "json_field JNull k = Inl TypeError"
| "json_field (JObj ob) k = Inr (obj_get ob k)"
| "json_field _ k = Inr None"

definition opt_truthy :: "json option \<Rightarrow> bool" where
  "opt_truthy v = (case v of None \<Rightarrow> False | Some j \<Rightarrow> json_truthy j)"

section \<open>Requests and responses\<close>

datatype http_body = NoBody | JsonBody json | FormFile string

record http_request =
  req_url :: string
  req_method :: string
  req_json_header :: bool
  req_body :: http_body

record http_response =
  res_ok :: bool
  res_status :: int
  res_json :: "string + json"

type_synonym fetch_result = "string + http_response"

definition BASE :: string where "BASE = ''/api/v1''"

text \<open>
  \<open>request\<close>: the request it sends for a path, a method and a body, and what its promise settles with.
  The status of the response is not looked at.
\<close>

definition request_of :: "string \<Rightarrow> string \<Rightarrow> http_body \<Rightarrow> http_request" where
  "request_of path method body =
     \<lparr>req_url = BASE @ path, req_method = method, req_json_header = True, req_body = body\<rparr>"

definition request_result :: "fetch_result \<Rightarrow> string + json" where
  "request_result r = (case r of Inl e \<Rightarrow> Inl e | Inr res \<Rightarrow> res_json res)"

datatype api_call =
    ListWorkspaces
  | CreateWorkspace string
  | UpdateWorkspace string string
  | DeleteWorkspace string
  | ListSessions string
  | CreateSession string "string option"
  | UpdateSession string string
  | DeleteSession string

fun api_request :: "api_call \<Rightarrow> http_request" where
  "api_request ListWorkspaces = request_of ''/workspaces'' ''GET'' NoBody"
| "api_request (CreateWorkspace name) =
     request_of ''/workspaces'' ''POST'' (JsonBody (JObj [(''name'', JStr name)]))"
| "api_request (UpdateWorkspace wid name) =
     request_of (''/workspaces/'' @ wid) ''PATCH'' (JsonBody (JObj [(''name'', JStr name)]))"
| "api_request (DeleteWorkspace wid) = request_of (''/workspaces/'' @ wid) ''DELETE'' NoBody"
| "api_request (ListSessions wid) =
     request_of (''/workspaces/'' @ wid @ ''/sessions'') ''GET'' NoBody"
| "api_request (CreateSession wid title) =
     request_of (''/workspaces/'' @ wid @ ''/sessions'') ''POST''
       (JsonBody (JObj [(''title'', JStr (if truthy title then the title else ''Terminal''))]))"
| "api_request (UpdateSession sid title) =
     request_of (''/sessions/'' @ sid) ''PATCH'' (JsonBody (JObj [(''title'', JStr title)]))"
| "api_request (DeleteSession sid) = request_of (''/sessions/'' @ sid) ''DELETE'' NoBody"

section \<open>Uploads\<close>

definition upload_request :: "string \<Rightarrow> string \<Rightarrow> http_request" where
  "upload_request sid file =
     \<lparr>req_url = ''/api/v1/sessions/'' @ sid @ ''/upload'', req_method = ''POST'',
      req_json_header = False, req_body = FormFile file\<rparr>"

definition upload_detail :: "http_response \<Rightarrow> string" where
  "upload_detail res =
     (let st = num_str (res_status res) in
      case res_json res of
        Inl _ \<Rightarrow> st
      | Inr data \<Rightarrow>
          (if json_truthy data
           then (case json_field data ''error'' of
                   Inr (Some (JStr e)) \<Rightarrow> e @ '' ('' @ st @ '')''
                 | _ \<Rightarrow> st)
           else st))"

definition uploadFile :: "fetch_result \<Rightarrow> string + json" where
  "uploadFile r =
     (case r of
        Inl e \<Rightarrow> Inl e
      | Inr res \<Rightarrow>
          if \<not> res_ok res then Inl (''upload failed: '' @ upload_detail res) else res_json res)"

section \<open>The WebSocket ticket\<close>

definition ticket_request :: http_request where
  "ticket_request = \<lparr>req_url = ''/api/v1/ws-ticket'', req_method = ''POST'',
     req_json_header = False, req_body = NoBody\<rparr>"

fun isWebSocketTicketResponse :: "json \<Rightarrow> string option" where
  "isWebSocketTicketResponse (JObj ob) =
     (case obj_get ob ''ticket'' of Some (JStr t) \<Rightarrow> Some t | _ \<Rightarrow> None)"
| "isWebSocketTicketResponse _ = None"

definition requestWebSocketTicket :: "fetch_result \<Rightarrow> string + string" where
  "requestWebSocketTicket r =
     (case r of
        Inl e \<Rightarrow> Inl e
      | Inr res \<Rightarrow>
          if \<not> res_ok res
          then Inl (''failed to request WebSocket ticket: '' @ num_str (res_status res))
          else (case res_json res of
                  Inl e \<Rightarrow> Inl e
                | Inr data \<Rightarrow>
                    (case isWebSocketTicketResponse data of
                       None \<Rightarrow> Inl ''invalid WebSocket ticket response''
                     | Some t \<Rightarrow> Inr t)))"

section \<open>What the callers get\<close>

lemma requestWebSocketTicket_Inr_iff:
  "requestWebSocketTicket r = Inr t \<longleftrightarrow>
     (\<exists>res ob. r = Inr res \<and> res_ok res \<and> res_json res = Inr (JObj ob)
        \<and> obj_get ob ''ticket'' = Some (JStr t))"
  by (auto simp: requestWebSocketTicket_def split: sum.splits if_splits option.splits json.splits
        elim!: isWebSocketTicketResponse.elims)

lemma uploadFile_Inr_iff:
  "uploadFile r = Inr j \<longleftrightarrow> (\<exists>res. r = Inr res \<and> res_ok res \<and> res_json res = Inr j)"
  by (auto simp: uploadFile_def split: sum.splits if_splits)

lemma request_result_any_status:
  "request_result (Inr (res\<lparr>res_ok := b, res_status := n\<rparr>)) = request_result (Inr res)"
  by (simp add: request_result_def)

end
