(* ===== verification/AppAsync.thy ===== *)
theory AppAsync
  imports AppInv Http
begin

text \<open>
  The asynchronous operations of the store. An \<open>async\<close> function runs up to its first \<open>await\<close>, leaves a
  request with the API client, and goes on when the reply arrives; anything may happen in between. So
  a suspended operation is a value (\<open>await\<close>, what its continuation captured) in the list of open
  calls, and a step of the system is one event: a user action, a reply, a rejection, output of a
  terminal, a timer, the clock, or a change of the page's visibility.
\<close>

section \<open>Suspended operations\<close>

datatype await =
    AwInitList
  | AwInitCreate
  | AwInitLists "workspace list"
  | AwInitSession "workspace list" "session list jsobj" "string jsobj" string
  | AwFetchWorkspaces
  | AwCreateWorkspace
  | AwCreateWorkspaceSession workspace
  | AwDeleteWorkspace string
  | AwRenameWorkspace string
  | AwSetActiveWorkspace string
  | AwFetchSessions string
  | AwPollActive string
  | AwCreateSession string
  | AwDeleteSession string
  | AwRenameSession string

datatype reply =
    RWorkspaces "workspace list"
  | RWorkspace workspace
  | RSessions "session list"
  | RSession session
  | ROk

text \<open>
  The type an API function promises for its result. The server is a parameter: a reply is any value
  of that type.
\<close>

fun reply_fits :: "api_call \<Rightarrow> reply \<Rightarrow> bool" where
  "reply_fits ListWorkspaces (RWorkspaces _) = True"
| "reply_fits (CreateWorkspace _) (RWorkspace _) = True"
| "reply_fits (UpdateWorkspace _ _) (RWorkspace _) = True"
| "reply_fits (DeleteWorkspace _) ROk = True"
| "reply_fits (ListSessions _) (RSessions _) = True"
| "reply_fits (CreateSession _ _) (RSession _) = True"
| "reply_fits (UpdateSession _ _) (RSession _) = True"
| "reply_fits (DeleteSession _) ROk = True"
| "reply_fits _ _ = False"

fun lists_of :: "reply list \<Rightarrow> session list list" where
  "lists_of (RSessions l # rs) = l # lists_of rs"
| "lists_of _ = []"

section \<open>init\<close>

fun init_tables :: "workspace list \<Rightarrow> session list list \<Rightarrow> session list jsobj \<Rightarrow> string jsobj
    \<Rightarrow> session list jsobj \<times> string jsobj" where
  "init_tables (w # ws) (l # ls) S A =
     init_tables ws ls (obj_put (ws_id w) l S)
       (case head_opt l of Some x \<Rightarrow> obj_put (ws_id w) (sess_id x) A | None \<Rightarrow> A)"
| "init_tables _ _ S A = (S, A)"

definition init_set :: "workspace list \<Rightarrow> session list jsobj \<Rightarrow> string jsobj \<Rightarrow> string
    \<Rightarrow> app_world \<Rightarrow> app_world" where
  "init_set wss S A wid w =
     w\<lparr>store := (store w)\<lparr>
         workspaces := wss, sessions := S, activeWorkspaceId := Some wid,
         activeSessionId := obj_get A wid, activeSessionByWorkspace := A, initialized := True\<rparr>\<rparr>"

section \<open>Going on after a reply\<close>

definition with_workspaces :: "reply list \<Rightarrow> (workspace list \<Rightarrow> 'a) \<Rightarrow> 'a \<Rightarrow> 'a" where
  "with_workspaces rs k d = (case rs of [RWorkspaces wss] \<Rightarrow> k wss | _ \<Rightarrow> d)"

definition with_workspace :: "reply list \<Rightarrow> (workspace \<Rightarrow> 'a) \<Rightarrow> 'a \<Rightarrow> 'a" where
  "with_workspace rs k d = (case rs of [RWorkspace ws] \<Rightarrow> k ws | _ \<Rightarrow> d)"

definition with_sessions :: "reply list \<Rightarrow> (session list \<Rightarrow> 'a) \<Rightarrow> 'a \<Rightarrow> 'a" where
  "with_sessions rs k d = (case rs of [RSessions l] \<Rightarrow> k l | _ \<Rightarrow> d)"

definition with_session :: "reply list \<Rightarrow> (session \<Rightarrow> 'a) \<Rightarrow> 'a \<Rightarrow> 'a" where
  "with_session rs k d = (case rs of [RSession x] \<Rightarrow> k x | _ \<Rightarrow> d)"

lemma with_simps [simp]:
  "with_workspaces [RWorkspaces wss] f d = f wss"
  "with_workspace [RWorkspace ws] g d = g ws"
  "with_sessions [RSessions l] h d = h l"
  "with_session [RSession x] k d = k x"
  by (simp_all add: with_workspaces_def with_workspace_def with_sessions_def with_session_def)

definition init_lists :: "workspace list \<Rightarrow> session list list \<Rightarrow> app_world
    \<Rightarrow> app_world \<times> (await \<times> api_call list) option" where
  "init_lists wss ls w =
     (case wss of
        [] \<Rightarrow> (w, None)
      | ws # _ \<Rightarrow>
          let (S, A) = init_tables wss ls [] []; wid = ws_id ws in
          if obj_get S wid = Some []
          then (w, Some (AwInitSession wss S A wid, [CreateSession wid None]))
          else (init_set wss S A wid w, None))"

fun resume :: "await \<Rightarrow> reply list \<Rightarrow> app_world \<Rightarrow> app_world \<times> (await \<times> api_call list) option" where
  "resume AwInitList rs w = with_workspaces rs
     (\<lambda>wss. if wss = [] then (w, Some (AwInitCreate, [CreateWorkspace ''Default'']))
            else (w, Some (AwInitLists wss, map (\<lambda>x. ListSessions (ws_id x)) wss))) (w, None)"
| "resume AwInitCreate rs w = with_workspace rs
     (\<lambda>ws. (w, Some (AwInitLists [ws], [ListSessions (ws_id ws)]))) (w, None)"
| "resume (AwInitLists wss) rs w = init_lists wss (lists_of rs) w"
| "resume (AwInitSession wss S A wid) rs w = with_session rs
     (\<lambda>x. (init_set wss (obj_put wid [x] S) (obj_put wid (sess_id x) A) wid w, None)) (w, None)"
| "resume AwFetchWorkspaces rs w = with_workspaces rs (\<lambda>wss. (set_workspaces wss w, None)) (w, None)"
| "resume AwCreateWorkspace rs w = with_workspace rs
     (\<lambda>ws. (w, Some (AwCreateWorkspaceSession ws, [CreateSession (ws_id ws) None]))) (w, None)"
| "resume (AwCreateWorkspaceSession ws) rs w = with_session rs
     (\<lambda>x. (createWorkspace_set ws x w, None)) (w, None)"
| "resume (AwDeleteWorkspace wid) rs w = (deleteWorkspace_set wid w, None)"
| "resume (AwRenameWorkspace wid) rs w = with_workspace rs
     (\<lambda>ws. (renameWorkspace_set wid ws w, None)) (w, None)"
| "resume (AwSetActiveWorkspace wid) rs w = with_sessions rs
     (\<lambda>l. (setActiveWorkspace_set wid l w, None)) (w, None)"
| "resume (AwFetchSessions wid) rs w = with_sessions rs (\<lambda>l. (set_sessions wid l w, None)) (w, None)"
| "resume (AwPollActive wid) rs w = with_sessions rs (\<lambda>l. (pollActive_set wid l w, None)) (w, None)"
| "resume (AwCreateSession wid) rs w = with_session rs
     (\<lambda>x. (createSession_set wid x w, None)) (w, None)"
| "resume (AwDeleteSession sid) rs w = (deleteSession_set sid w, None)"
| "resume (AwRenameSession sid) rs w = with_session rs
     (\<lambda>x. (renameSession_set sid x w, None)) (w, None)"

section \<open>The system\<close>

text \<open>What a caller does when the operation it awaits has finished: the click on a toast.\<close>

datatype follow = ThenSelect string | ThenDismiss string

fun run_follow :: "follow \<Rightarrow> app_world \<Rightarrow> app_world" where
  "run_follow (ThenSelect sid) w = setActiveSession sid w"
| "run_follow (ThenDismiss tid) w = dismissToast tid w"

record app_sys =
  world :: app_world
  calls :: "(nat \<times> await \<times> api_call list \<times> follow list) list"
  next_call :: nat

definition issue :: "await \<Rightarrow> api_call list \<Rightarrow> follow list \<Rightarrow> app_sys \<Rightarrow> app_sys" where
  "issue aw cs fs y =
     y\<lparr>calls := calls y @ [(next_call y, aw, cs, fs)], next_call := Suc (next_call y)\<rparr>"

definition drop_call :: "nat \<Rightarrow> app_sys \<Rightarrow> app_sys" where
  "drop_call n y = y\<lparr>calls := filter (\<lambda>c. fst c \<noteq> n) (calls y)\<rparr>"

definition find_call :: "nat \<Rightarrow> app_sys \<Rightarrow> (await \<times> api_call list \<times> follow list) option" where
  "find_call n y = map_of (calls y) n"

definition on_world :: "(app_world \<Rightarrow> app_world) \<Rightarrow> app_sys \<Rightarrow> app_sys" where
  "on_world f y = y\<lparr>world := f (world y)\<rparr>"

definition deliver :: "nat \<Rightarrow> reply list \<Rightarrow> app_sys \<Rightarrow> app_sys" where
  "deliver n rs y =
     (case find_call n y of
        None \<Rightarrow> y
      | Some (aw, cs, fs) \<Rightarrow>
          let (w, k) = resume aw rs (world y); y1 = (drop_call n y)\<lparr>world := w\<rparr> in
          case k of
            None \<Rightarrow> y1\<lparr>world := fold run_follow fs w\<rparr>
          | Some (aw', cs') \<Rightarrow> issue aw' cs' fs y1)"

datatype action =
    Init
  | FetchWorkspaces
  | DoCreateWorkspace string
  | DoDeleteWorkspace string
  | DoRenameWorkspace string string
  | SetActiveWorkspace string
  | FetchSessions string
  | PollActive
  | DoCreateSession string "string option"
  | DoDeleteSession string
  | DoRenameSession string string
  | ToastClick toast "string option"

definition switch_workspace :: "string \<Rightarrow> follow list \<Rightarrow> app_sys \<Rightarrow> app_sys" where
  "switch_workspace wid fs y =
     (case obj_get (sessions (store (world y))) wid of
        Some l \<Rightarrow> y\<lparr>world := fold run_follow fs (setActiveWorkspace_set wid l (world y))\<rparr>
      | None \<Rightarrow> issue (AwSetActiveWorkspace wid) [ListSessions wid] fs y)"

definition pollActive :: "app_sys \<Rightarrow> app_sys" where
  "pollActive y =
     (let wid = activeWorkspaceId (store (world y)) in
      if \<not> truthy wid then y
      else issue (AwPollActive (the wid)) [ListSessions (the wid)] [] y)"

text \<open>
  The click handler of a toast compares the toast's workspace with the active workspace the
  container was rendered with.
\<close>

definition toastClick :: "toast \<Rightarrow> string option \<Rightarrow> app_sys \<Rightarrow> app_sys" where
  "toastClick t shownWid y =
     (let fs = [ThenSelect (toast_sessionId t), ThenDismiss (toast_id t)] in
      if Some (toast_workspaceId t) \<noteq> shownWid then switch_workspace (toast_workspaceId t) fs y
      else on_world (fold run_follow fs) y)"

fun perform :: "action \<Rightarrow> app_sys \<Rightarrow> app_sys" where
  "perform Init y = issue AwInitList [ListWorkspaces] [] y"
| "perform FetchWorkspaces y = issue AwFetchWorkspaces [ListWorkspaces] [] y"
| "perform (DoCreateWorkspace name) y = issue AwCreateWorkspace [CreateWorkspace name] [] y"
| "perform (DoDeleteWorkspace wid) y = issue (AwDeleteWorkspace wid) [DeleteWorkspace wid] [] y"
| "perform (DoRenameWorkspace wid name) y =
     issue (AwRenameWorkspace wid) [UpdateWorkspace wid name] [] y"
| "perform (SetActiveWorkspace wid) y = switch_workspace wid [] y"
| "perform (FetchSessions wid) y = issue (AwFetchSessions wid) [ListSessions wid] [] y"
| "perform PollActive y = pollActive y"
| "perform (DoCreateSession wid title) y = issue (AwCreateSession wid) [CreateSession wid title] [] y"
| "perform (DoDeleteSession sid) y = issue (AwDeleteSession sid) [DeleteSession sid] [] y"
| "perform (DoRenameSession sid title) y =
     issue (AwRenameSession sid) [UpdateSession sid title] [] y"
| "perform (ToastClick t shownWid) y = toastClick t shownWid y"

text \<open>The page's visibility listener and the 5 second poll of \<open>App.tsx\<close>.\<close>

definition onVisibility :: "bool \<Rightarrow> app_world \<Rightarrow> app_world" where
  "onVisibility v w0 =
     (let w = w0\<lparr>docVisible := v\<rparr>; a = activeSessionId (store w) in
      if \<not> v then w
      else if truthy a then clearSessionUnread (the a) w else w)"

definition pollTick :: "app_sys \<Rightarrow> app_sys" where
  "pollTick y = (if docVisible (world y) then pollActive y else y)"

datatype app_event =
    Act action
  | Reply nat "reply list"
  | Reject nat
  | Output string
  | FireIdle nat
  | Tick int
  | Visibility bool
  | PollTick
  | Select string
  | ClearUnread string
  | Dismiss string

inductive app_step :: "app_sys \<Rightarrow> app_event \<Rightarrow> app_sys \<Rightarrow> bool" where
  step_act: "app_step y (Act a) (perform a y)"
| step_reply: "find_call n y = Some (aw, cs, fs) \<Longrightarrow> list_all2 reply_fits cs rs \<Longrightarrow>
     app_step y (Reply n rs) (deliver n rs y)"
| step_reject: "find_call n y = Some c \<Longrightarrow> app_step y (Reject n) (drop_call n y)"
| step_output: "app_step y (Output sid) (on_world (markSessionOutput sid) y)"
| step_fire: "timer_lookup (idleQueue (world y)) i = Some (d, sid) \<Longrightarrow> d \<le> clock (world y) \<Longrightarrow>
     app_step y (FireIdle i) (on_world (fire_idle i) y)"
| step_tick: "0 \<le> d \<Longrightarrow> app_step y (Tick d) (on_world (\<lambda>w. w\<lparr>clock := clock w + d\<rparr>) y)"
| step_visibility: "app_step y (Visibility v) (on_world (onVisibility v) y)"
| step_poll: "app_step y PollTick (pollTick y)"
| step_select: "app_step y (Select sid) (on_world (setActiveSession sid) y)"
| step_clear: "app_step y (ClearUnread sid) (on_world (clearSessionUnread sid) y)"
| step_dismiss: "app_step y (Dismiss tid) (on_world (dismissToast tid) y)"

inductive_cases app_step_elims: "app_step y e y'"
inductive_simps app_step_simps: "app_step y (Act a) y'" "app_step y (Reply n rs) y'"
  "app_step y (Reject n) y'" "app_step y (Output sid) y'" "app_step y (FireIdle i) y'"
  "app_step y (Tick d) y'" "app_step y (Visibility v) y'" "app_step y PollTick y'"
  "app_step y (Select sid) y'" "app_step y (ClearUnread sid) y'" "app_step y (Dismiss tid) y'"

definition app_start :: "app_sys \<Rightarrow> bool" where
  "app_start y \<longleftrightarrow> store (world y) = initial_state \<and> busyTrack (world y) = Map.empty
     \<and> idleTimers (world y) = Map.empty \<and> idleQueue (world y) = no_timers
     \<and> 0 \<le> clock (world y) \<and> calls y = [] \<and> next_call y = 0"

end
