(* ===== verification/AppReach.thy ===== *)
theory AppReach
  imports AppAsync
begin

text \<open>
  What holds in every state the application can reach, under any interleaving of user actions,
  replies, output, timers and visibility changes: the invariants of \<open>AppInv\<close> lift to the system. The
  second half factors a step of the system into updates of the store, and follows the unread flag of
  one session through them.
\<close>

section \<open>The invariants hold in every reachable state\<close>

lemma world_simps [simp]:
  "world (issue aw cs fs y) = world y"
  "world (drop_call n y) = world y"
  "world (on_world f y) = f (world y)"
  by (simp_all add: issue_def drop_call_def on_world_def)

lemma app_inv_init_tables:
  "init_tables ws ls S A = (S', A') \<Longrightarrow> obj_wf S \<Longrightarrow> obj_wf A \<Longrightarrow> obj_wf S' \<and> obj_wf A'"
  by (induction ws ls S A arbitrary: S' A' rule: init_tables.induct) (auto split: option.splits)

lemma app_inv_init_set:
  "app_inv w \<Longrightarrow> obj_wf S \<Longrightarrow> obj_wf A \<Longrightarrow> app_inv (init_set wss S A wid w)"
  unfolding init_set_def by (rule app_inv_store_frame) auto

text \<open>
  The tables an \<open>init\<close> in progress carries are built by \<open>init_tables\<close>, so they are well-formed.
\<close>

fun await_ok :: "await \<Rightarrow> bool" where
  "await_ok (AwInitSession wss S A wid) \<longleftrightarrow> obj_wf S \<and> obj_wf A"
| "await_ok _ \<longleftrightarrow> True"

lemma with_cases:
  "P (with_workspaces rs f d) \<longleftrightarrow> (\<forall>x. rs = [RWorkspaces x] \<longrightarrow> P (f x)) \<and> ((\<nexists>x. rs = [RWorkspaces x]) \<longrightarrow> P d)"
  "P (with_workspace rs g d) \<longleftrightarrow> (\<forall>x. rs = [RWorkspace x] \<longrightarrow> P (g x)) \<and> ((\<nexists>x. rs = [RWorkspace x]) \<longrightarrow> P d)"
  "P (with_sessions rs h d) \<longleftrightarrow> (\<forall>x. rs = [RSessions x] \<longrightarrow> P (h x)) \<and> ((\<nexists>x. rs = [RSessions x]) \<longrightarrow> P d)"
  "P (with_session rs k d) \<longleftrightarrow> (\<forall>x. rs = [RSession x] \<longrightarrow> P (k x)) \<and> ((\<nexists>x. rs = [RSession x]) \<longrightarrow> P d)"
  by (auto simp: with_workspaces_def with_workspace_def with_sessions_def with_session_def
      split: list.splits reply.splits)

definition goes_ok :: "app_world \<times> (await \<times> api_call list) option \<Rightarrow> bool" where
  "goes_ok p \<longleftrightarrow> app_inv (fst p) \<and> (\<forall>aw cs. snd p = Some (aw, cs) \<longrightarrow> await_ok aw)"

lemma goes_ok_simps [simp]:
  "goes_ok (w, None) \<longleftrightarrow> app_inv w"
  "goes_ok (w, Some (aw, cs)) \<longleftrightarrow> app_inv w \<and> await_ok aw"
  by (simp_all add: goes_ok_def)

lemma init_lists_ok: "app_inv w \<Longrightarrow> goes_ok (init_lists wss ls w)"
  using app_inv_init_tables [of wss ls "[]" "[]"]
  by (auto simp: init_lists_def Let_def app_inv_init_set split: list.splits prod.splits)

lemma resume_ok: "await_ok aw \<Longrightarrow> app_inv w \<Longrightarrow> goes_ok (resume aw rs w)"
  by (cases aw) (simp_all add: with_cases [of goes_ok] app_inv_ops app_inv_init_set init_lists_ok)

lemma app_inv_follow: "app_inv w \<Longrightarrow> app_inv (fold run_follow fs w)"
proof (induction fs arbitrary: w)
  case (Cons f fs)
  then show ?case by (cases f) (auto intro: app_inv_ops)
qed simp

definition calls_ok :: "app_sys \<Rightarrow> bool" where
  "calls_ok y \<longleftrightarrow> (\<forall>(n, aw, cs, fs) \<in> set (calls y). await_ok aw)"

definition sys_inv :: "app_sys \<Rightarrow> bool" where
  "sys_inv y \<longleftrightarrow> app_inv (world y) \<and> calls_ok y"

lemma calls_ok_issue [simp]: "calls_ok (issue aw cs fs y) \<longleftrightarrow> await_ok aw \<and> calls_ok y"
  by (auto simp: calls_ok_def issue_def)

lemma calls_ok_drop: "calls_ok y \<Longrightarrow> calls_ok (drop_call n y)"
  by (auto simp: calls_ok_def drop_call_def)

lemma calls_ok_world [simp]: "calls_ok (y\<lparr>world := w\<rparr>) = calls_ok y" "calls_ok (on_world f y) = calls_ok y"
  by (simp_all add: calls_ok_def on_world_def)

lemma sys_inv_on_world: "sys_inv y \<Longrightarrow> (\<And>w. app_inv w \<Longrightarrow> app_inv (f w)) \<Longrightarrow> sys_inv (on_world f y)"
  by (simp add: sys_inv_def)

lemma sys_inv_issue: "sys_inv y \<Longrightarrow> await_ok aw \<Longrightarrow> sys_inv (issue aw cs fs y)"
  by (simp add: sys_inv_def)

lemma sys_inv_switch: "sys_inv y \<Longrightarrow> sys_inv (switch_workspace wid fs y)"
  by (auto simp: switch_workspace_def sys_inv_def
      intro!: app_inv_follow app_inv_setActiveWorkspace split: option.splits)

lemma sys_inv_poll: "sys_inv y \<Longrightarrow> sys_inv (pollActive y)"
  by (simp add: pollActive_def Let_def sys_inv_issue)

lemma sys_inv_toastClick: "sys_inv y \<Longrightarrow> sys_inv (toastClick t shown y)"
  by (auto simp: toastClick_def Let_def intro!: sys_inv_switch sys_inv_on_world
      app_inv_dismissToast app_inv_setActiveSession)

lemma sys_inv_perform: "sys_inv y \<Longrightarrow> sys_inv (perform a y)"
  by (cases a) (simp_all add: sys_inv_issue sys_inv_switch sys_inv_poll sys_inv_toastClick)

lemma find_call_in: "find_call n y = Some (aw, cs, fs) \<Longrightarrow> (n, aw, cs, fs) \<in> set (calls y)"
  by (auto simp: find_call_def dest: map_of_SomeD)

lemma sys_inv_deliver: "sys_inv y \<Longrightarrow> sys_inv (deliver n rs y)"
proof (cases "find_call n y")
  case None
  then show "sys_inv y \<Longrightarrow> ?thesis" by (simp add: deliver_def)
next
  case (Some c)
  assume inv: "sys_inv y"
  obtain aw cs fs where c: "c = (aw, cs, fs)" by (cases c)
  with Some inv have aw: "await_ok aw"
    by (fastforce simp: sys_inv_def calls_ok_def dest: find_call_in)
  obtain w k where wk: "resume aw rs (world y) = (w, k)" by fastforce
  with aw inv have "goes_ok (w, k)" using resume_ok [of aw "world y" rs] by (simp add: sys_inv_def)
  then show ?thesis
    using inv Some c wk
    by (cases k) (auto simp: deliver_def Let_def sys_inv_def calls_ok_drop goes_ok_def app_inv_follow)
qed

lemma app_inv_clock: "app_inv w \<Longrightarrow> 0 \<le> d \<Longrightarrow> app_inv (w\<lparr>clock := clock w + d\<rparr>)"
  using track_inv_clock [of w "clock w + d"] act_ok_mono [of "clock w" _ "clock w + d"]
  by (simp add: app_inv_defs)

lemma app_inv_visibility: "app_inv w \<Longrightarrow> app_inv (onVisibility v w)"
proof -
  assume "app_inv w"
  then have v: "app_inv (w\<lparr>docVisible := v\<rparr>)" for v by (simp add: app_inv_defs)
  then show ?thesis by (auto simp: onVisibility_def Let_def intro: app_inv_clearSessionUnread)
qed

lemma sys_inv_step:
  assumes "sys_inv y" and "app_step y e y'"
  shows "sys_inv y'"
  using assms(2,1)
proof (cases rule: app_step.cases)
  case (step_reject n c)
  then show ?thesis using assms(1) by (simp add: sys_inv_def calls_ok_drop)
next
  case (step_fire i d sid)
  then show ?thesis using assms(1) by (auto simp: sys_inv_def intro: app_inv_fire)
qed (use assms(1) in \<open>auto intro!: sys_inv_perform sys_inv_deliver sys_inv_on_world sys_inv_poll
      intro: app_inv_ops app_inv_clock app_inv_visibility simp: pollTick_def\<close>)

lemma sys_inv_start: "app_start y \<Longrightarrow> sys_inv y"
  by (auto simp: app_start_def sys_inv_def calls_ok_def app_inv_defs initial_state_def track_inv_def
      stack_ok_def act_ok_def exclusive_def backed_def)

interpretation app: invariant_machine app_start app_step sys_inv
  by unfold_locales (rule sys_inv_start sys_inv_step; assumption)+

section \<open>The events as a function\<close>

fun enabled :: "app_event \<Rightarrow> app_sys \<Rightarrow> bool" where
  "enabled (Reply n rs) y =
     (case find_call n y of None \<Rightarrow> False | Some (aw, cs, fs) \<Rightarrow> list_all2 reply_fits cs rs)"
| "enabled (Reject n) y = (find_call n y \<noteq> None)"
| "enabled (FireIdle i) y =
     (case timer_lookup (idleQueue (world y)) i of None \<Rightarrow> False | Some (d, sid) \<Rightarrow> d \<le> clock (world y))"
| "enabled (Tick d) y = (0 \<le> d)"
| "enabled _ y = True"

fun exec_event :: "app_event \<Rightarrow> app_sys \<Rightarrow> app_sys" where
  "exec_event (Act a) y = perform a y"
| "exec_event (Reply n rs) y = deliver n rs y"
| "exec_event (Reject n) y = drop_call n y"
| "exec_event (Output sid) y = on_world (markSessionOutput sid) y"
| "exec_event (FireIdle i) y = on_world (fire_idle i) y"
| "exec_event (Tick d) y = on_world (\<lambda>w. w\<lparr>clock := clock w + d\<rparr>) y"
| "exec_event (Visibility v) y = on_world (onVisibility v) y"
| "exec_event PollTick y = pollTick y"
| "exec_event (Select sid) y = on_world (setActiveSession sid) y"
| "exec_event (ClearUnread sid) y = on_world (clearSessionUnread sid) y"
| "exec_event (Dismiss tid) y = on_world (dismissToast tid) y"

lemma app_step_iff: "app_step y e y' \<longleftrightarrow> enabled e y \<and> y' = exec_event e y"
  by (cases e) (auto simp: app_step_simps split: option.splits)

fun run_events :: "app_event list \<Rightarrow> app_sys \<Rightarrow> app_sys option" where
  "run_events [] y = Some y"
| "run_events (e # es) y = (if enabled e y then run_events es (exec_event e y) else None)"

lemma run_events_iff: "run_events es y = Some y' \<longleftrightarrow> run_path app_step y es y'"
  by (induction es arbitrary: y) (auto simp: run_path_Cons app_step_iff)

lemma run_events_reach:
  "app_start y \<Longrightarrow> run_events es y = Some y' \<Longrightarrow> reach app_start app_step y'"
  by (auto simp: run_events_iff intro: run_path_reach reach_start)

section \<open>A step as updates of the store\<close>

definition same_alerts :: "app_world \<Rightarrow> app_world \<Rightarrow> bool" where
  "same_alerts w w' \<longleftrightarrow>
     sessionActivity (store w') = sessionActivity (store w) \<and> toasts (store w') = toasts (store w)
     \<and> busyTrack w' = busyTrack w \<and> idleTimers w' = idleTimers w \<and> idleQueue w' = idleQueue w
     \<and> clock w' = clock w"

inductive world_op :: "app_world \<Rightarrow> app_world \<Rightarrow> bool" where
  op_same: "same_alerts w w' \<Longrightarrow> world_op w w'"
| op_view: "world_op w (setActiveSession sid w)"
| op_clear: "world_op w (clearSessionUnread sid w)"
| op_dismiss: "world_op w (dismissToast tid w)"
| op_switch: "world_op w (setActiveWorkspace_set wid l w)"
| op_delete_workspace: "world_op w (deleteWorkspace_set wid w)"
| op_delete_session: "world_op w (deleteSession_set sid w)"

abbreviation world_ops :: "app_world \<Rightarrow> app_world \<Rightarrow> bool" where
  "world_ops \<equiv> rtranclp world_op"

lemma same_alerts_refl [simp, intro]: "same_alerts w w"
  by (simp add: same_alerts_def)

lemma same_alerts_sets [intro]:
  "same_alerts w (set_workspaces wss w)"
  "same_alerts w (createWorkspace_set ws x w)"
  "same_alerts w (renameWorkspace_set wid ws w)"
  "same_alerts w (set_sessions wid l w)"
  "same_alerts w (pollActive_set wid l w)"
  "same_alerts w (createSession_set wid x w)"
  "same_alerts w (renameSession_set sid x w)"
  "same_alerts w (init_set wss S A wid w)"
  by (simp_all add: same_alerts_def set_workspaces_def createWorkspace_set_def renameWorkspace_set_def
      set_sessions_def pollActive_set_def createSession_set_def renameSession_set_def init_set_def Let_def)

lemma world_ops_same [intro]: "same_alerts w w' \<Longrightarrow> world_ops w w'"
  by (auto intro: world_op.intros)

lemma world_ops_follow: "world_ops w (fold run_follow fs w)"
proof (induction fs arbitrary: w)
  case (Cons f fs)
  have "world_op w (run_follow f w)"
    by (cases f) (auto intro: world_op.intros)
  with Cons show ?case by (auto intro: converse_rtranclp_into_rtranclp)
qed simp

lemma init_lists_same: "same_alerts w (fst (init_lists wss ls w))"
  by (auto simp: init_lists_def Let_def split: list.splits prod.splits)

lemma resume_ops: "world_ops w (fst (resume aw rs w))"
  by (cases aw)
    (auto simp: with_cases [of "\<lambda>p. world_ops w (fst p)"] intro: init_lists_same world_op.intros)

lemma world_ops_switch: "world_ops (world y) (world (switch_workspace wid fs y))"
  by (auto simp: switch_workspace_def split: option.splits
      intro: converse_rtranclp_into_rtranclp [OF op_switch world_ops_follow])

lemma world_pollActive [simp]: "world (pollActive y) = world y"
  by (simp add: pollActive_def Let_def)

lemma world_ops_perform: "world_ops (world y) (world (perform a y))"
  by (cases a) (auto simp: toastClick_def Let_def intro: world_ops_switch world_ops_follow
      world_op.intros rtranclp.rtrancl_into_rtrancl)

lemma world_ops_deliver: "world_ops (world y) (world (deliver n rs y))"
proof (cases "find_call n y")
  case None
  then show ?thesis by (simp add: deliver_def)
next
  case (Some c)
  obtain aw cs fs where c: "c = (aw, cs, fs)" by (cases c)
  obtain w k where wk: "resume aw rs (world y) = (w, k)" by fastforce
  then have w: "world_ops (world y) w" using resume_ops [of "world y" aw rs] by simp
  have "world_ops (world y) (fold run_follow fs w)"
    using w world_ops_follow by (rule rtranclp_trans)
  with w Some c wk show ?thesis by (cases k) (auto simp: deliver_def Let_def)
qed

lemma step_world:
  assumes "app_step y e y'"
  shows "case e of
      Output sid \<Rightarrow> world y' = markSessionOutput sid (world y)
    | FireIdle i \<Rightarrow> world y' = fire_idle i (world y)
    | Tick d \<Rightarrow> 0 \<le> d \<and> world y' = (world y)\<lparr>clock := clock (world y) + d\<rparr>
    | Visibility v \<Rightarrow> world y' = onVisibility v (world y)
    | _ \<Rightarrow> world_ops (world y) (world y')"
  using assms world_ops_perform world_ops_deliver
  by (cases e) (auto simp: app_step_iff pollTick_def intro: world_op.intros)

section \<open>The unread flag of one session\<close>

definition unread_at :: "app_world \<Rightarrow> string \<Rightarrow> bool" where
  "unread_at w sid = sessionUnread (store w) sid"

lemma unread_at_alt: "unread_at w sid = unread_in (sessionActivity (store w)) sid"
  by (simp add: unread_at_def sessionUnread_alt)

lemma world_op_unread: "world_op w w' \<Longrightarrow> unread_at w' sid \<Longrightarrow> unread_at w sid"
  by (induction rule: world_op.induct)
     (auto simp: unread_at_alt same_alerts_def setActiveSession_def clearSessionUnread_def
        dismissToast_def setActiveWorkspace_set_def deleteWorkspace_set_def deleteSession_set_def Let_def
        split: if_splits)

lemma world_ops_unread: "world_ops w w' \<Longrightarrow> unread_at w' sid \<Longrightarrow> unread_at w sid"
  by (induction rule: rtranclp_induct) (auto dest: world_op_unread)

lemma unread_visibility: "unread_at (onVisibility v w) sid \<Longrightarrow> unread_at w sid"
  by (auto simp: unread_at_alt onVisibility_def clearSessionUnread_def Let_def split: if_splits)

lemma unread_idle_mark: "sessionUnread (idle_mark k b s) sid \<longleftrightarrow> sid = k \<or> sessionUnread s sid"
  by (auto simp: idle_mark_def sessionUnread_alt Let_def split: option.splits)

lemma unread_step:
  assumes "sys_inv y" and "app_step y e y'"
    and "\<not> unread_at (world y) sid" and "unread_at (world y') sid"
  obtains i b where "e = FireIdle i" and "busyTrack (world y) sid = Some b"
    and "MIN_BUSY_MS \<le> lastByteAt b - startedAt b"
    and "lastByteAt b + IDLE_MS \<le> clock (world y)"
    and "activeSessionId (store (world y)) \<noteq> Some sid \<or> \<not> docVisible (world y)"
proof -
  have tr: "track_inv (world y)" using assms(1) by (simp add: sys_inv_def app_inv_def)
  obtain i where e: "e = FireIdle i"
    using step_world [OF assms(2)] assms(3,4) world_ops_unread unread_visibility
    by (cases e) (auto simp: unread_at_def)
  with assms(2) obtain d k where k: "timer_lookup (idleQueue (world y)) i = Some (d, k)"
    "d \<le> clock (world y)" by (auto simp: app_step_simps)
  obtain b where b: "busyTrack (world y) k = Some b" "d = lastByteAt b + IDLE_MS"
    using fire_idle_cases [OF tr k(1)] by metis
  have "world y' = fire_idle i (world y)" using step_world [OF assms(2)] e by simp
  then show ?thesis
    using assms(3,4) e b k that [OF e]
    by (auto simp: fire_idle_eq [OF tr k(1) b(1)] Let_def unread_at_def unread_idle_mark
        split: if_splits)
qed

section \<open>A session that was looked at stays calm until its next output\<close>

definition calm :: "string \<Rightarrow> app_world \<Rightarrow> bool" where
  "calm sid w \<longleftrightarrow> untracked sid w \<and> \<not> unread_at w sid"

lemma untracked_cancel: "untracked sid w \<Longrightarrow> untracked sid (cancelIdleTracking k w)"
  by (auto simp: untracked_def cancelIdleTracking_def map_defs)

lemma untracked_fold_cancel: "untracked sid w \<Longrightarrow> untracked sid (fold cancelIdleTracking ks w)"
  by (induction ks arbitrary: w) (auto intro: untracked_cancel)

lemma untracked_store [simp]: "untracked sid (w\<lparr>store := s\<rparr>) = untracked sid w"
  by (simp add: untracked_def)

lemma untracked_op: "world_op w w' \<Longrightarrow> untracked sid w \<Longrightarrow> untracked sid w'"
  by (induction rule: world_op.induct)
     (auto simp: same_alerts_def setActiveSession_def clearSessionUnread_def
        dismissToast_def setActiveWorkspace_set_def deleteWorkspace_set_def deleteSession_set_def Let_def
        untracked_def [of sid w'] intro: untracked_cancel untracked_fold_cancel,
      simp add: untracked_def)

lemma calm_ops: "world_ops w w' \<Longrightarrow> calm sid w \<Longrightarrow> calm sid w'"
  by (induction rule: rtranclp_induct) (auto simp: calm_def dest: untracked_op world_op_unread)

lemma untracked_output:
  assumes "timers_wf (idleQueue w)" and "untracked sid w" and "k \<noteq> sid"
  shows "untracked sid (markSessionOutput k w)"
proof (cases "activeSessionId (store w) = Some k \<and> docVisible w")
  case True
  with assms(2) show ?thesis by (simp add: markSessionOutput_def untracked_cancel)
next
  case False
  with assms show ?thesis by (auto simp: markSessionOutput_bg untracked_def tmr.look_arm)
qed

lemma calm_fire:
  assumes "track_inv w" and "calm sid w"
  shows "calm sid (fire_idle i w)"
proof (cases "timer_lookup (idleQueue w) i")
  case None
  with assms(2) show ?thesis by (simp add: fire_idle_def)
next
  case (Some p)
  obtain d k where p: "p = (d, k)" by (cases p)
  with Some assms(2) have k: "k \<noteq> sid" by (auto simp: calm_def untracked_def)
  obtain b where b: "busyTrack w k = Some b"
    using fire_idle_cases [OF assms(1)] Some p by metis
  show ?thesis
    using assms k
    unfolding fire_idle_eq [OF assms(1) Some [unfolded p] b]
    by (auto simp: Let_def calm_def unread_at_def unread_idle_mark untracked_cancel)
qed

lemma calm_clear_other: "calm sid w \<Longrightarrow> calm sid (clearSessionUnread k w)"
  by (rule calm_ops) (auto intro: world_op.intros)

lemma calm_step:
  assumes inv: "sys_inv y" and step: "app_step y e y'" and calm: "calm sid (world y)"
    and e: "e \<noteq> Output sid"
  shows "calm sid (world y')"
proof -
  have tr: "track_inv (world y)" using inv by (simp add: sys_inv_def app_inv_def)
  have vis: "calm sid (w\<lparr>docVisible := v\<rparr>)" if "calm sid w" for w v
    using that by (simp add: calm_def untracked_def unread_at_def)
  have clk: "calm sid (w\<lparr>clock := t\<rparr>)" if "calm sid w" for w t
    using that by (simp add: calm_def untracked_def unread_at_def)
  show ?thesis
  proof (cases e)
    case (Output k)
    with e step_world [OF step] calm tr show ?thesis
      by (auto simp: calm_def unread_at_def track_inv_def intro: untracked_output)
  next
    case (FireIdle i)
    with step_world [OF step] calm tr show ?thesis by (simp add: calm_fire)
  next
    case (Visibility v)
    with step_world [OF step] calm show ?thesis
      by (auto simp: onVisibility_def Let_def vis intro: calm_clear_other)
  qed (use step_world [OF step] calm in \<open>auto simp: clk intro: calm_ops\<close>)
qed

lemma calm_run:
  assumes "run_path app_step y es y'" and "sys_inv y" and "calm sid (world y)"
    and "Output sid \<notin> set es"
  shows "calm sid (world y')"
  using assms
proof (induction rule: run_path.induct)
  case (run_cons y e t es u)
  then have "calm sid (world t)" and "sys_inv t"
    by (auto intro: calm_step sys_inv_step)
  with run_cons show ?case by simp
qed

lemma calm_select: "track_inv w \<Longrightarrow> calm sid (setActiveSession sid w)"
  by (simp add: calm_def setActiveSession_def Let_def cancel_untracked unread_at_alt)

lemma not_unread_case:
  "(case obj_get act sid of None \<Rightarrow> True | Some a \<Rightarrow> \<not> unread a) \<longleftrightarrow> \<not> unread_in act sid"
  by (simp add: unread_in_def split: option.splits)

lemma calm_clear: "track_inv w \<Longrightarrow> calm sid (clearSessionUnread sid w)"
  by (auto simp: calm_def clearSessionUnread_def Let_def cancel_untracked unread_at_alt not_unread_case)

lemma calm_delete_session:
  "track_inv w \<Longrightarrow> truthy (activeWorkspaceId (store w)) \<Longrightarrow> calm sid (deleteSession_set sid w)"
  by (simp add: calm_def deleteSession_set_def Let_def cancel_untracked unread_at_alt)

lemma calm_switch:
  assumes "track_inv w" and "activeSessionId (store (setActiveWorkspace_set wid l w)) = Some sid"
    and "sid \<noteq> []"
  shows "calm sid (setActiveWorkspace_set wid l w)"
  using assms
  by (simp add: calm_def setActiveWorkspace_set_def Let_def cancel_untracked unread_at_alt)

end
