(* ===== verification/AppAlerts.thy ===== *)
theory AppAlerts
  imports AppReach
begin

text \<open>
  The notification behaviour of the store: when a session becomes unread, what cancels a pending
  alert, and what the toast stack looks like, over whole runs of the system.
\<close>

section \<open>Bursts of output\<close>

definition background :: "string \<Rightarrow> app_world \<Rightarrow> bool" where
  "background sid w \<longleftrightarrow> \<not> (activeSessionId (store w) = Some sid \<and> docVisible w)"

fun outputs_after :: "string \<Rightarrow> int list \<Rightarrow> app_event list" where
  "outputs_after sid [] = []"
| "outputs_after sid (g # gs) = Tick g # Output sid # outputs_after sid gs"

lemma output_bg:
  assumes "background sid w"
  shows "busyTrack (markSessionOutput sid w) sid = Some \<lparr>startedAt =
      (case busyTrack w sid of Some b \<Rightarrow> startedAt b | None \<Rightarrow> clock w), lastByteAt = clock w\<rparr>"
    and "docVisible (markSessionOutput sid w) = docVisible w"
    and "background sid (markSessionOutput sid w)"
  using assms by (simp_all add: background_def markSessionOutput_bg)

lemma outputs_run:
  assumes "sys_inv y" and "background sid (world y)" and "busyTrack (world y) sid = Some b"
    and "lastByteAt b = clock (world y)" and "\<forall>g \<in> set gs. 0 \<le> g"
  shows "\<exists>y'. run_path app_step y (outputs_after sid gs) y' \<and> sys_inv y'
    \<and> store (world y') = store (world y) \<and> background sid (world y')
    \<and> clock (world y') = clock (world y) + sum_list gs
    \<and> busyTrack (world y') sid = Some \<lparr>startedAt = startedAt b, lastByteAt = clock (world y')\<rparr>"
  using assms
proof (induction gs arbitrary: y b)
  case Nil
  then show ?case by (intro exI [of _ y]) (cases b, auto)
next
  case (Cons g gs)
  let ?y1 = "exec_event (Tick g) y" and ?y2 = "exec_event (Output sid) (exec_event (Tick g) y)"
  have s1: "app_step y (Tick g) ?y1" and s2: "app_step ?y1 (Output sid) ?y2"
    using Cons.prems(5) by (simp_all add: app_step_iff)
  have bg: "background sid (world ?y1)" using Cons.prems(2) by (simp add: background_def)
  have inv: "sys_inv ?y2" using sys_inv_step [OF sys_inv_step [OF Cons.prems(1) s1] s2] .
  obtain y' where "run_path app_step ?y2 (outputs_after sid gs) y'" "sys_inv y'"
    "store (world y') = store (world ?y2)" "background sid (world y')"
    "clock (world y') = clock (world ?y2) + sum_list gs"
    "busyTrack (world y') sid = Some \<lparr>startedAt = startedAt b, lastByteAt = clock (world y')\<rparr>"
    using Cons.IH [OF inv, of "\<lparr>startedAt = startedAt b, lastByteAt = clock (world ?y2)\<rparr>"]
      output_bg [OF bg] Cons.prems(3,5) by auto
  with s1 s2 show ?case by (intro exI [of _ y']) (auto intro: run_path.intros)
qed

lemma tracked_pending:
  assumes "track_inv w" and "busyTrack w sid = Some b"
  obtains i where "timer_lookup (idleQueue w) i = Some (lastByteAt b + IDLE_MS, sid)"
proof -
  have "busyTrack w sid = None \<longleftrightarrow> idleTimers w sid = None"
    using assms(1) by (simp add: track_inv_def)
  with assms(2) obtain i where "idleTimers w sid = Some i" by auto
  with assms(1) obtain d c where "timer_lookup (idleQueue w) i = Some (d, c)" "Some c = Some sid"
    by (auto simp: track_inv_def elim: backedE)
  with assms that show ?thesis unfolding track_inv_def by blast
qed

section \<open>A sample run\<close>

text \<open>
  A start state and a run for the examples below: one workspace with two sessions is loaded, and the
  second session, in the background, produces output for 600 ms.
\<close>

definition sample_ws :: workspace where
  "sample_ws = \<lparr>ws_id = ''w1'', ws_name = ''Default'', ws_sortOrder = 0, ws_createdAt = [],
     ws_updatedAt = []\<rparr>"

definition sample_session :: "string \<Rightarrow> string \<Rightarrow> session" where
  "sample_session sid title = \<lparr>sess_id = sid, sess_workspaceId = ''w1'', sess_title = title,
     sess_shell = None, sess_cwd = None, sess_sortOrder = 0, sess_createdAt = [], sess_updatedAt = []\<rparr>"

definition sample_start :: app_sys where
  "sample_start = \<lparr>world = \<lparr>store = initial_state, busyTrack = Map.empty, idleTimers = Map.empty,
     idleQueue = no_timers, clock = 0, docVisible = True\<rparr>, calls = [], next_call = 0\<rparr>"

definition load_events :: "app_event list" where
  "load_events = [Act Init, Reply 0 [RWorkspaces [sample_ws]],
     Reply 1 [RSessions [sample_session ''s1'' ''Shell'', sample_session ''s2'' ''Build'']]]"

definition busy_events :: "app_event list" where
  "busy_events = [Output ''s2'', Tick 600, Output ''s2'', Tick 1500]"

definition after_run :: "app_event list \<Rightarrow> app_sys" where
  "after_run es = the (run_events es sample_start)"

lemma app_start_sample: "app_start sample_start"
  by (simp add: app_start_def sample_start_def)

lemma exec_tick: "0 \<le> d \<Longrightarrow> app_step y (Tick d) (exec_event (Tick d) y)"
  by (simp add: app_step_iff)

lemma reach_after_run: "run_events es sample_start \<noteq> None \<Longrightarrow> reach app_start app_step (after_run es)"
  by (auto simp: after_run_def intro: run_events_reach [OF app_start_sample])

lemma sample_loads: "run_events load_events sample_start \<noteq> None"
  by code_simp

lemma sample_busy: "run_events (load_events @ busy_events) sample_start \<noteq> None"
  by code_simp

section \<open>Properties\<close>

lemma filter_key_remove1:
  "distinct (map f xs) \<Longrightarrow> x \<in> set xs \<Longrightarrow> filter (\<lambda>u. f u \<noteq> f x) xs = remove1 x xs"
proof (induction xs)
  case (Cons a xs)
  show ?case
  proof (cases "a = x")
    case True
    with Cons.prems(1) show ?thesis by (auto intro!: filter_True) (metis image_eqI)
  next
    case False
    with Cons show ?thesis by (auto simp: rev_image_eqI)
  qed
qed simp

lemma toast_ids_distinct:
  assumes "stack_ok act ts"
  shows "distinct (map toast_id ts)"
proof -
  have "inj_on toast_id (set ts)"
  proof (rule inj_onI)
    fix t u assume "t \<in> set ts" "u \<in> set ts" "toast_id t = toast_id u"
    moreover from this assms have "toast_sessionId t = toast_sessionId u"
      using dash_num_inject by (fastforce simp: stack_ok_def toast_ok_def)
    moreover have "inj_on toast_sessionId (set ts)"
      using assms by (simp add: stack_ok_def distinct_map)
    ultimately show "t = u" by (auto dest: inj_onD)
  qed
  with assms show ?thesis by (simp add: stack_ok_def distinct_map)
qed

lemma reach_app_inv: "reach app_start app_step y \<Longrightarrow> app_inv (world y)"
  using app.reach_inv by (auto simp: sys_inv_def)

text \<open>
  C4: In every reachable state the toast stack holds at most \<open>MAX_TOASTS\<close> toasts, never two of the
  same session nor two with the same id, and every session with a toast is marked unread.
\<close>
theorem toast_stack_invariant:
  assumes "reach app_start app_step y"
  shows "length (toasts (store (world y))) \<le> MAX_TOASTS
    \<and> distinct (map toast_sessionId (toasts (store (world y))))
    \<and> distinct (map toast_id (toasts (store (world y))))
    \<and> (\<forall>t \<in> set (toasts (store (world y))). sessionUnread (store (world y)) (toast_sessionId t))"
proof -
  have "stack_ok (sessionActivity (store (world y))) (toasts (store (world y)))"
    using reach_app_inv [OF assms] by (simp add: app_inv_def toast_inv_def)
  then show ?thesis
    using toast_ids_distinct by (auto simp: stack_ok_def sessionUnread_alt)
qed

theorem toast_stack_invariant_witness:
  "length (toasts (store (world (after_run (load_events @ busy_events @ [FireIdle 2]))))) = 1
   \<and> distinct (map toast_id (toasts (store (world
       (after_run (load_events @ busy_events @ [FireIdle 2]))))))"
proof
  show "length (toasts (store (world (after_run (load_events @ busy_events @ [FireIdle 2]))))) = 1"
    by code_simp
  have "run_events (load_events @ busy_events @ [FireIdle 2]) sample_start \<noteq> None"
    by code_simp
  from toast_stack_invariant [OF reach_after_run [OF this]]
  show "distinct (map toast_id (toasts (store (world
       (after_run (load_events @ busy_events @ [FireIdle 2]))))))" by blast
qed

text \<open>
  C5: In every reachable state a session has a busy track exactly when one timer of its own is
  pending, never two, and the timer is due \<open>IDLE_MS\<close> after the last byte of the burst it stands for.
\<close>
theorem timers_match_tracking:
  assumes "reach app_start app_step y"
  shows "((\<exists>b. busyTrack (world y) sid = Some b)
      \<longleftrightarrow> (\<exists>!i. \<exists>d. timer_lookup (idleQueue (world y)) i = Some (d, sid)))
    \<and> (\<forall>b i d. busyTrack (world y) sid = Some b
        \<longrightarrow> timer_lookup (idleQueue (world y)) i = Some (d, sid)
        \<longrightarrow> d = lastByteAt b + IDLE_MS \<and> startedAt b \<le> lastByteAt b \<and> lastByteAt b \<le> clock (world y))"
proof -
  have tr: "track_inv (world y)" using reach_app_inv [OF assms] by (simp add: app_inv_def)
  then have ex: "exclusive (idleTimers (world y)) (timer_lookup (idleQueue (world y))) Some"
    by (simp add: track_inv_def)
  have "\<exists>!i. \<exists>d. timer_lookup (idleQueue (world y)) i = Some (d, sid)"
    if "busyTrack (world y) sid = Some b" for b
    using tracked_pending [OF tr that] exclusive_unique [OF ex] by metis
  moreover have "\<exists>b. busyTrack (world y) sid = Some b"
    if "timer_lookup (idleQueue (world y)) i = Some (d, sid)" for i d
    using fire_idle_cases [OF tr that] by metis
  moreover have "d = lastByteAt b + IDLE_MS \<and> startedAt b \<le> lastByteAt b \<and> lastByteAt b \<le> clock (world y)"
    if "busyTrack (world y) sid = Some b" "timer_lookup (idleQueue (world y)) i = Some (d, sid)" for b i d
    using fire_idle_cases [OF tr that(2)] that(1) by (metis option.inject)
  ultimately show ?thesis by blast
qed

theorem timers_match_tracking_witness:
  "\<exists>!i. \<exists>d. timer_lookup (idleQueue (world (after_run (load_events @ busy_events)))) i = Some (d, ''s2'')"
proof -
  have "busyTrack (world (after_run (load_events @ busy_events))) ''s2''
      = Some \<lparr>startedAt = 0, lastByteAt = 600\<rparr>"
    by code_simp
  then show ?thesis
    using timers_match_tracking [OF reach_after_run [OF sample_busy], of "''s2''"] by blast
qed

text \<open>
  C1: A session becomes unread only when its idle timer fires, after a burst of at least
  \<open>MIN_BUSY_MS\<close> that has been silent for at least \<open>IDLE_MS\<close>, and while the session is not the active
  one of a visible page. No reply, click, poll or switch ever sets the flag.
\<close>
theorem unread_only_after_idle_burst:
  assumes "reach app_start app_step y" and "app_step y e y'"
    and "\<not> sessionUnread (store (world y)) sid" and "sessionUnread (store (world y')) sid"
  shows "\<exists>i b. e = FireIdle i \<and> busyTrack (world y) sid = Some b
    \<and> MIN_BUSY_MS \<le> lastByteAt b - startedAt b \<and> lastByteAt b + IDLE_MS \<le> clock (world y)
    \<and> (activeSessionId (store (world y)) \<noteq> Some sid \<or> \<not> docVisible (world y))"
  using unread_step [OF app.reach_inv [OF assms(1)] assms(2), of sid] assms(3,4)
  by (auto simp: unread_at_def)

theorem unread_only_after_idle_burst_witness:
  "\<exists>i b. FireIdle 2 = FireIdle i
    \<and> busyTrack (world (after_run (load_events @ busy_events))) ''s2'' = Some b
    \<and> MIN_BUSY_MS \<le> lastByteAt b - startedAt b
    \<and> lastByteAt b + IDLE_MS \<le> clock (world (after_run (load_events @ busy_events)))
    \<and> (activeSessionId (store (world (after_run (load_events @ busy_events)))) \<noteq> Some ''s2''
       \<or> \<not> docVisible (world (after_run (load_events @ busy_events))))"
proof (rule unread_only_after_idle_burst [OF reach_after_run [OF sample_busy]])
  have "enabled (FireIdle 2) (after_run (load_events @ busy_events))" by code_simp
  then show "app_step (after_run (load_events @ busy_events)) (FireIdle 2)
      (exec_event (FireIdle 2) (after_run (load_events @ busy_events)))"
    by (simp only: app_step_iff)
  show "\<not> sessionUnread (store (world (after_run (load_events @ busy_events)))) ''s2''"
    by code_simp
  show "sessionUnread (store (world (exec_event (FireIdle 2)
      (after_run (load_events @ busy_events))))) ''s2''"
    by code_simp
qed

definition idle_due :: "string \<Rightarrow> app_world \<Rightarrow> bool" where
  "idle_due sid w \<longleftrightarrow> (\<exists>i d. timer_lookup (idleQueue w) i = Some (d, sid) \<and> d \<le> clock w)"

lemma not_due:
  assumes "sys_inv y" and "\<forall>b. busyTrack (world y) sid = Some b \<longrightarrow> clock (world y) < lastByteAt b + IDLE_MS"
  shows "\<not> idle_due sid (world y)"
proof
  assume "idle_due sid (world y)"
  then obtain i d where i: "timer_lookup (idleQueue (world y)) i = Some (d, sid)" "d \<le> clock (world y)"
    by (auto simp: idle_due_def)
  have tr: "track_inv (world y)" using assms(1) by (simp add: sys_inv_def app_inv_def)
  from fire_idle_cases [OF tr i(1)] obtain b where "busyTrack (world y) sid = Some b" "d = lastByteAt b + IDLE_MS"
    by metis
  with assms(2) i(2) show False by fastforce
qed

lemma app_path_Cons:
  "run_path app_step y (e # es) z \<longleftrightarrow> enabled e y \<and> run_path app_step (exec_event e y) es z"
  by (metis run_path_Cons app_step_iff)

text \<open>As long as no gap reaches \<open>IDLE_MS\<close>, the timer of the session is not due before the burst has ended.\<close>

lemma burst_not_due:
  assumes "sys_inv y" and "background sid (world y)" and "busyTrack (world y) sid = Some b"
    and "lastByteAt b = clock (world y)" and "\<forall>g \<in> set gs. 0 \<le> g \<and> g < IDLE_MS"
    and "outputs_after sid gs @ [Tick IDLE_MS] = es @ fs" and "fs \<noteq> []" and "run_path app_step y es z"
  shows "\<not> idle_due sid (world z)"
  using assms
proof (induction gs arbitrary: y b es)
  case Nil
  then have "es = []" by (cases es) auto
  with Nil.prems(8) have z: "z = y" by simp
  show ?case unfolding z by (rule not_due [OF Nil.prems(1)]) (use Nil.prems in \<open>simp add: IDLE_MS_def\<close>)
next
  case (Cons g gs)
  let ?y1 = "exec_event (Tick g) y" and ?y2 = "exec_event (Output sid) (exec_event (Tick g) y)"
  have s1: "app_step y (Tick g) ?y1" and s2: "app_step ?y1 (Output sid) ?y2"
    using Cons.prems(5) by (simp_all add: app_step_iff)
  have inv1: "sys_inv ?y1" by (rule sys_inv_step [OF Cons.prems(1) s1])
  have inv2: "sys_inv ?y2" by (rule sys_inv_step [OF inv1 s2])
  have bg: "background sid (world ?y1)" using Cons.prems(2) by (simp add: background_def)
  consider "es = []" | "es = [Tick g]" | es' where "es = Tick g # Output sid # es'"
    "outputs_after sid gs @ [Tick IDLE_MS] = es' @ fs"
    using Cons.prems(6,7) by (cases es; cases "tl es") auto
  then show ?case
  proof cases
    case 1
    with Cons.prems(8) have z: "z = y" by simp
    show ?thesis unfolding z by (rule not_due [OF Cons.prems(1)]) (use Cons.prems in \<open>simp add: IDLE_MS_def\<close>)
  next
    case 2
    with Cons.prems(8) have z: "z = ?y1" by (simp add: app_path_Cons)
    show ?thesis unfolding z
      by (rule not_due [OF inv1]) (use Cons.prems(3-5) in \<open>simp add: Cons.prems(4)\<close>)
  next
    case 3
    then have "run_path app_step ?y2 es' z" using Cons.prems(8) by (simp add: app_path_Cons)
    from Cons.IH [OF inv2 _ _ _ _ 3(2) Cons.prems(7) this, of "\<lparr>startedAt = startedAt b, lastByteAt = clock (world ?y2)\<rparr>"]
    show ?thesis using output_bg [OF bg] Cons.prems(3,5) by simp
  qed
qed

text \<open>
  C2: A burst of output of a background session that is not unread and not being tracked (first byte now, then
  after each of the gaps, all shorter than \<open>IDLE_MS\<close>), followed by silence. As long as the burst lasts its
  timer is never due; it becomes due when the session has been silent for exactly \<open>IDLE_MS\<close>. There is one timer
  of the session then, and when it fires the session is unread afterwards exactly if the burst lasted at
  least \<open>MIN_BUSY_MS\<close> (a burst of exactly that length alerts, too).
\<close>
theorem idle_burst_alerts:
  assumes "reach app_start app_step y" and "background sid (world y)"
    and "busyTrack (world y) sid = None" and "\<not> sessionUnread (store (world y)) sid"
    and "\<forall>g \<in> set gaps. 0 \<le> g \<and> g < IDLE_MS"
    and "burst = Output sid # outputs_after sid gaps @ [Tick IDLE_MS]"
  shows "(\<forall>es fs z. burst = es @ fs \<longrightarrow> fs \<noteq> [] \<longrightarrow> run_path app_step y es z \<longrightarrow> \<not> idle_due sid (world z))
    \<and> (\<exists>y'. run_path app_step y burst y'
        \<and> (\<exists>!i. \<exists>d. timer_lookup (idleQueue (world y')) i = Some (d, sid))
        \<and> (\<forall>i d. timer_lookup (idleQueue (world y')) i = Some (d, sid) \<longrightarrow>
             d = clock (world y') \<and> app_step y' (FireIdle i) (exec_event (FireIdle i) y')
             \<and> (sessionUnread (store (world (exec_event (FireIdle i) y'))) sid \<longleftrightarrow> MIN_BUSY_MS \<le> sum_list gaps)))"
proof -
  let ?y1 = "exec_event (Output sid) y"
  have inv: "sys_inv y" using assms(1) by (rule app.reach_inv)
  have s1: "app_step y (Output sid) ?y1" by (simp add: app_step_iff)
  have inv1: "sys_inv ?y1" using inv s1 by (rule sys_inv_step)
  have b1: "busyTrack (world ?y1) sid = Some \<lparr>startedAt = clock (world y), lastByteAt = clock (world y)\<rparr>"
    and bg1: "background sid (world ?y1)"
    using output_bg [OF assms(2)] assms(3) by simp_all
  obtain y2 where y2: "run_path app_step ?y1 (outputs_after sid gaps) y2" "sys_inv y2"
    "store (world y2) = store (world ?y1)" "background sid (world y2)"
    "clock (world y2) = clock (world ?y1) + sum_list gaps"
    "busyTrack (world y2) sid = Some \<lparr>startedAt = clock (world y), lastByteAt = clock (world y2)\<rparr>"
    using outputs_run [OF inv1 bg1 b1, of gaps] assms(5) by auto
  let ?y3 = "exec_event (Tick IDLE_MS) y2"
  have s3: "app_step y2 (Tick IDLE_MS) ?y3" by (simp add: app_step_iff IDLE_MS_def)
  have tr3: "track_inv (world ?y3)" using sys_inv_step [OF y2(2) s3] by (simp add: sys_inv_def app_inv_def)
  have b3: "busyTrack (world ?y3) sid = Some \<lparr>startedAt = clock (world y), lastByteAt = clock (world y2)\<rparr>"
    using y2(6) by simp
  have ex: "exclusive (idleTimers (world ?y3)) (timer_lookup (idleQueue (world ?y3))) Some"
    using tr3 by (simp add: track_inv_def)
  have one: "\<exists>!i. \<exists>d. timer_lookup (idleQueue (world ?y3)) i = Some (d, sid)"
    using tracked_pending [OF tr3 b3] exclusive_unique [OF ex] by metis
  have fires: "d = clock (world ?y3) \<and> app_step ?y3 (FireIdle i) (exec_event (FireIdle i) ?y3)
      \<and> (sessionUnread (store (world (exec_event (FireIdle i) ?y3))) sid \<longleftrightarrow> MIN_BUSY_MS \<le> sum_list gaps)"
    if q: "timer_lookup (idleQueue (world ?y3)) i = Some (d, sid)" for i d
  proof -
    from fire_idle_cases [OF tr3 q] obtain b where "busyTrack (world ?y3) sid = Some b" "d = lastByteAt b + IDLE_MS"
      by metis
    with b3 have "d = clock (world ?y3)" by auto
    moreover have "sessionUnread (store (world (exec_event (FireIdle i) ?y3))) sid \<longleftrightarrow> MIN_BUSY_MS \<le> sum_list gaps"
      using assms(4) y2(3-5) fire_idle_eq [OF tr3 q b3]
      by (auto simp: background_def Let_def unread_idle_mark)
    ultimately show ?thesis using q by (simp add: app_step_iff)
  qed
  have "\<not> idle_due sid (world z)"
    if "burst = es @ fs" "fs \<noteq> []" "run_path app_step y es z" for es fs z
  proof (cases es)
    case Nil
    with that(3) have z: "z = y" by simp
    show ?thesis unfolding z by (rule not_due [OF inv]) (simp add: assms(3))
  next
    case (Cons e es')
    with that(1,3) assms(6) have "run_path app_step ?y1 es' z" "outputs_after sid gaps @ [Tick IDLE_MS] = es' @ fs"
      by (auto simp: app_path_Cons)
    with burst_not_due [OF inv1 bg1 b1 _ assms(5) _ that(2)] show ?thesis by simp
  qed
  moreover have "run_path app_step y burst ?y3"
    unfolding assms(6) using s1 run_path_append [OF y2(1), of "[Tick IDLE_MS]"] s3 by (auto intro!: run_path.intros)
  ultimately show ?thesis using one fires by blast
qed

theorem idle_burst_alerts_witness:
  "\<exists>y' i. run_path app_step (after_run load_events)
      (Output ''s2'' # outputs_after ''s2'' [200, 400] @ [Tick IDLE_MS]) y'
    \<and> sessionUnread (store (world (exec_event (FireIdle i) y'))) ''s2''"
proof -
  have "background ''s2'' (world (after_run load_events))" and "busyTrack (world (after_run load_events)) ''s2'' = None"
    and "\<not> sessionUnread (store (world (after_run load_events))) ''s2''"
    by code_simp+
  note all = idle_burst_alerts [OF reach_after_run [OF sample_loads] this _ refl, of "[200, 400]"]
  have "MIN_BUSY_MS \<le> sum_list [200, 400 :: int]" by (simp add: MIN_BUSY_MS_def)
  moreover have "\<forall>g \<in> set [200, 400 :: int]. 0 \<le> g \<and> g < IDLE_MS" by (simp add: IDLE_MS_def)
  note all [OF this]
  ultimately show ?thesis by blast
qed

text \<open>
  C3: Viewing a session (a click on its tab, or the visibility listener's clearing) cancels its
  pending alert for good: whatever happens next, the session is not unread as long as it produces no
  further output.
\<close>
theorem viewing_cancels_alert:
  assumes "reach app_start app_step y" and "e = Select sid \<or> e = ClearUnread sid"
    and "app_step y e y1" and "run_path app_step y1 es y2" and "Output sid \<notin> set es"
  shows "\<not> sessionUnread (store (world y2)) sid \<and> busyTrack (world y2) sid = None"
proof -
  have inv: "sys_inv y" using assms(1) by (rule app.reach_inv)
  then have tr: "track_inv (world y)" by (simp add: sys_inv_def app_inv_def)
  have "calm sid (world y1)"
    using assms(2,3) calm_select [OF tr] calm_clear [OF tr] by (auto simp: app_step_iff)
  then have "calm sid (world y2)"
    using calm_run [OF assms(4) sys_inv_step [OF inv assms(3)] _ assms(5)] by blast
  then show ?thesis by (simp add: calm_def unread_at_def untracked_def)
qed

theorem viewing_cancels_alert_witness:
  "\<not> sessionUnread (store (world (exec_event (Tick 5000)
       (exec_event (Select ''s2'') (after_run (load_events @ busy_events)))))) ''s2''
   \<and> busyTrack (world (exec_event (Tick 5000)
       (exec_event (Select ''s2'') (after_run (load_events @ busy_events))))) ''s2'' = None"
proof (rule viewing_cancels_alert [OF reach_after_run [OF sample_busy]])
  show "Select ''s2'' = Select ''s2'' \<or> Select ''s2'' = ClearUnread ''s2''" by simp
  show "app_step (after_run (load_events @ busy_events)) (Select ''s2'')
      (exec_event (Select ''s2'') (after_run (load_events @ busy_events)))"
    by (simp only: app_step_iff enabled.simps simp_thms)
  show "run_path app_step (exec_event (Select ''s2'') (after_run (load_events @ busy_events)))
      [Tick 5000] (exec_event (Tick 5000)
        (exec_event (Select ''s2'') (after_run (load_events @ busy_events))))"
    by (rule run_cons, rule exec_tick, simp, rule run_nil)
qed simp

text \<open>
  Dismissing a toast of a reachable state by its id removes that toast and no other, and keeps
  the unread flags.
\<close>
lemma dismiss_removes_one:
  assumes "reach app_start app_step y" and "t \<in> set (toasts (store (world y)))"
  shows "toasts (store (dismissToast (toast_id t) (world y))) = remove1 t (toasts (store (world y)))
    \<and> sessionActivity (store (dismissToast (toast_id t) (world y))) = sessionActivity (store (world y))"
proof -
  let ?ts = "toasts (store (world y))"
  have "distinct (map toast_id ?ts)"
    using reach_app_inv [OF assms(1)] toast_ids_distinct by (auto simp: app_inv_def toast_inv_def)
  then have "filter (\<lambda>u. toast_id u \<noteq> toast_id t) ?ts = remove1 t ?ts"
    using assms(2)
  by (simp add: filter_key_remove1)
  then show ?thesis
    using assms(2) by (auto simp: dismissToast_def Let_def list_ex_iff)
qed

end
