(* ===== verification/AppOps.thy ===== *)
theory AppOps
  imports AppAlerts
begin

text \<open>
  What the operations of the store do, one by one and in sequence: loading at start, polling,
  switching and restoring tabs, deleting, the contents of a toast, and the refinement of the
  workspace and session lists to an abstract tree.
\<close>

section \<open>Polling\<close>

definition shown :: "session \<Rightarrow> string \<times> string \<times> string option \<times> string" where
  "shown x = (sess_id x, sess_title x, sess_cwd x, sess_updatedAt x)"

lemma sessions_loop_iff:
  "length a = length b \<Longrightarrow> sessions_loop a b \<longleftrightarrow> map shown a = map shown b"
  by (induction a b rule: list_induct2) (auto simp: shown_def)

lemma sessionsEqual_iff: "sessionsEqual a b \<longleftrightarrow> map shown a = map shown b"
  using sessions_loop_iff [of a b] map_eq_imp_length_eq [of shown a shown b]
  by (auto simp: sessionsEqual_def)

lemma session_list_set_sessions:
  "session_list (store (set_sessions wid l w)) k = (if k = wid then l else session_list (store w) k)"
  by (simp add: session_list_def set_sessions_def)

text \<open>
  C6: After a poll's reply the cached list of the polled workspace shows what the server sent (id,
  title, working directory and update time of every session, in order), whether or not the update
  was skipped; every other workspace's list, the selection, the unread flags and the toasts are as
  before; and the update is skipped exactly when nothing shown has changed.
\<close>
theorem poll_shows_reply:
  "map shown (session_list (store (pollActive_set wid l w)) wid) = map shown l
   \<and> (k = wid \<or> session_list (store (pollActive_set wid l w)) k = session_list (store w) k)
   \<and> same_alerts w (pollActive_set wid l w)
   \<and> activeSessionId (store (pollActive_set wid l w)) = activeSessionId (store w)
   \<and> pollActive_set wid l w =
        (if map shown (session_list (store w) wid) = map shown l then w else set_sessions wid l w)"
  by (auto simp: pollActive_set_def sessionsEqual_iff session_list_set_sessions same_alerts_sets)
     (simp add: set_sessions_def)

section \<open>Deleting\<close>

lemma deleteWorkspace_toasts:
  "toasts (store (deleteWorkspace_set wid w)) =
     filter (\<lambda>t. toast_sessionId t \<notin> set (map sess_id (session_list (store w) wid))) (toasts (store w))"
  unfolding deleteWorkspace_set_def Let_def if_list_ex_filter by (simp cong: filter_cong)

lemma untracked_fold_cancel_mem:
  "track_inv w \<Longrightarrow> sid \<in> set ids \<Longrightarrow> untracked sid (fold cancelIdleTracking ids w)"
proof (induction ids arbitrary: w)
  case (Cons k ids)
  show ?case
  proof (cases "k = sid")
    case True
    then have "untracked sid (cancelIdleTracking k w)" using cancel_untracked Cons.prems(1) by simp
    then show ?thesis by (simp add: untracked_fold_cancel)
  next
    case False
    with Cons show ?thesis by (simp add: track_inv_cancel)
  qed
qed simp

lemma cancel_fold_maps:
  "busyTrack (fold cancelIdleTracking ids w) k = (if k \<in> set ids then None else busyTrack w k)"
  "idleTimers (fold cancelIdleTracking ids w) k = (if k \<in> set ids then None else idleTimers w k)"
  by (induction ids arbitrary: w) (auto simp: cancelIdleTracking_def map_defs)

text \<open>The tab shown when a workspace becomes active by a deletion: the remembered one, else the first.\<close>

definition tab_to_show :: "app_state \<Rightarrow> string \<Rightarrow> string option" where
  "tab_to_show s wid = (case obj_get (activeSessionByWorkspace s) wid of
       Some t \<Rightarrow> Some t | None \<Rightarrow> map_option sess_id (head_opt (session_list s wid)))"

text \<open>
  C7: Deleting a workspace of a reachable state removes exactly it. Its entry, its session list and its
  remembered tab are gone, and of each of its sessions the activity, the toast, the busy track and the pending
  timer; every other workspace and session keeps all of that. The first remaining workspace becomes the active
  one, even if another one was active before, and its remembered tab, or else its first one, the active session;
  so no session of the deleted workspace stays active, unless another workspace lists or remembers it too.
\<close>
theorem deleteWorkspace_leaves_nothing:
  assumes "reach app_start app_step y" and "w' = deleteWorkspace_set wid (world y)"
    and "s = store (world y)" and "gone = set (map sess_id (session_list s wid))"
  shows "workspaces (store w') = filter (\<lambda>x. ws_id x \<noteq> wid) (workspaces s)
    \<and> (\<forall>k. obj_get (sessions (store w')) k = (if k = wid then None else obj_get (sessions s) k)
        \<and> obj_get (activeSessionByWorkspace (store w')) k =
            (if k = wid then None else obj_get (activeSessionByWorkspace s) k))
    \<and> (\<forall>sid. if sid \<in> gone then obj_get (sessionActivity (store w')) sid = None \<and> calm sid w'
        else obj_get (sessionActivity (store w')) sid = obj_get (sessionActivity s) sid
          \<and> busyTrack w' sid = busyTrack (world y) sid \<and> idleTimers w' sid = idleTimers (world y) sid)
    \<and> toasts (store w') = filter (\<lambda>t. toast_sessionId t \<notin> gone) (toasts s)
    \<and> activeWorkspaceId (store w') = map_option ws_id (head_opt (workspaces (store w')))
    \<and> activeSessionId (store w') = (if truthy (activeWorkspaceId (store w'))
        then tab_to_show s (the (activeWorkspaceId (store w'))) else None)
    \<and> ((\<forall>k. k \<noteq> wid \<longrightarrow> (\<forall>x \<in> set (session_list s k). sess_id x \<notin> gone)
          \<and> (\<forall>t. obj_get (activeSessionByWorkspace s) k = Some t \<longrightarrow> t \<notin> gone))
        \<longrightarrow> (\<forall>sid \<in> gone. activeSessionId (store w') \<noteq> Some sid))"
proof -
  have tr: "track_inv (world y)"
    using app.reach_inv [OF assms(1)] by (simp add: sys_inv_def app_inv_def)
  have ws: "workspaces (store w') = filter (\<lambda>x. ws_id x \<noteq> wid) (workspaces s)"
    and aw: "activeWorkspaceId (store w') = map_option ws_id (head_opt (workspaces (store w')))"
    by (simp_all add: assms(2,3) deleteWorkspace_set_def Let_def)
  have next_ws: "k \<noteq> wid" if nx: "activeWorkspaceId (store w') = Some k" for k
  proof -
    obtain x where "head_opt (workspaces (store w')) = Some x" "ws_id x = k" using nx unfolding aw by auto
    with ws show ?thesis by (auto dest!: head_opt_in)
  qed
  have as: "activeSessionId (store w') = (if truthy (activeWorkspaceId (store w'))
      then tab_to_show s (the (activeWorkspaceId (store w'))) else None)"
  proof (cases "activeWorkspaceId (store w')")
    case (Some k)
    with next_ws have "k \<noteq> wid" by blast
    moreover have "map_option ws_id (head_opt (filter (\<lambda>x. ws_id x \<noteq> wid) (workspaces s))) = Some k"
      using Some aw ws by simp
    ultimately show ?thesis using Some
      by (auto simp: assms(2,3) deleteWorkspace_set_def Let_def tab_to_show_def session_list_def split: option.split)
  qed (simp add: assms(2,3) deleteWorkspace_set_def Let_def)
  have gone: "obj_get (sessionActivity (store w')) sid = None \<and> calm sid w'" if "sid \<in> gone" for sid
  proof -
    have "untracked sid w'"
      using untracked_fold_cancel_mem [OF tr, of sid] that
      by (simp add: assms(2-4) deleteWorkspace_set_def Let_def)
    then show ?thesis using that
      by (auto simp: calm_def unread_at_alt unread_in_def assms(2-4) deleteWorkspace_set_def Let_def obj.get_del_all)
  qed
  have others: "obj_get (sessionActivity (store w')) sid = obj_get (sessionActivity s) sid
      \<and> busyTrack w' sid = busyTrack (world y) sid \<and> idleTimers w' sid = idleTimers (world y) sid"
    if "sid \<notin> gone" for sid
    using that by (simp add: assms(2-4) deleteWorkspace_set_def Let_def obj.get_del_all cancel_fold_maps)
  have ts: "toasts (store w') = filter (\<lambda>t. toast_sessionId t \<notin> gone) (toasts s)"
    unfolding assms(2-4) by (rule deleteWorkspace_toasts)
  have "activeSessionId (store w') \<noteq> Some sid"
    if ok: "\<forall>k. k \<noteq> wid \<longrightarrow> (\<forall>x \<in> set (session_list s k). sess_id x \<notin> gone)
          \<and> (\<forall>t. obj_get (activeSessionByWorkspace s) k = Some t \<longrightarrow> t \<notin> gone)" and "sid \<in> gone" for sid
  proof
    assume a: "activeSessionId (store w') = Some sid"
    then obtain k where k: "activeWorkspaceId (store w') = Some k" "tab_to_show s k = Some sid"
      unfolding as by (cases "activeWorkspaceId (store w')") (auto split: if_splits)
    with next_ws ok that(2) show False
      by (auto simp: tab_to_show_def split: option.splits dest!: head_opt_in)
  qed
  then show ?thesis using ws aw as gone others ts
    by (simp add: assms(2,3) deleteWorkspace_set_def Let_def)
qed

text \<open>
  C8: Deleting a session of the active workspace removes it from the workspace's list, keeps the
  order of the others, never leaves it selected or remembered, selects the first remaining session
  if it was the active one and keeps the selection otherwise, and drops its unread flag, its toast
  and its pending alert.
\<close>
theorem deleteSession_effect:
  assumes "track_inv w" and "activeWorkspaceId (store w) = Some wid" and "wid \<noteq> []"
    and "w' = deleteSession_set sid w"
  shows "session_list (store w') wid = filter (\<lambda>x. sess_id x \<noteq> sid) (session_list (store w) wid)
    \<and> activeSessionId (store w') =
        (if activeSessionId (store w) = Some sid
         then map_option sess_id (head_opt (session_list (store w') wid))
         else activeSessionId (store w))
    \<and> activeSessionId (store w') \<noteq> Some sid
    \<and> obj_get (activeSessionByWorkspace (store w')) wid \<noteq> Some sid
    \<and> calm sid w' \<and> \<not> has_toast sid (toasts (store w'))"
proof -
  let ?l = "filter (\<lambda>x. sess_id x \<noteq> sid) (session_list (store w) wid)"
  have ne: "map_option sess_id (head_opt ?l) \<noteq> Some sid"
    by (cases "head_opt ?l") (auto dest: head_opt_in)
  have sl: "session_list (store w') wid = ?l"
    using assms(2,3) by (simp add: assms(4) deleteSession_set_def Let_def session_list_def)
  have act: "activeSessionId (store w') =
      (if activeSessionId (store w) = Some sid then map_option sess_id (head_opt ?l)
       else activeSessionId (store w))"
    using assms(2,3) by (simp add: assms(4) deleteSession_set_def Let_def)
  have nsel: "activeSessionId (store w') \<noteq> Some sid"
    using act ne by metis
  let ?abw = "activeSessionByWorkspace (store w)" and ?n = "activeSessionId (store w')"
  have "activeSessionByWorkspace (store w') =
      (if obj_get ?abw wid = Some sid
       then (if truthy ?n then obj_put wid (the ?n) ?abw else obj_del wid ?abw) else ?abw)"
    using assms(2,3) by (simp add: assms(4) deleteSession_set_def Let_def)
  then have "obj_get (activeSessionByWorkspace (store w')) wid \<noteq> Some sid"
    using nsel by (cases ?n) auto
  moreover have "\<not> has_toast sid (toasts (store w'))"
    using assms(2,3)
    by (simp add: assms(4) deleteSession_set_def Let_def drop_toasts_filter has_toast_def list_ex_iff)
  moreover have "calm sid w'"
    using assms by (simp add: calm_delete_session)
  ultimately show ?thesis using sl act [folded sl] nsel by blast
qed

section \<open>Switching\<close>

text \<open>
  C9: After a switch to a workspace the selected session is one of the workspace's list (none only
  if the list is empty), it is the remembered one whenever that still exists, and it is calm: not
  unread, no toast, no pending alert.
\<close>
theorem switch_selects_and_calms:
  assumes "track_inv w" and "w' = setActiveWorkspace_set wid l w" and "[] \<notin> set (map sess_id l)"
  shows "activeWorkspaceId (store w') = Some wid
    \<and> (activeSessionId (store w') = None \<longleftrightarrow> l = [])
    \<and> (\<forall>sid. activeSessionId (store w') = Some sid \<longrightarrow>
         sid \<in> set (map sess_id l) \<and> calm sid w' \<and> \<not> has_toast sid (toasts (store w'))
         \<and> obj_get (activeSessionByWorkspace (store w')) wid = Some sid)
    \<and> (\<forall>sid \<in> set (map sess_id l).
         obj_get (activeSessionByWorkspace (store w)) wid = Some sid \<longrightarrow>
         activeSessionId (store w') = Some sid)"
proof -
  let ?r = "obj_get (activeSessionByWorkspace (store w)) wid"
  define n where "n = (if truthy ?r \<and> list_ex (\<lambda>x. Some (sess_id x) = ?r) l then ?r
    else map_option sess_id (head_opt l))"
  have act: "activeSessionId (store w') = n"
    by (simp add: assms(2) setActiveWorkspace_set_def Let_def n_def)
  have mem: "sid \<in> set (map sess_id l)" if "n = Some sid" for sid
    using that by (auto simp: n_def list_ex_iff dest: head_opt_in split: if_splits)
  have none: "n = None \<longleftrightarrow> l = []"
    by (auto simp: n_def list_ex_iff elim!: truthyE)
  have rem: "n = Some sid" if "?r = Some sid" "sid \<in> set (map sess_id l)" for sid
  proof -
    from that(2) obtain x where "x \<in> set l" "sess_id x = sid" by auto
    moreover have "sid \<noteq> []" using that(2) assms(3) by metis
    ultimately show ?thesis using that(1) by (auto simp: n_def list_ex_iff)
  qed
  have view: "calm sid w' \<and> \<not> has_toast sid (toasts (store w'))
      \<and> obj_get (activeSessionByWorkspace (store w')) wid = Some sid" if n: "n = Some sid" for sid
  proof -
    have "sid \<noteq> []" using mem [OF n] assms(3) by metis
    then have t: "truthy n" using n by simp
    have "calm sid w'"
      using calm_switch [OF assms(1)] act n \<open>sid \<noteq> []\<close> by (simp add: assms(2))
    moreover have "toasts (store w') = drop_toasts sid (toasts (store w))"
      "activeSessionByWorkspace (store w') = obj_put wid sid (activeSessionByWorkspace (store w))"
      using t n by (simp_all add: assms(2) setActiveWorkspace_set_def Let_def n_def)
    ultimately show ?thesis by (simp add: drop_toasts_filter has_toast_def list_ex_iff)
  qed
  have "activeWorkspaceId (store w') = Some wid"
    by (simp add: assms(2) setActiveWorkspace_set_def Let_def)
  with act mem none rem view show ?thesis by blast
qed

lemma sample_track_inv:
  "run_events es sample_start \<noteq> None \<Longrightarrow> track_inv (world (after_run es))"
  using reach_app_inv [OF reach_after_run] by (auto simp: app_inv_def)

theorem deleteWorkspace_leaves_nothing_witness:
  "calm ''s2'' (deleteWorkspace_set ''w1'' (world (after_run (load_events @ busy_events))))
   \<and> activeSessionId (store (deleteWorkspace_set ''w1'' (world (after_run (load_events @ busy_events))))) = None"
proof -
  let ?y = "after_run (load_events @ busy_events)"
  let ?w = "deleteWorkspace_set ''w1'' (world ?y)"
  have m: "''s2'' \<in> set (map sess_id (session_list (store (world ?y)) ''w1''))" by code_simp
  note all = deleteWorkspace_leaves_nothing [OF reach_after_run [OF sample_busy] refl refl refl, of "''w1''"]
  from all m have "calm ''s2'' ?w" by (elim conjE) (erule allE [of _ "''s2''"], simp only: if_True)
  moreover have "\<not> truthy (activeWorkspaceId (store ?w))" by code_simp
  with all have "activeSessionId (store ?w) = None" by simp
  ultimately show ?thesis ..
qed

theorem deleteSession_effect_witness:
  "activeSessionId (store (deleteSession_set ''s1'' (world (after_run load_events)))) = Some ''s2''"
proof -
  let ?w = "world (after_run load_events)"
  have a: "activeWorkspaceId (store ?w) = Some ''w1''" and "activeSessionId (store ?w) = Some ''s1''"
    and "map_option sess_id (head_opt (session_list
      (store (deleteSession_set ''s1'' ?w)) ''w1'')) = Some ''s2''"
    by code_simp+
  with deleteSession_effect [OF sample_track_inv [OF sample_loads] a _ refl, of "''s1''"]
  show ?thesis by simp
qed

theorem switch_selects_and_calms_witness:
  "calm ''s1'' (setActiveWorkspace_set ''w1''
      [sample_session ''s1'' ''Shell'', sample_session ''s2'' ''Build'']
      (world (after_run (load_events @ busy_events))))"
proof -
  let ?l = "[sample_session ''s1'' ''Shell'', sample_session ''s2'' ''Build'']"
  let ?w = "world (after_run (load_events @ busy_events))"
  have "[] \<notin> set (map sess_id ?l)" by (simp add: sample_session_def)
  from switch_selects_and_calms [OF sample_track_inv [OF sample_busy] refl this, of "''w1''"]
  have "\<forall>sid. activeSessionId (store (setActiveWorkspace_set ''w1'' ?l ?w)) = Some sid
      \<longrightarrow> calm sid (setActiveWorkspace_set ''w1'' ?l ?w)" by blast
  moreover have "activeSessionId (store (setActiveWorkspace_set ''w1'' ?l ?w)) = Some ''s1''"
    by code_simp
  ultimately show ?thesis by blast
qed

text \<open>
  C10: Switching to another workspace and back restores the tab: if the active session of the first
  workspace is the remembered one and is still listed when the user returns, it is selected again.
\<close>
theorem switch_back_restores_tab:
  assumes "activeSessionId (store w) = Some sid" and "sid \<noteq> []"
    and "obj_get (activeSessionByWorkspace (store w)) a = Some sid"
    and "a \<noteq> b" and "sid \<in> set (map sess_id la)"
  shows "activeSessionId (store (setActiveWorkspace_set a la (setActiveWorkspace_set b lb w))) = Some sid
    \<and> activeWorkspaceId (store (setActiveWorkspace_set a la (setActiveWorkspace_set b lb w))) = Some a"
proof -
  let ?w1 = "setActiveWorkspace_set b lb w"
  have "obj_get (activeSessionByWorkspace (store ?w1)) a = Some sid"
    using assms(3,4) by (simp add: setActiveWorkspace_set_def Let_def)
  moreover have "list_ex (\<lambda>x. Some (sess_id x) = Some sid) la"
    using assms(5) by (auto simp: list_ex_iff)
  ultimately show ?thesis
    using assms(2) by (simp add: setActiveWorkspace_set_def Let_def)
qed

theorem switch_back_restores_tab_witness:
  "activeSessionId (store (setActiveWorkspace_set ''w1'' [sample_session ''s1'' ''Shell'']
      (setActiveWorkspace_set ''w2'' [] (world (after_run load_events))))) = Some ''s1''"
proof -
  have "activeSessionId (store (world (after_run load_events))) = Some ''s1''"
    and "obj_get (activeSessionByWorkspace (store (world (after_run load_events)))) ''w1'' = Some ''s1''"
    by code_simp+
  with switch_back_restores_tab [of "world (after_run load_events)" "''s1''" "''w1''" "''w2''"
      "[sample_session ''s1'' ''Shell'']" "[]"]
  show ?thesis by (simp add: sample_session_def)
qed

section \<open>The toast of an alert\<close>

lemma locate_session_None:
  "locate_session sid es = None \<longleftrightarrow> (\<forall>(wid, l) \<in> set es. sid \<notin> set (map sess_id l))"
  by (induction sid es rule: locate_session.induct)
     (auto split: option.splits simp: find_None_iff find_Some_iff)

definition listed_in :: "string \<Rightarrow> app_state \<Rightarrow> string \<Rightarrow> session \<Rightarrow> bool" where
  "listed_in sid s wid x \<longleftrightarrow> x \<in> set (session_list s wid) \<and> sess_id x = sid"

text \<open>
  When an alert is raised for a session, the newest toast names a workspace that lists the session,
  with the session's title there, replaces the session's older toast and pushes the oldest one out
  of a full stack; if no workspace lists the session the badge is lit and the toasts stay as they
  were.
\<close>
lemma alert_toast_content:
  assumes "obj_wf (sessions s)" and "\<not> sessionUnread s sid"
    and "\<And>wid l. obj_get (sessions s) wid = Some l \<Longrightarrow> wid \<noteq> []"
  shows "sessionUnread (idle_mark sid b s) sid
    \<and> ((\<exists>wid x. listed_in sid s wid x \<and> toasts (idle_mark sid b s) =
            slice_last MAX_TOASTS (filter (\<lambda>t. toast_sessionId t \<noteq> sid) (toasts s)
              @ [make_toast sid wid (sess_title x) (lastByteAt b)]))
       \<or> (\<nexists>wid x. listed_in sid s wid x) \<and> toasts (idle_mark sid b s) = toasts s)"
proof (cases "locate_session sid (obj_entries (sessions s))")
  case None
  have "\<not> listed_in sid s wid x" for wid x
  proof
    assume "listed_in sid s wid x"
    then obtain l where "obj_get (sessions s) wid = Some l" "x \<in> set l" "sess_id x = sid"
      by (cases "obj_get (sessions s) wid") (auto simp: listed_in_def session_list_def)
    with assms(1) have "(wid, l) \<in> set (obj_entries (sessions s))"
      by (simp only: obj_entries_get)
    with None \<open>x \<in> set l\<close> \<open>sess_id x = sid\<close> show False
      by (auto simp only: locate_session_None split: prod.splits) auto
  qed
  with None assms(2) show ?thesis
    by (auto simp: idle_mark_def Let_def sessionUnread_alt)
next
  case (Some p)
  obtain wid x where p: "p = (wid, x)" by (cases p)
  obtain l where l: "(wid, l) \<in> set (obj_entries (sessions s))" "x \<in> set l" "sess_id x = sid"
    using locate_session_Some [OF Some [unfolded p]] by blast
  with assms(1) have g: "obj_get (sessions s) wid = Some l" by (simp only: obj_entries_get)
  with l have "listed_in sid s wid x" by (simp add: listed_in_def session_list_def)
  moreover have "wid \<noteq> []" using assms(3) g by blast
  ultimately show ?thesis
    using Some p assms(2) by (auto simp: idle_mark_def Let_def sessionUnread_alt)
qed

end
