(* ===== verification/AppTree.thy ===== *)
theory AppTree
  imports AppOps
begin

text \<open>
  The abstract content of the store: the tree of workspaces with their sessions, and the edits a user
  sees. Every step of the system either leaves the tree as it is or performs one edit of it; the
  loading at start builds the tree the server described.
\<close>

section \<open>Trees and edits\<close>

type_synonym tree = "(workspace \<times> session list) list"

definition tree_of :: "app_state \<Rightarrow> tree" where
  "tree_of s = map (\<lambda>x. (x, session_list s (ws_id x))) (workspaces s)"

datatype tree_edit =
    LoadTree tree
  | Reorder "workspace list" "string \<Rightarrow> session list"
  | AddWorkspace workspace session
  | RemoveWorkspace string
  | ReplaceWorkspace string workspace
  | SetSessions string "session list"
  | AddSession string session
  | RemoveSession string string
  | ReplaceSession string string session

definition at_workspace :: "string \<Rightarrow> (session list \<Rightarrow> session list) \<Rightarrow> tree \<Rightarrow> tree" where
  "at_workspace wid f t = map (\<lambda>(x, l). (x, if ws_id x = wid then f l else l)) t"

fun apply_edit :: "tree_edit \<Rightarrow> tree \<Rightarrow> tree" where
  "apply_edit (LoadTree t') t = t'"
| "apply_edit (Reorder wss look) t = map (\<lambda>x. (x, look (ws_id x))) wss"
| "apply_edit (AddWorkspace ws x) t = t @ [(ws, [x])]"
| "apply_edit (RemoveWorkspace wid) t = filter (\<lambda>(x, l). ws_id x \<noteq> wid) t"
| "apply_edit (ReplaceWorkspace wid ws) t = map (\<lambda>(x, l). (if ws_id x = wid then ws else x, l)) t"
| "apply_edit (SetSessions wid l') t = at_workspace wid (\<lambda>l. l') t"
| "apply_edit (AddSession wid x) t = at_workspace wid (\<lambda>l. l @ [x]) t"
| "apply_edit (RemoveSession wid sid) t = at_workspace wid (filter (\<lambda>x. sess_id x \<noteq> sid)) t"
| "apply_edit (ReplaceSession wid sid u) t =
     at_workspace wid (map (\<lambda>x. if sess_id x = sid then u else x)) t"

section \<open>Which edit a reply performs\<close>

text \<open>
  A poll whose reply shows nothing new is not an edit, even if the reply differs in fields that are
  not shown. The two operations on sessions act on the workspace that is active when the reply comes.
\<close>

definition in_active :: "app_state \<Rightarrow> (string \<Rightarrow> tree_edit) \<Rightarrow> tree_edit option" where
  "in_active s f = (if truthy (activeWorkspaceId s) then Some (f (the (activeWorkspaceId s))) else None)"

fun edit_of :: "await \<Rightarrow> reply list \<Rightarrow> app_state \<Rightarrow> tree_edit option" where
  "edit_of (AwInitLists wss) rs s =
     (if wss = [] \<or> head_opt (lists_of rs) = Some [] then None
      else Some (LoadTree (zip wss (lists_of rs))))"
| "edit_of (AwInitSession wss S A wid) [RSession x] s =
     Some (LoadTree (map (\<lambda>ws. (ws, if ws_id ws = wid then [x]
       else case obj_get S (ws_id ws) of Some l \<Rightarrow> l | None \<Rightarrow> [])) wss))"
| "edit_of AwFetchWorkspaces [RWorkspaces wss] s = Some (Reorder wss (session_list s))"
| "edit_of (AwCreateWorkspaceSession ws) [RSession x] s = Some (AddWorkspace ws x)"
| "edit_of (AwDeleteWorkspace wid) rs s = Some (RemoveWorkspace wid)"
| "edit_of (AwRenameWorkspace wid) [RWorkspace ws] s = Some (ReplaceWorkspace wid ws)"
| "edit_of (AwSetActiveWorkspace wid) [RSessions l] s = Some (SetSessions wid l)"
| "edit_of (AwFetchSessions wid) [RSessions l] s = Some (SetSessions wid l)"
| "edit_of (AwPollActive wid) [RSessions l] s =
     (if map shown (session_list s wid) = map shown l then None else Some (SetSessions wid l))"
| "edit_of (AwCreateSession wid) [RSession x] s = Some (AddSession wid x)"
| "edit_of (AwDeleteSession sid) rs s = in_active s (\<lambda>wid. RemoveSession wid sid)"
| "edit_of (AwRenameSession sid) [RSession x] s = in_active s (\<lambda>wid. ReplaceSession wid sid x)"
| "edit_of _ _ _ = None"

text \<open>What the server promises of the ids in its replies.\<close>

fun ids_ok :: "await \<Rightarrow> reply list \<Rightarrow> app_state \<Rightarrow> bool" where
  "ids_ok (AwInitLists wss) rs s \<longleftrightarrow> distinct (map ws_id wss) \<and> length (lists_of rs) = length wss"
| "ids_ok (AwCreateWorkspaceSession ws) rs s \<longleftrightarrow> ws_id ws \<notin> set (map ws_id (workspaces s))"
| "ids_ok (AwRenameWorkspace wid) [RWorkspace ws] s \<longleftrightarrow> ws_id ws = wid"
| "ids_ok _ _ _ \<longleftrightarrow> True"

fun event_edit :: "app_event \<Rightarrow> app_sys \<Rightarrow> tree_edit option" where
  "event_edit (Reply n rs) y =
     (case find_call n y of None \<Rightarrow> None | Some (aw, cs, fs) \<Rightarrow> edit_of aw rs (store (world y)))"
| "event_edit _ y = None"

fun event_ids_ok :: "app_event \<Rightarrow> app_sys \<Rightarrow> bool" where
  "event_ids_ok (Reply n rs) y =
     (case find_call n y of None \<Rightarrow> True | Some (aw, cs, fs) \<Rightarrow> ids_ok aw rs (store (world y)))"
| "event_ids_ok _ y = True"

section \<open>The operations refine the edits\<close>

definition same_tree :: "app_state \<Rightarrow> app_state \<Rightarrow> bool" where
  "same_tree s s' \<longleftrightarrow> workspaces s' = workspaces s
     \<and> (\<forall>wid. session_list s' wid = session_list s wid)"

lemma same_tree_tree: "same_tree s s' \<Longrightarrow> tree_of s' = tree_of s"
  by (simp add: same_tree_def tree_of_def)

lemma same_tree_refl [simp]: "same_tree s s"
  by (simp add: same_tree_def)

lemma same_tree_trans: "same_tree s t \<Longrightarrow> same_tree t u \<Longrightarrow> same_tree s u"
  by (simp add: same_tree_def)

lemma same_tree_sessions:
  "workspaces s' = workspaces s \<Longrightarrow> sessions s' = sessions s \<Longrightarrow> same_tree s s'"
  by (simp add: same_tree_def session_list_def)

lemma same_tree_ops:
  "same_tree (store w) (store (setActiveSession sid w))"
  "same_tree (store w) (store (clearSessionUnread sid w))"
  "same_tree (store w) (store (dismissToast tid w))"
  "same_tree (store w) (store (markSessionOutput sid w))"
  "same_tree (store w) (store (onVisibility v w))"
  by (auto intro!: same_tree_sessions simp: setActiveSession_def clearSessionUnread_def
      dismissToast_def onVisibility_def Let_def)

lemma same_tree_idle_mark: "same_tree s (idle_mark sid b s)"
  by (auto intro!: same_tree_sessions simp: idle_mark_def Let_def split: option.splits)

lemma same_tree_fire: "same_tree (store w) (store (fire_idle i w))"
proof (cases "timer_lookup (idleQueue w) i")
  case (Some p)
  then show ?thesis
    using same_tree_idle_mark [of "store w"]
    by (cases p) (auto simp: fire_idle_def idle_callback_def Let_def split: option.splits)
qed (simp add: fire_idle_def)

lemma same_tree_follow: "same_tree (store w) (store (fold run_follow fs w))"
proof (induction fs arbitrary: w)
  case (Cons f fs)
  have "same_tree (store w) (store (run_follow f w))" by (cases f) (auto simp: same_tree_ops)
  with Cons show ?case by (auto intro: same_tree_trans)
qed simp

lemma session_list_put:
  "session_list (s\<lparr>sessions := obj_put wid l S\<rparr>) k =
     (if k = wid then l else case obj_get S k of Some l \<Rightarrow> l | None \<Rightarrow> [])"
  by (simp add: session_list_def)

text \<open>An update that writes one workspace's list.\<close>

lemma tree_at_workspace:
  assumes "workspaces s' = workspaces s" and "sessions s' = obj_put wid (f (session_list s wid)) (sessions s)"
  shows "tree_of s' = at_workspace wid f (tree_of s)"
  using assms by (auto simp: tree_of_def at_workspace_def session_list_def)

lemma tree_switch:
  "tree_of (store (setActiveWorkspace_set wid l w)) = at_workspace wid (\<lambda>_. l) (tree_of (store w))"
  by (rule tree_at_workspace) (simp_all add: setActiveWorkspace_set_def Let_def)

lemma at_workspace_same:
  "at_workspace wid (\<lambda>_. session_list s wid) (tree_of s) = tree_of s"
  by (auto simp: at_workspace_def tree_of_def)

lemma tree_delete_workspace:
  "tree_of (store (deleteWorkspace_set wid w)) = filter (\<lambda>(x, l). ws_id x \<noteq> wid) (tree_of (store w))"
  by (auto simp: tree_of_def deleteWorkspace_set_def Let_def session_list_def filter_map comp_def)

lemma fresh_id: "ws_id ws \<notin> set (map ws_id wss) \<Longrightarrow> x \<in> set wss \<Longrightarrow> ws_id x \<noteq> ws_id ws"
  by (metis image_eqI list.set_map)

lemma tree_create_workspace:
  "ws_id ws \<notin> set (map ws_id (workspaces (store w))) \<Longrightarrow>
   tree_of (store (createWorkspace_set ws x w)) = tree_of (store w) @ [(ws, [x])]"
  by (simp add: tree_of_def createWorkspace_set_def Let_def session_list_def fresh_id del: set_map)

lemma tree_rename_workspace:
  "ws_id ws = wid \<Longrightarrow> tree_of (store (renameWorkspace_set wid ws w)) =
     map (\<lambda>(x, l). (if ws_id x = wid then ws else x, l)) (tree_of (store w))"
  by (auto simp: tree_of_def renameWorkspace_set_def session_list_def)

lemma tree_set_workspaces:
  "tree_of (store (set_workspaces wss w)) = map (\<lambda>x. (x, session_list (store w) (ws_id x))) wss"
  by (simp add: tree_of_def set_workspaces_def session_list_def)

lemma tree_set_sessions:
  "tree_of (store (set_sessions wid l w)) = at_workspace wid (\<lambda>_. l) (tree_of (store w))"
  by (rule tree_at_workspace) (simp_all add: set_sessions_def)

lemma tree_create_session:
  "tree_of (store (createSession_set wid x w)) = at_workspace wid (\<lambda>l. l @ [x]) (tree_of (store w))"
  by (rule tree_at_workspace) (simp_all add: createSession_set_def Let_def)

lemma tree_delete_session:
  "tree_of (store (deleteSession_set sid w)) =
    (if truthy (activeWorkspaceId (store w))
     then at_workspace (the (activeWorkspaceId (store w))) (filter (\<lambda>x. sess_id x \<noteq> sid)) (tree_of (store w))
     else tree_of (store w))"
  by (auto intro!: tree_at_workspace simp: deleteSession_set_def Let_def)

lemma tree_rename_session:
  "tree_of (store (renameSession_set sid u w)) =
    (if truthy (activeWorkspaceId (store w))
     then at_workspace (the (activeWorkspaceId (store w)))
       (map (\<lambda>x. if sess_id x = sid then u else x)) (tree_of (store w))
     else tree_of (store w))"
  by (auto intro!: tree_at_workspace simp: renameSession_set_def Let_def)

lemmas tree_ops = tree_set_workspaces tree_set_sessions tree_create_session tree_delete_session
  tree_rename_session tree_create_workspace tree_delete_workspace tree_rename_workspace tree_switch

lemma tree_init_set:
  "tree_of (store (init_set wss S A wid w)) =
     map (\<lambda>x. (x, case obj_get S (ws_id x) of Some l \<Rightarrow> l | None \<Rightarrow> [])) wss"
  by (simp add: tree_of_def init_set_def session_list_def)

section \<open>Loading\<close>

lemma init_tables_get:
  "init_tables ws ls S A = (S', A') \<Longrightarrow> distinct (map ws_id ws) \<Longrightarrow> length ls = length ws \<Longrightarrow>
   obj_get S' k = coalesce (map_of (zip (map ws_id ws) ls) k) (obj_get S k)
   \<and> obj_get A' k = coalesce (Option.bind (map_of (zip (map ws_id ws) ls) k)
        (\<lambda>l. map_option sess_id (head_opt l))) (obj_get A k)"
proof (induction ws ls S A arbitrary: S' A' rule: init_tables.induct)
  case (1 w ws l ls S A)
  have none: "map_of (zip (map ws_id ws) ls) (ws_id w) = None"
    using 1(3,4) by (simp add: map_of_zip_is_None)
  define A1 where "A1 = (case head_opt l of Some x \<Rightarrow> obj_put (ws_id w) (sess_id x) A | None \<Rightarrow> A)"
  have A1: "obj_get A1 k = (if k = ws_id w then coalesce (map_option sess_id (head_opt l)) (obj_get A k)
      else obj_get A k)"
    by (simp add: A1_def split: option.split)
  have "init_tables ws ls (obj_put (ws_id w) l S) A1 = (S', A')"
    using 1(2) by (simp add: A1_def)
  with 1(1) [of S' A'] 1(3,4) have IH: "obj_get S' k = coalesce (map_of (zip (map ws_id ws) ls) k) (obj_get (obj_put (ws_id w) l S) k)"
    "obj_get A' k = coalesce (Option.bind (map_of (zip (map ws_id ws) ls) k)
        (\<lambda>l. map_option sess_id (head_opt l))) (obj_get A1 k)"
    by (simp_all add: A1_def)
  show ?case
    using IH A1 none by (cases "k = ws_id w") simp_all
qed simp_all

lemma init_tables_zip:
  assumes "init_tables ws ls [] [] = (S, A)" and "distinct (map ws_id ws)" and "length ls = length ws"
  shows "map (\<lambda>x. (x, case obj_get S (ws_id x) of Some l \<Rightarrow> l | None \<Rightarrow> [])) ws = zip ws ls"
proof (rule nth_equalityI)
  fix i assume "i < length (map (\<lambda>x. (x, case obj_get S (ws_id x) of Some l \<Rightarrow> l | None \<Rightarrow> [])) ws)"
  then have i: "i < length ws" by simp
  with assms(2,3) have "map_of (zip (map ws_id ws) ls) (map ws_id ws ! i) = Some (ls ! i)"
    by (intro map_of_zip_nth) auto
  with i init_tables_get [OF assms, of "ws_id (ws ! i)"] assms(3)
  show "map (\<lambda>x. (x, case obj_get S (ws_id x) of Some l \<Rightarrow> l | None \<Rightarrow> [])) ws ! i = zip ws ls ! i"
    by simp
qed (use assms(3) in simp)

lemma init_first:
  assumes "init_tables (w # ws) (l # ls) [] [] = (S, A)" and "distinct (map ws_id (w # ws))"
    and "length ls = length ws"
  shows "obj_get S (ws_id w) = Some l"
  using init_tables_get [OF assms(1,2), of "ws_id w"] assms(3) by simp

lemma init_lists_eq:
  assumes "init_tables (ws # wss) (l # ls) [] [] = (S, A)" and "distinct (map ws_id (ws # wss))"
    and "length ls = length wss"
  shows "init_lists (ws # wss) (l # ls) w =
    (if l = [] then (w, Some (AwInitSession (ws # wss) S A (ws_id ws), [CreateSession (ws_id ws) None]))
     else (init_set (ws # wss) S A (ws_id ws) w, None))"
  by (simp only: init_lists_def Let_def list.case assms(1) prod.case init_first [OF assms] option.inject)

lemma tree_init_lists:
  assumes "distinct (map ws_id wss)" and "length ls = length wss"
  shows "tree_of (store (fst (init_lists wss ls w))) =
    (if wss = [] \<or> head_opt ls = Some [] then tree_of (store w) else zip wss ls)"
proof (cases wss)
  case (Cons ws wss')
  with assms(2) obtain l ls' where ls: "ls = l # ls'" and len: "length ls' = length wss'"
    by (cases ls) auto
  obtain S A where SA: "init_tables (ws # wss') (l # ls') [] [] = (S, A)" by fastforce
  show ?thesis
    using init_tables_zip [OF SA] assms len
    by (simp add: Cons ls init_lists_eq [OF SA] tree_init_set)
qed (simp add: init_lists_def)

section \<open>The simulation\<close>

lemma resume_tree:
  assumes "ids_ok aw rs (store w)"
  shows "tree_of (store (fst (resume aw rs w))) =
    (case edit_of aw rs (store w) of None \<Rightarrow> tree_of (store w)
     | Some ed \<Rightarrow> apply_edit ed (tree_of (store w)))"
  using assms
proof (cases "(aw, rs, store w)" rule: edit_of.cases)
  case (1 wss rs s)
  with assms show ?thesis by (auto simp: tree_init_lists)
qed (use assms in \<open>auto simp: tree_init_set tree_ops sessionsEqual_iff pollActive_set_def in_active_def
    with_workspaces_def with_workspace_def with_sessions_def with_session_def
    split: list.splits reply.splits\<close>)

lemma deliver_tree:
  assumes "find_call n y = Some (aw, cs, fs)" and "ids_ok aw rs (store (world y))"
  shows "tree_of (store (world (deliver n rs y))) =
    (case edit_of aw rs (store (world y)) of None \<Rightarrow> tree_of (store (world y))
     | Some ed \<Rightarrow> apply_edit ed (tree_of (store (world y))))"
  using assms(1) resume_tree [OF assms(2)] same_tree_tree [OF same_tree_follow]
  by (auto simp: deliver_def Let_def split: prod.splits option.splits)

lemma perform_tree: "tree_of (store (world (perform a y))) = tree_of (store (world y))"
proof -
  have sw: "tree_of (store (world (switch_workspace wid fs y))) = tree_of (store (world y))" for wid fs
  proof (cases "obj_get (sessions (store (world y))) wid")
    case (Some l)
    then have l: "session_list (store (world y)) wid = l" by (simp add: session_list_def)
    with Some show ?thesis
      using at_workspace_same [of wid "store (world y)"] same_tree_tree [OF same_tree_follow]
      by (simp add: switch_workspace_def tree_switch)
  qed (simp add: switch_workspace_def)
  show ?thesis
    using same_tree_tree [OF same_tree_follow]
    by (cases a) (simp_all add: sw toastClick_def Let_def del: fold.simps)
qed

text \<open>
  C11: Every step of the system refines the tree of workspaces and sessions: a reply performs exactly
  the edit it stands for, and no other event (a click, output, a timer, a rejection, a visibility
  change) alters the tree, provided the server gives a new workspace a new id and keeps the id of a
  renamed one.
\<close>
theorem tree_refinement:
  assumes "app_step y e y'" and "event_ids_ok e y"
  shows "tree_of (store (world y')) =
    (case event_edit e y of None \<Rightarrow> tree_of (store (world y))
     | Some ed \<Rightarrow> apply_edit ed (tree_of (store (world y))))"
  using assms
  by (cases rule: app_step.cases)
    (simp_all add: deliver_tree perform_tree pollTick_def same_tree_tree same_tree_ops same_tree_fire
      same_tree_sessions)

theorem tree_refinement_witness:
  "tree_of (store (world (exec_event
       (Reply 1 [RSessions [sample_session ''s1'' ''Shell'', sample_session ''s2'' ''Build'']])
       (after_run [Act Init, Reply 0 [RWorkspaces [sample_ws]]])))) =
     [(sample_ws, [sample_session ''s1'' ''Shell'', sample_session ''s2'' ''Build''])]"
proof -
  let ?y = "after_run [Act Init, Reply 0 [RWorkspaces [sample_ws]]]"
  let ?e = "Reply 1 [RSessions [sample_session ''s1'' ''Shell'', sample_session ''s2'' ''Build'']]"
  have "enabled ?e ?y" by code_simp
  then have e: "app_step ?y ?e (exec_event ?e ?y)" by (simp only: app_step_iff)
  have i: "event_ids_ok ?e ?y" by code_simp
  obtain n aw cs fs where c: "find_call 1 ?y = Some (aw, cs, fs)"
    and ed: "edit_of aw [RSessions [sample_session ''s1'' ''Shell'', sample_session ''s2'' ''Build'']]
      (store (world ?y)) = Some (LoadTree [(sample_ws,
        [sample_session ''s1'' ''Shell'', sample_session ''s2'' ''Build''])])"
  proof (rule that)
    show "find_call 1 ?y = Some (AwInitLists [sample_ws], [ListSessions ''w1''], [])" by code_simp
  qed simp
  then have "event_edit ?e ?y = Some (LoadTree [(sample_ws,
      [sample_session ''s1'' ''Shell'', sample_session ''s2'' ''Build''])])" by simp
  then show ?thesis using tree_refinement [OF e i] by simp
qed

text \<open>
  Loading at start, when the server lists workspaces with different ids: the store holds the
  workspaces in order with the lists the server gave, the first workspace and its first session are
  selected, every workspace remembers its first session, and a first workspace without sessions is
  given one with a single further request.
\<close>
lemma init_loads:
  assumes "distinct (map ws_id (ws # wss))" and "length ls = length wss"
  shows "case resume (AwInitLists (ws # wss)) (map RSessions (l # ls)) w of
      (w', None) \<Rightarrow> l \<noteq> [] \<and> tree_of (store w') = (ws, l) # zip wss ls
        \<and> activeWorkspaceId (store w') = Some (ws_id ws)
        \<and> activeSessionId (store w') = map_option sess_id (head_opt l) \<and> initialized (store w')
        \<and> same_alerts w w'
    | (w', Some (aw, cs)) \<Rightarrow> l = [] \<and> w' = w \<and> cs = [CreateSession (ws_id ws) None]
        \<and> (\<forall>x. tree_of (store (fst (resume aw [RSession x] w))) = (ws, [x]) # zip wss ls
             \<and> activeSessionId (store (fst (resume aw [RSession x] w))) = Some (sess_id x))"
proof -
  have lists: "lists_of (map RSessions ls) = ls" for ls by (induction ls) auto
  obtain S A where SA: "init_tables (ws # wss) (l # ls) [] [] = (S, A)" by fastforce
  have len: "length (l # ls) = length (ws # wss)" using assms(2) by simp
  note g = init_tables_get [OF SA assms(1) len, of "ws_id ws"]
  have S: "obj_get S (ws_id ws) = Some l"
    and A: "obj_get A (ws_id ws) = map_option sess_id (head_opt l)"
    using g by (cases "head_opt l"; simp)+
  have r: "resume (AwInitLists (ws # wss)) (map RSessions (l # ls)) w =
      (if l = [] then (w, Some (AwInitSession (ws # wss) S A (ws_id ws), [CreateSession (ws_id ws) None]))
       else (init_set (ws # wss) S A (ws_id ws) w, None))"
    unfolding resume.simps lists by (rule init_lists_eq [OF SA assms])
  have z: "map (\<lambda>x. (x, case obj_get S (ws_id x) of Some l \<Rightarrow> l | None \<Rightarrow> [])) (ws # wss)
      = (ws, l) # zip wss ls"
    using init_tables_zip [OF SA assms(1) len] by simp
  then have z': "map (\<lambda>x. (x, case obj_get S (ws_id x) of Some l \<Rightarrow> l | None \<Rightarrow> [])) wss = zip wss ls"
    by simp
  have new: "tree_of (store (init_set (ws # wss) (obj_put (ws_id ws) [x] S) B (ws_id ws) w))
      = (ws, [x]) # zip wss ls" for x B
  proof -
    have "map (\<lambda>y. (y, case obj_get (obj_put (ws_id ws) [x] S) (ws_id y) of Some l \<Rightarrow> l | None \<Rightarrow> [])) wss
        = map (\<lambda>x. (x, case obj_get S (ws_id x) of Some l \<Rightarrow> l | None \<Rightarrow> [])) wss"
      using assms(1) fresh_id [of ws wss] by (intro map_cong) (simp_all del: set_map)
    with z' show ?thesis by (simp add: tree_init_set)
  qed
  show ?thesis
  proof (cases "l = []")
    case True
    then show ?thesis using new unfolding r by simp (simp add: init_set_def)
  next
    case False
    have "same_alerts w (init_set (ws # wss) S A (ws_id ws) w)" by (rule same_alerts_sets)
    with False show ?thesis
      unfolding r by (simp add: tree_init_set z' S) (simp add: init_set_def A)
  qed
qed

end
