(* ===== verification/AppLate.thy ===== *)
theory AppLate
  imports AppTree
begin

text \<open>
  Replies that arrive late. The asynchronous operations read the state again when their reply comes,
  so what they do depends on what happened in between; these are the cases where the outcome is not
  what the click meant.
\<close>

text \<open>
  A poll's reply that arrives after its workspace was deleted writes the deleted workspace's
  sessions back into the store: the workspace is no longer listed, its sessions are again.
\<close>
lemma late_poll_revives_sessions:
  assumes "l \<noteq> []" and "w' = pollActive_set wid l (deleteWorkspace_set wid w)"
  shows "obj_get (sessions (store w')) wid = Some l \<and> wid \<notin> set (map ws_id (workspaces (store w')))"
proof -
  let ?w1 = "deleteWorkspace_set wid w"
  have gone: "session_list (store ?w1) wid = []"
    by (simp add: session_list_def deleteWorkspace_set_def Let_def)
  have "\<not> sessionsEqual [] l" using assms(1) by (simp add: sessionsEqual_def)
  with gone assms(2) have w': "w' = set_sessions wid l ?w1" by (simp add: pollActive_set_def)
  then show ?thesis by (auto simp: set_sessions_def deleteWorkspace_set_def Let_def)
qed

text \<open>
  A deletion of a session whose reply arrives after the user has switched to another workspace
  leaves the session listed in its own workspace, and remembered there: only the active workspace's
  list is edited.
\<close>
lemma late_delete_keeps_listed:
  assumes "activeWorkspaceId (store w) = Some b" and "a \<noteq> b"
  shows "session_list (store (deleteSession_set sid w)) a = session_list (store w) a
    \<and> obj_get (activeSessionByWorkspace (store (deleteSession_set sid w))) a
      = obj_get (activeSessionByWorkspace (store w)) a"
proof -
  have "activeWorkspaceId (store (cancelIdleTracking sid w)) = Some b" using assms(1) by simp
  then show ?thesis
    using assms(2) by (cases "b = []") (simp_all add: deleteSession_set_def Let_def session_list_def)
qed

text \<open>
  C12: Deleting the active session makes the next one active without viewing it: if that one was
  unread it stays unread, and its toast stays on the screen, unlike after a click on its tab.
\<close>
theorem delete_leaves_next_unread:
  assumes "activeWorkspaceId (store w) = Some wid" and "wid \<noteq> []"
    and "activeSessionId (store w) = Some sid"
    and "head_opt (filter (\<lambda>x. sess_id x \<noteq> sid) (session_list (store w) wid)) = Some x"
    and "sessionUnread (store w) (sess_id x)" and "t \<in> set (toasts (store w))"
    and "toast_sessionId t = sess_id x"
  shows "activeSessionId (store (deleteSession_set sid w)) = Some (sess_id x)
    \<and> sessionUnread (store (deleteSession_set sid w)) (sess_id x)
    \<and> t \<in> set (toasts (store (deleteSession_set sid w)))
    \<and> \<not> sessionUnread (store (setActiveSession (sess_id x) w)) (sess_id x)
    \<and> t \<notin> set (toasts (store (setActiveSession (sess_id x) w)))"
proof -
  have ne: "sess_id x \<noteq> sid" using head_opt_in [OF assms(4)] by simp
  then show ?thesis
    using assms
    by (simp add: deleteSession_set_def setActiveSession_def Let_def sessionUnread_alt
        drop_toasts_filter)
qed

theorem delete_leaves_next_unread_witness:
  "sessionUnread (store (deleteSession_set ''s1'' (world
     (after_run (load_events @ busy_events @ [FireIdle 2]))))) ''s2''"
proof -
  let ?w = "world (after_run (load_events @ busy_events @ [FireIdle 2]))"
  let ?x = "sample_session ''s2'' ''Build''"
  have 1: "activeWorkspaceId (store ?w) = Some ''w1''" and 2: "activeSessionId (store ?w) = Some ''s1''"
    and 3: "head_opt (filter (\<lambda>x. sess_id x \<noteq> ''s1'') (session_list (store ?w) ''w1'')) = Some ?x"
    and 4: "sessionUnread (store ?w) (sess_id ?x)"
    and 5: "toasts (store ?w) = [make_toast ''s2'' ''w1'' ''Build'' 600]"
    by code_simp+
  have 6: "toast_sessionId (make_toast ''s2'' ''w1'' ''Build'' 600) = sess_id ?x" by code_simp
  show ?thesis
    using delete_leaves_next_unread [OF 1 _ 2 3 4 _ 6] 5 by (simp add: sample_session_def)
qed

end
