(* ===== verification/Utf8.thy ===== *)
theory Utf8
  imports Prelude "HOL-Library.Word"
begin

text \<open>
  The text a terminal sends. A JavaScript string is a list of 16-bit code units; \<open>TextEncoder\<close> turns it
  into UTF-8 bytes, with U+FFFD for every lone surrogate; the binary path of xterm stores the low 8
  bits of each unit into a \<open>Uint8Array\<close>. A strict decoder states what the other side reads.
\<close>

type_synonym ustring = "16 word list"
type_synonym bytes = "8 word list"

definition units :: "string \<Rightarrow> ustring" where
  "units s = map (\<lambda>c. of_nat (of_char c)) s"

section \<open>Encoding\<close>

definition is_high :: "16 word \<Rightarrow> bool" where
  "is_high u \<longleftrightarrow> 0xD800 \<le> u \<and> u \<le> 0xDBFF"

definition is_low :: "16 word \<Rightarrow> bool" where
  "is_low u \<longleftrightarrow> 0xDC00 \<le> u \<and> u \<le> 0xDFFF"

definition join_pair :: "16 word \<Rightarrow> 16 word \<Rightarrow> nat" where
  "join_pair u v = 0x10000 + (unat u - 0xD800) * 0x400 + (unat v - 0xDC00)"

fun code_points :: "ustring \<Rightarrow> nat list" where
  "code_points [] = []"
| "code_points [u] = [if is_high u \<or> is_low u then 0xFFFD else unat u]"
| "code_points (u # v # us) =
     (if is_high u \<and> is_low v then join_pair u v # code_points us
      else (if is_high u \<or> is_low u then 0xFFFD else unat u) # code_points (v # us))"

definition utf8_char :: "nat \<Rightarrow> bytes" where
  "utf8_char c =
     (if c < 0x80 then [of_nat c]
      else if c < 0x800 then [of_nat (0xC0 + c div 0x40), of_nat (0x80 + c mod 0x40)]
      else if c < 0x10000 then
        [of_nat (0xE0 + c div 0x1000), of_nat (0x80 + c div 0x40 mod 0x40), of_nat (0x80 + c mod 0x40)]
      else
        [of_nat (0xF0 + c div 0x40000), of_nat (0x80 + c div 0x1000 mod 0x40),
         of_nat (0x80 + c div 0x40 mod 0x40), of_nat (0x80 + c mod 0x40)])"

definition TextEncoder_encode :: "ustring \<Rightarrow> bytes" where
  "TextEncoder_encode s = concat (map utf8_char (code_points s))"

text \<open>\<open>buf[i] = data.charCodeAt(i)\<close> for every \<open>i\<close>: storing into a \<open>Uint8Array\<close> keeps the low byte.\<close>

definition binary_bytes :: "ustring \<Rightarrow> bytes" where
  "binary_bytes s = map ucast s"

section \<open>The reader\<close>

definition is_cont :: "8 word \<Rightarrow> bool" where
  "is_cont b \<longleftrightarrow> 0x80 \<le> unat b \<and> unat b < 0xC0"

definition cont_val :: "8 word \<Rightarrow> nat" where
  "cont_val b = unat b - 0x80"

fun utf8_decode :: "bytes \<Rightarrow> nat list option" where
  "utf8_decode [] = Some []"
| "utf8_decode (a # r) =
     (let n = unat a in
      if n < 0x80 then map_option (Cons n) (utf8_decode r)
      else if n < 0xC0 then None
      else if n < 0xE0 then
        (case r of
           b # r' \<Rightarrow> if is_cont b then map_option (Cons ((n - 0xC0) * 0x40 + cont_val b)) (utf8_decode r')
                     else None
         | [] \<Rightarrow> None)
      else if n < 0xF0 then
        (case r of
           b # c # r' \<Rightarrow> if is_cont b \<and> is_cont c
             then map_option (Cons ((n - 0xE0) * 0x1000 + cont_val b * 0x40 + cont_val c)) (utf8_decode r')
             else None
         | _ \<Rightarrow> None)
      else
        (case r of
           b # c # d # r' \<Rightarrow> if is_cont b \<and> is_cont c \<and> is_cont d
             then map_option (Cons ((n - 0xF0) * 0x40000 + cont_val b * 0x1000 + cont_val c * 0x40
                     + cont_val d)) (utf8_decode r')
             else None
         | _ \<Rightarrow> None))"

definition utf16_char :: "nat \<Rightarrow> ustring" where
  "utf16_char c =
     (if c < 0x10000 then [of_nat c]
      else [of_nat (0xD800 + (c - 0x10000) div 0x400), of_nat (0xDC00 + (c - 0x10000) mod 0x400)])"

fun paired :: "ustring \<Rightarrow> bool" where
  "paired [] \<longleftrightarrow> True"
| "paired [u] \<longleftrightarrow> \<not> is_high u \<and> \<not> is_low u"
| "paired (u # v # us) \<longleftrightarrow>
     (if is_high u then is_low v \<and> paired us else \<not> is_low u \<and> paired (v # us))"

section \<open>Bytes and code units\<close>

lemma unat_byte: "n < 256 \<Longrightarrow> unat (of_nat n :: 8 word) = n"
  by (simp add: unat_of_nat)

lemma unat_unit: "n < 65536 \<Longrightarrow> unat (of_nat n :: 16 word) = n"
  by (simp add: unat_of_nat)

lemma unit_less: "unat (u :: 16 word) < 65536"
proof -
  have "unat u < 2 ^ LENGTH(16)" by (rule unsigned_less)
  then show ?thesis by simp
qed

lemma cont_byte [simp]: "n < 0x40 \<Longrightarrow> is_cont (of_nat (0x80 + n))" "n < 0x40 \<Longrightarrow> cont_val (of_nat (0x80 + n)) = n"
  by (simp_all add: is_cont_def cont_val_def unat_byte del: of_nat_add)

lemma is_high_unat: "is_high u \<longleftrightarrow> 0xD800 \<le> unat u \<and> unat u < 0xDC00"
  and is_low_unat: "is_low u \<longleftrightarrow> 0xDC00 \<le> unat u \<and> unat u < 0xE000"
  by (auto simp: is_high_def is_low_def word_le_nat_alt)

lemma join_pair_bounds: "is_high u \<Longrightarrow> is_low v \<Longrightarrow> 0x10000 \<le> join_pair u v \<and> join_pair u v < 0x110000"
  by (auto simp: join_pair_def is_high_unat is_low_unat)

lemma utf16_join: "is_high u \<Longrightarrow> is_low v \<Longrightarrow> utf16_char (join_pair u v) = [u, v]"
proof -
  assume uv: "is_high u" "is_low v"
  then have "unat v - 0xDC00 < 0x400" by (auto simp: is_low_unat)
  moreover have "join_pair u v - 0x10000 = (unat u - 0xD800) * 0x400 + (unat v - 0xDC00)"
    by (simp add: join_pair_def)
  ultimately have "(join_pair u v - 0x10000) div 0x400 = unat u - 0xD800"
    and "(join_pair u v - 0x10000) mod 0x400 = unat v - 0xDC00"
    by (metis div_mult_self3 div_less add_0_right mult.commute zero_neq_numeral, metis mod_mult_self3 mod_less)
  with uv join_pair_bounds [OF uv] show ?thesis
    by (auto simp: utf16_char_def is_high_unat is_low_unat simp del: of_nat_add of_nat_diff)
qed

lemma utf16_unit: "utf16_char (unat u) = [u]"
  using unit_less [of u] by (simp add: utf16_char_def)

lemma code_points_bound: "c \<in> set (code_points s) \<Longrightarrow> c < 0x110000"
proof (induction s rule: code_points.induct)
  case (2 u)
  then show ?case using unit_less [of u] by (auto split: if_splits)
next
  case (3 u v us)
  then show ?case using join_pair_bounds [of u v] unit_less [of u] by (auto split: if_splits)
qed simp

lemma utf16_code_points: "paired s \<Longrightarrow> concat (map utf16_char (code_points s)) = s"
  by (induction s rule: paired.induct) (auto simp: utf16_unit utf16_join split: if_splits)

lemma decode_char:
  assumes "c < 0x110000"
  shows "utf8_decode (utf8_char c @ bs) = map_option (Cons c) (utf8_decode bs)"
proof -
  have sixes: "c = c div 0x40 * 0x40 + c mod 0x40"
    "c div 0x40 = c div 0x1000 * 0x40 + c div 0x40 mod 0x40"
    "c div 0x1000 = c div 0x40000 * 0x40 + c div 0x1000 mod 0x40"
    using div_mult_mod_eq [of c "0x40"] div_mult_mod_eq [of "c div 0x40" "0x40"]
      div_mult_mod_eq [of "c div 0x1000" "0x40"] by (simp_all add: div_mult2_eq [symmetric])
  consider "c < 0x80" | "0x80 \<le> c" "c < 0x800" | "0x800 \<le> c" "c < 0x10000" | "0x10000 \<le> c"
    by linarith
  then show ?thesis
  proof cases
    case 1
    then show ?thesis by (simp add: utf8_char_def unat_byte Let_def)
  next
    case 2
    have n: "unat (of_nat (0xC0 + c div 0x40) :: 8 word) = 0xC0 + c div 0x40"
      using 2 by (intro unat_byte) simp
    have "(0xC0 + c div 0x40 - 0xC0) * 0x40 + c mod 0x40 = c" by simp
    with 2 n show ?thesis by (simp add: utf8_char_def Let_def less_mult_imp_div_less del: of_nat_add)
  next
    case 3
    have n: "unat (of_nat (0xE0 + c div 0x1000) :: 8 word) = 0xE0 + c div 0x1000"
      using 3 by (intro unat_byte) simp
    have "c div 0x1000 * 0x1000 + c div 0x40 mod 0x40 * 0x40 + c mod 0x40 = c"
      using sixes by linarith
    with 3 n show ?thesis by (simp add: utf8_char_def Let_def less_mult_imp_div_less del: of_nat_add)
  next
    case 4
    have n: "unat (of_nat (0xF0 + c div 0x40000) :: 8 word) = 0xF0 + c div 0x40000"
      using assms by (intro unat_byte) simp
    have "c div 0x40000 * 0x40000 + c div 0x1000 mod 0x40 * 0x1000 + c div 0x40 mod 0x40 * 0x40
        + c mod 0x40 = c"
      using sixes by linarith
    with 4 assms n show ?thesis
      by (simp add: utf8_char_def Let_def less_mult_imp_div_less del: of_nat_add)
  qed
qed

lemma decode_chars: "(\<forall>c \<in> set cs. c < 0x110000) \<Longrightarrow> utf8_decode (concat (map utf8_char cs)) = Some cs"
  by (induction cs) (simp_all add: decode_char)

section \<open>Properties\<close>

lemma encode_decode:
  "utf8_decode (TextEncoder_encode s) = Some (code_points s)"
  "paired s \<Longrightarrow> concat (map utf16_char (code_points s)) = s"
  using decode_chars [of "code_points s"] code_points_bound [of _ s] utf16_code_points [of s]
  by (auto simp: TextEncoder_encode_def)

text \<open>
  The binary path sends one byte per code unit, the unit modulo 256, so exactly the units below
  256 survive.
\<close>
lemma binary_truncates:
  "length (binary_bytes s) = length s \<and> map unat (binary_bytes s) = map (\<lambda>u. unat u mod 256) s
   \<and> (map unat (binary_bytes s) = map unat s \<longleftrightarrow> (\<forall>u \<in> set s. unat u < 256))"
proof -
  have u: "unat (ucast u :: 8 word) = unat u mod 256" for u :: "16 word"
    by (simp add: unsigned_ucast_eq take_bit_eq_mod)
  have "unat u mod 256 = unat u \<longleftrightarrow> unat u < 256" for u :: "16 word"
    by (metis mod_less mod_less_divisor zero_less_numeral)
  then show ?thesis by (simp add: binary_bytes_def u comp_def)
qed

end
