(* ===== verification/Theme.thy ===== *)
theory Theme
  imports JsObject
begin

text \<open>
  Themes: the palettes and functions of \<open>frontend/src/lib/theme.ts\<close>, the persisted mode of
  \<open>stores/themeStore.ts\<close>, the hook \<open>useEffectiveTheme\<close> with what it writes into the document, and
  \<open>useMediaQuery\<close>. The browser's storage and media queries are modelled by what the code may observe
  of them: absent, throwing, or working.
\<close>

section \<open>Palettes\<close>

datatype theme_mode = SystemMode | LightMode | DarkMode

datatype effective_theme = LightTheme | DarkTheme

record ui_colors =
  ui_appBg :: string
  ui_sidebarBg :: string
  ui_sidebarBorder :: string
  ui_tabBarBg :: string
  ui_tabActiveBg :: string
  ui_tabInactiveBg :: string
  ui_tabBorder :: string
  ui_textPrimary :: string
  ui_textSecondary :: string
  ui_textMuted :: string
  ui_accent :: string
  ui_danger :: string
  ui_warning :: string
  ui_terminalBg :: string
  ui_overlayBg :: string
  ui_hoverBg :: string
  ui_dropOverlayBg :: string
  ui_dropOverlayBorder :: string
  ui_dropOverlayText :: string
  ui_metaThemeColor :: string

record term_theme =
  tt_background :: string
  tt_foreground :: string
  tt_cursor :: string
  tt_cursorAccent :: string
  tt_selectionBackground :: string
  tt_selectionForeground :: string
  tt_black :: string
  tt_red :: string
  tt_green :: string
  tt_yellow :: string
  tt_blue :: string
  tt_magenta :: string
  tt_cyan :: string
  tt_white :: string
  tt_brightBlack :: string
  tt_brightRed :: string
  tt_brightGreen :: string
  tt_brightYellow :: string
  tt_brightBlue :: string
  tt_brightMagenta :: string
  tt_brightCyan :: string
  tt_brightWhite :: string

definition darkUI :: ui_colors where
  "darkUI = \<lparr>
    ui_appBg = ''#0d1117'', ui_sidebarBg = ''#010409'', ui_sidebarBorder = ''#21262d'',
    ui_tabBarBg = ''#0d1117'', ui_tabActiveBg = ''#161b22'', ui_tabInactiveBg = ''#0d1117'',
    ui_tabBorder = ''#21262d'', ui_textPrimary = ''#c9d1d9'', ui_textSecondary = ''#8b949e'',
    ui_textMuted = ''#484f58'', ui_accent = ''#58a6ff'', ui_danger = ''#ff7b72'',
    ui_warning = ''#e3b341'', ui_terminalBg = ''#0d1117'',
    ui_overlayBg = ''rgba(0, 0, 0, 0.65)'', ui_hoverBg = ''rgba(255, 255, 255, 0.06)'',
    ui_dropOverlayBg = ''rgba(126, 20, 255, 0.22)'', ui_dropOverlayBorder = ''#a274ff'',
    ui_dropOverlayText = ''#f0e9ff'', ui_metaThemeColor = ''#0d1117''\<rparr>"

definition lightUI :: ui_colors where
  "lightUI = \<lparr>
    ui_appBg = ''#ffffff'', ui_sidebarBg = ''#f6f8fa'', ui_sidebarBorder = ''#d0d7de'',
    ui_tabBarBg = ''#ffffff'', ui_tabActiveBg = ''#ffffff'', ui_tabInactiveBg = ''#f6f8fa'',
    ui_tabBorder = ''#d0d7de'', ui_textPrimary = ''#1f2328'', ui_textSecondary = ''#59636e'',
    ui_textMuted = ''#818b98'', ui_accent = ''#0969da'', ui_danger = ''#cf222e'',
    ui_warning = ''#7d4e00'', ui_terminalBg = ''#ffffff'',
    ui_overlayBg = ''rgba(0, 0, 0, 0.45)'', ui_hoverBg = ''rgba(0, 0, 0, 0.06)'',
    ui_dropOverlayBg = ''rgba(105, 33, 255, 0.10)'', ui_dropOverlayBorder = ''#6639ba'',
    ui_dropOverlayText = ''#3a1a78'', ui_metaThemeColor = ''#f6f8fa''\<rparr>"

definition darkTerminalTheme :: term_theme where
  "darkTerminalTheme = \<lparr>
    tt_background = ''#0d1117'', tt_foreground = ''#c9d1d9'', tt_cursor = ''#58a6ff'',
    tt_cursorAccent = ''#0d1117'', tt_selectionBackground = ''#264f78'',
    tt_selectionForeground = ''#ffffff'', tt_black = ''#7d8590'', tt_red = ''#ff7b72'',
    tt_green = ''#3fb950'', tt_yellow = ''#d29922'', tt_blue = ''#58a6ff'',
    tt_magenta = ''#bc8cff'', tt_cyan = ''#39d2c0'', tt_white = ''#c9d1d9'',
    tt_brightBlack = ''#9da7b3'', tt_brightRed = ''#ffa198'', tt_brightGreen = ''#56d364'',
    tt_brightYellow = ''#e3b341'', tt_brightBlue = ''#79c0ff'', tt_brightMagenta = ''#d2a8ff'',
    tt_brightCyan = ''#56d4dd'', tt_brightWhite = ''#f0f6fc''\<rparr>"

definition lightTerminalTheme :: term_theme where
  "lightTerminalTheme = \<lparr>
    tt_background = ''#ffffff'', tt_foreground = ''#1f2328'', tt_cursor = ''#0969da'',
    tt_cursorAccent = ''#ffffff'', tt_selectionBackground = ''#b6e3ff'',
    tt_selectionForeground = ''#0a3069'', tt_black = ''#24292f'', tt_red = ''#cf222e'',
    tt_green = ''#116329'', tt_yellow = ''#7d4e00'', tt_blue = ''#0550ae'',
    tt_magenta = ''#6639ba'', tt_cyan = ''#0e6772'', tt_white = ''#57606a'',
    tt_brightBlack = ''#3d444d'', tt_brightRed = ''#a40e26'', tt_brightGreen = ''#055d20'',
    tt_brightYellow = ''#633c01'', tt_brightBlue = ''#0a3069'', tt_brightMagenta = ''#512a91'',
    tt_brightCyan = ''#0a4f57'', tt_brightWhite = ''#1f2328''\<rparr>"

definition uiFor :: "effective_theme \<Rightarrow> ui_colors" where
  "uiFor th = (if th = LightTheme then lightUI else darkUI)"

definition terminalThemeFor :: "effective_theme \<Rightarrow> term_theme" where
  "terminalThemeFor th = (if th = LightTheme then lightTerminalTheme else darkTerminalTheme)"

definition nextThemeMode :: "theme_mode \<Rightarrow> theme_mode" where
  "nextThemeMode current =
     (if current = SystemMode then LightMode else if current = LightMode then DarkMode else SystemMode)"

section \<open>The stored mode\<close>

text \<open>
  \<open>localStorage\<close> may be missing, may throw on every access, or may hold a dictionary; a write to it
  may be refused (\<open>can_write\<close>), which throws too.
\<close>

datatype storage = NoStorage | ThrowingStorage | Storage bool "string jsobj"

definition STORAGE_KEY :: string where "STORAGE_KEY = ''lociterm-theme''"

definition mode_name :: "theme_mode \<Rightarrow> string" where
  "mode_name m = (case m of SystemMode \<Rightarrow> ''system'' | LightMode \<Rightarrow> ''light'' | DarkMode \<Rightarrow> ''dark'')"

definition isMode :: "string option \<Rightarrow> theme_mode option" where
  "isMode v =
     (if v = Some ''system'' then Some SystemMode
      else if v = Some ''light'' then Some LightMode
      else if v = Some ''dark'' then Some DarkMode else None)"

definition getItem :: "string \<Rightarrow> storage \<Rightarrow> unit + string option" where
  "getItem k st = (case st of Storage _ ob \<Rightarrow> Inr (obj_get ob k) | _ \<Rightarrow> Inl ())"

definition setItem :: "string \<Rightarrow> string \<Rightarrow> storage \<Rightarrow> unit + storage" where
  "setItem k v st =
     (case st of Storage can_write ob \<Rightarrow> if can_write then Inr (Storage can_write (obj_put k v ob)) else Inl ()
      | _ \<Rightarrow> Inl ())"

definition loadMode :: "storage \<Rightarrow> theme_mode" where
  "loadMode st =
     (if st = NoStorage then SystemMode
      else case getItem STORAGE_KEY st of
             Inl _ \<Rightarrow> SystemMode
           | Inr v \<Rightarrow> (case isMode v of Some m \<Rightarrow> m | None \<Rightarrow> SystemMode))"

definition saveMode :: "theme_mode \<Rightarrow> storage \<Rightarrow> storage" where
  "saveMode m st =
     (if st = NoStorage then st
      else case setItem STORAGE_KEY (mode_name m) st of Inl _ \<Rightarrow> st | Inr st' \<Rightarrow> st')"

section \<open>The effective theme and the document\<close>

text \<open>
  \<open>matchMedia\<close> is \<open>None\<close> where the browser has none, otherwise whether the query matches now.
\<close>

definition readSystemTheme :: "bool option \<Rightarrow> effective_theme" where
  "readSystemTheme light =
     (case light of None \<Rightarrow> DarkTheme | Some b \<Rightarrow> if b then LightTheme else DarkTheme)"

definition theme_name :: "effective_theme \<Rightarrow> string" where
  "theme_name th = (case th of LightTheme \<Rightarrow> ''light'' | DarkTheme \<Rightarrow> ''dark'')"

record document =
  colorScheme :: string
  dataset_theme :: string
  theme_color :: "string option"

record theme_state =
  themeMode :: theme_mode
  themeStorage :: storage
  systemTheme :: effective_theme
  listening :: bool
  doc :: document

definition effective_of :: "theme_mode \<Rightarrow> effective_theme \<Rightarrow> effective_theme" where
  "effective_of m sys = (case m of SystemMode \<Rightarrow> sys | LightMode \<Rightarrow> LightTheme | DarkMode \<Rightarrow> DarkTheme)"

definition effective :: "theme_state \<Rightarrow> effective_theme" where
  "effective s = effective_of (themeMode s) (systemTheme s)"

text \<open>
  The effect on the document: the \<open>theme-color\<close> meta element is created when it is missing. It runs
  after a render in which the effective theme changed, and after the first one.
\<close>

definition write_document :: "effective_theme \<Rightarrow> document \<Rightarrow> document" where
  "write_document th d =
     d\<lparr>colorScheme := theme_name th, dataset_theme := theme_name th,
       theme_color := Some (ui_metaThemeColor (uiFor th))\<rparr>"

definition rerender :: "effective_theme \<Rightarrow> theme_state \<Rightarrow> theme_state" where
  "rerender before s =
     (if effective s = before then s else s\<lparr>doc := write_document (effective s) (doc s)\<rparr>)"

definition mount_theme :: "bool option \<Rightarrow> storage \<Rightarrow> document \<Rightarrow> theme_state" where
  "mount_theme light st d =
     (let m = loadMode st; sys = readSystemTheme light in
      \<lparr>themeMode = m, themeStorage = st, systemTheme = sys, listening = (light \<noteq> None),
       doc = write_document (effective_of m sys) d\<rparr>)"

definition setMode :: "theme_mode \<Rightarrow> theme_state \<Rightarrow> theme_state" where
  "setMode m s = rerender (effective s) (s\<lparr>themeStorage := saveMode m (themeStorage s), themeMode := m\<rparr>)"

definition cycleMode :: "theme_state \<Rightarrow> theme_state" where
  "cycleMode s = setMode (nextThemeMode (themeMode s)) s"

definition system_change :: "bool \<Rightarrow> theme_state \<Rightarrow> theme_state" where
  "system_change matches s =
     (if listening s
      then rerender (effective s) (s\<lparr>systemTheme := (if matches then LightTheme else DarkTheme)\<rparr>)
      else s)"

datatype theme_event = SetMode theme_mode | CycleMode | SystemChange bool

fun theme_exec :: "theme_event \<Rightarrow> theme_state \<Rightarrow> theme_state" where
  "theme_exec (SetMode m) s = setMode m s"
| "theme_exec CycleMode s = cycleMode s"
| "theme_exec (SystemChange b) s = system_change b s"

definition theme_step :: "theme_state \<Rightarrow> theme_event \<Rightarrow> theme_state \<Rightarrow> bool" where
  "theme_step s e s' \<longleftrightarrow> s' = theme_exec e s"

definition theme_start :: "theme_state \<Rightarrow> bool" where
  "theme_start s \<longleftrightarrow> (\<exists>light st d. s = mount_theme light st d)"

section \<open>Media queries\<close>

text \<open>\<open>useMediaQuery\<close>: the first value, the value after the effect, and the change handler.\<close>

definition read_query :: "bool option \<Rightarrow> bool" where
  "read_query q = (case q of None \<Rightarrow> False | Some b \<Rightarrow> b)"

definition query_effect :: "bool option \<Rightarrow> bool \<Rightarrow> bool" where
  "query_effect q matches = (case q of None \<Rightarrow> matches | Some b \<Rightarrow> b)"

definition query_change :: "bool option \<Rightarrow> bool \<Rightarrow> bool \<Rightarrow> bool" where
  "query_change q e matches = (case q of None \<Rightarrow> matches | Some _ \<Rightarrow> e)"

section \<open>Properties\<close>

lemma isMode_name [simp]: "isMode (Some (mode_name m)) = Some m"
  by (cases m) (simp_all add: isMode_def mode_name_def)

lemma effective_mode: "effective (s\<lparr>themeStorage := st\<rparr>) = effective s" "effective (s\<lparr>doc := d\<rparr>) = effective s"
  by (simp_all add: effective_def)

text \<open>The document shows the effective theme.\<close>

definition in_sync :: "theme_state \<Rightarrow> bool" where
  "in_sync s \<longleftrightarrow> colorScheme (doc s) = theme_name (effective s)
     \<and> dataset_theme (doc s) = theme_name (effective s)
     \<and> theme_color (doc s) = Some (ui_metaThemeColor (uiFor (effective s)))"

text \<open>A working storage holds the mode once it was set.\<close>

definition stored_ok :: "storage \<Rightarrow> theme_mode \<Rightarrow> bool" where
  "stored_ok st m \<longleftrightarrow> (case st of Storage True ob \<Rightarrow> loadMode st = m | _ \<Rightarrow> True)"

definition stored_mode :: "theme_state \<Rightarrow> bool" where
  "stored_mode s \<longleftrightarrow> stored_ok (themeStorage s) (themeMode s)"

lemma in_sync_rerender:
  assumes "in_sync s" and "doc s' = doc s"
  shows "in_sync (rerender (effective s) s')"
  using assms by (auto simp: rerender_def in_sync_def write_document_def effective_mode)

lemma rerender_keeps [simp]:
  "themeStorage (rerender th s) = themeStorage s" "themeMode (rerender th s) = themeMode s"
  by (simp_all add: rerender_def)

lemma stored_save [simp]: "stored_ok (saveMode m st) m"
  by (auto simp: stored_ok_def saveMode_def loadMode_def setItem_def getItem_def
      split: storage.splits bool.splits)

lemma stored_load [simp]: "stored_ok st (loadMode st)"
  by (simp add: stored_ok_def split: storage.split bool.split)

definition theme_inv :: "theme_state \<Rightarrow> bool" where
  "theme_inv s \<longleftrightarrow> in_sync s \<and> stored_mode s"

lemma theme_inv_start: "theme_start s \<Longrightarrow> theme_inv s"
  by (auto simp: theme_start_def theme_inv_def mount_theme_def Let_def in_sync_def stored_mode_def
      write_document_def effective_def)

lemma theme_inv_step: "theme_inv s \<Longrightarrow> theme_step s e t \<Longrightarrow> theme_inv t"
  by (cases e) (auto simp: theme_step_def theme_inv_def setMode_def cycleMode_def system_change_def
      in_sync_rerender stored_mode_def)

interpretation thm_theme: invariant_machine theme_start theme_step theme_inv
  by unfold_locales (rule theme_inv_start theme_inv_step; assumption)+

text \<open>
  C24: Whatever sequence of mode changes, clicks on the theme button and changes of the system
  preference happens after the first render, the document's color scheme, its \<open>data-theme\<close> and its
  \<open>theme-color\<close> are those of the effective theme, and a storage that accepts writes holds the mode, so
  a reload starts in it.
\<close>
theorem document_follows_theme:
  assumes "run_path theme_step (mount_theme light st d) es s"
  shows "colorScheme (doc s) = theme_name (effective s)
    \<and> dataset_theme (doc s) = theme_name (effective s)
    \<and> theme_color (doc s) = Some (ui_metaThemeColor (uiFor (effective s)))
    \<and> (case themeStorage s of
         Storage True ob \<Rightarrow> themeMode (mount_theme light' (themeStorage s) d') = themeMode s | _ \<Rightarrow> True)"
proof -
  have "theme_start (mount_theme light st d)" by (auto simp: theme_start_def)
  from thm_theme.start_run_inv [OF this assms] show ?thesis
    by (auto simp: theme_inv_def in_sync_def stored_mode_def stored_ok_def mount_theme_def Let_def
        split: storage.splits bool.splits)
qed

theorem document_follows_theme_witness:
  "let s = theme_exec (SystemChange False) (theme_exec (SetMode LightMode)
       (mount_theme (Some True) (Storage True []) \<lparr>colorScheme = [], dataset_theme = [], theme_color = None\<rparr>))
   in colorScheme (doc s) = theme_name (effective s) \<and> effective s = LightTheme"
proof -
  let ?d = "\<lparr>colorScheme = [], dataset_theme = [], theme_color = None\<rparr>"
  let ?s = "theme_exec (SystemChange False) (theme_exec (SetMode LightMode)
       (mount_theme (Some True) (Storage True []) ?d))"
  have "run_path theme_step (mount_theme (Some True) (Storage True []) ?d)
      [SetMode LightMode, SystemChange False] ?s"
    by (simp add: run_path_Cons theme_step_def)
  from document_follows_theme [OF this] have "colorScheme (doc ?s) = theme_name (effective ?s)" by blast
  moreover have "effective ?s = LightTheme" by code_simp
  ultimately show ?thesis by (simp only: Let_def simp_thms)
qed

text \<open>
  The theme button goes through all three modes and is back after three clicks, and it never
  gives the mode it started from; a mode that is not \<open>system\<close> does not depend on the system.
\<close>
lemma theme_button_cycles:
  "(nextThemeMode ^^ 3) m = m \<and> {m, nextThemeMode m, nextThemeMode (nextThemeMode m)} = UNIV
   \<and> nextThemeMode m \<noteq> m
   \<and> (m = SystemMode \<or> effective_of m a = effective_of m b)"
proof -
  have "{SystemMode, LightMode, DarkMode} = UNIV" using theme_mode.exhaust by blast
  then show ?thesis
    by (cases m) (auto simp: nextThemeMode_def eval_nat_numeral effective_of_def)
qed

end
