(* ===== verification/Terminal.thy ===== *)
theory Terminal
  imports Http Timers Utf8 Theme
begin

text \<open>
  The terminal hook of \<open>frontend/src/hooks/useTerminal.ts\<close> and the key handler of \<open>shiftEnter.ts\<close>: the
  cache of terminal instances, their WebSockets with ticket, backoff and reconnect timers, the resize
  debounce, the input listeners with the IME rules, and the React effect that mounts a session.
  Instances and sockets are objects, captured by closures, so they have identities in a heap. What
  xterm does is recorded in a log of effects; what the browser decides (dimensions, random numbers,
  when a socket opens or closes) comes with the events.
\<close>

section \<open>Sockets\<close>

datatype ready_state = CONNECTING | OPEN | CLOSING | CLOSED

fun ready_code :: "ready_state \<Rightarrow> nat" where
  "ready_code CONNECTING = 0"
| "ready_code OPEN = 1"
| "ready_code CLOSING = 2"
| "ready_code CLOSED = 3"

instantiation ready_state :: linorder
begin

definition less_eq_ready_state :: "ready_state \<Rightarrow> ready_state \<Rightarrow> bool" where
  "less_eq_ready_state a b \<longleftrightarrow> ready_code a \<le> ready_code b"

definition less_ready_state :: "ready_state \<Rightarrow> ready_state \<Rightarrow> bool" where
  "less_ready_state a b \<longleftrightarrow> ready_code a < ready_code b"

instance
proof
  fix a b c :: ready_state
  show "a \<le> b \<Longrightarrow> b \<le> a \<Longrightarrow> a = b"
    by (cases a; cases b) (simp_all add: less_eq_ready_state_def)
qed (auto simp: less_eq_ready_state_def less_ready_state_def)

end

record socket =
  sock_inst :: nat
  sock_sid :: string
  sock_state :: ready_state
  sock_url :: string

section \<open>Instances\<close>

text \<open>
  The fields of \<open>TerminalInstance\<close>, then what xterm keeps for it: whether it was opened, the container
  its element is in, how many times the input listeners were registered, the theme, and whether it
  was disposed.
\<close>

record term_inst =
  ti_ws :: "nat option"
  connecting :: bool
  ti_webgl :: "nat option"
  reconnectTimer :: "nat option"
  lastSentCols :: "nat option"
  lastSentRows :: "nat option"
  resizeDebounceTimer :: "nat option"
  attached :: bool
  listenersBound :: bool
  composing :: bool
  compositionSuppressUntil :: int
  reconnectAttempts :: nat
  ti_opened :: bool
  ti_parent :: "nat option"
  ti_listeners :: nat
  ti_theme :: term_theme
  ti_disposed :: bool

definition createInstance :: "term_theme \<Rightarrow> term_inst" where
  "createInstance th = \<lparr>ti_ws = None, connecting = False, ti_webgl = None, reconnectTimer = None,
     lastSentCols = None, lastSentRows = None, resizeDebounceTimer = None, attached = False,
     listenersBound = False, composing = False, compositionSuppressUntil = 0, reconnectAttempts = 0,
     ti_opened = False, ti_parent = None, ti_listeners = 0, ti_theme = th, ti_disposed = False\<rparr>"

datatype term_cb = CbReconnect nat string | CbResize nat string

datatype term_eff =
    NewSocket nat string
  | SendBytes nat bytes
  | SendText nat string
  | CloseSocket nat
  | WriteTerm nat bytes
  | WritelnTerm nat string
  | MarkOutput string
  | FitTerm nat
  | RefreshTerm nat
  | PasteTerm nat string
  | Warn string

type_synonym dims = "(nat \<times> nat) option"

record term_world =
  instances :: "string \<rightharpoonup> nat"
  heap :: "nat \<Rightarrow> term_inst"
  next_inst :: nat
  socks :: "nat \<Rightarrow> socket"
  next_sock :: nat
  tickets :: "(nat \<times> nat \<times> string) list"
  next_ticket :: nat
  next_gl :: nat
  tqueue :: "term_cb timers"
  tclock :: int
  previousSessionId :: "string option"
  observing :: "(string \<times> nat) option"
  page_https :: bool
  page_host :: string
  tlog :: "term_eff list"

definition set_inst :: "nat \<Rightarrow> (term_inst \<Rightarrow> term_inst) \<Rightarrow> term_world \<Rightarrow> term_world" where
  "set_inst i f w = w\<lparr>heap := (heap w)(i := f (heap w i))\<rparr>"

definition set_sock :: "nat \<Rightarrow> ready_state \<Rightarrow> term_world \<Rightarrow> term_world" where
  "set_sock s r w = w\<lparr>socks := (socks w)(s := (socks w s)\<lparr>sock_state := r\<rparr>)\<rparr>"

definition log_eff :: "term_eff \<Rightarrow> term_world \<Rightarrow> term_world" where
  "log_eff x w = w\<lparr>tlog := tlog w @ [x]\<rparr>"

definition ws_state :: "term_world \<Rightarrow> nat \<Rightarrow> ready_state option" where
  "ws_state w i = map_option (\<lambda>s. sock_state (socks w s)) (ti_ws (heap w i))"

section \<open>Connecting\<close>

text \<open>
  \<open>r\<close> is the value of \<open>Math.random()\<close>, at least 0 and less than 1. The arithmetic is exact.
\<close>

definition nextReconnectDelay :: "nat \<Rightarrow> rat \<Rightarrow> int" where
  "nextReconnectDelay attempts r =
     (let base = min 10000 (500 * 2 ^ attempts); jitter = base * (1 / 5) * (r * 2 - 1)
      in max 250 \<lfloor>base + jitter\<rfloor>)"

definition scheduleReconnect :: "nat \<Rightarrow> string \<Rightarrow> rat \<Rightarrow> term_world \<Rightarrow> term_world" where
  "scheduleReconnect i sid r w =
     (let inst = heap w i;
          q = clear_timeout (reconnectTimer inst) (tqueue w);
          delay = nextReconnectDelay (reconnectAttempts inst) r;
          (t, q') = set_timeout (tclock w) delay (CbReconnect i sid) q
      in set_inst i (\<lambda>n. n\<lparr>reconnectAttempts := Suc (reconnectAttempts n), reconnectTimer := Some t\<rparr>)
           (w\<lparr>tqueue := q'\<rparr>))"

text \<open>\<open>connectWebSocket\<close> up to its \<open>await\<close>, and after the ticket request has settled.\<close>

definition connectWebSocket :: "nat \<Rightarrow> string \<Rightarrow> term_world \<Rightarrow> term_world" where
  "connectWebSocket i sid w =
     (if connecting (heap w i) \<or> ws_state w i = Some CONNECTING \<or> ws_state w i = Some OPEN then w
      else (set_inst i (\<lambda>n. n\<lparr>connecting := True\<rparr>) w)
             \<lparr>tickets := tickets w @ [(next_ticket w, i, sid)], next_ticket := Suc (next_ticket w)\<rparr>)"

text \<open>\<open>encodeURIComponent\<close> of a string of units below 256: the unreserved ones stay, the others are
  percent-encoded in UTF-8.\<close>

definition uri_unreserved :: "char \<Rightarrow> bool" where
  "uri_unreserved c =
     (let n = (of_char c :: nat) in
      (48 \<le> n \<and> n < 58) \<or> (65 \<le> n \<and> n < 91) \<or> (97 \<le> n \<and> n < 123)
      \<or> List.member ''-_.!~*'' c \<or> n = 39 \<or> n = 40 \<or> n = 41)"

definition hex_digit :: "nat \<Rightarrow> char" where
  "hex_digit n = (if n < 10 then char_of (48 + n) else char_of (55 + n))"

definition percent :: "8 word \<Rightarrow> string" where
  "percent b = [CHR ''%'', hex_digit (unat b div 16), hex_digit (unat b mod 16)]"

definition encodeURIComponent :: "string \<Rightarrow> string" where
  "encodeURIComponent s =
     concat (map (\<lambda>c. if uri_unreserved c then [c] else concat (map percent (utf8_char (of_char c)))) s)"

definition socket_url :: "term_world \<Rightarrow> string \<Rightarrow> string \<Rightarrow> string" where
  "socket_url w sid ticket =
     (if page_https w then ''wss:'' else ''ws:'') @ ''//'' @ page_host w @ ''/api/v1/ws/terminal/''
     @ sid @ ''?ticket='' @ encodeURIComponent ticket"

definition new_socket :: "nat \<Rightarrow> string \<Rightarrow> string \<Rightarrow> term_world \<Rightarrow> term_world" where
  "new_socket i sid ticket w =
     (let s = next_sock w; url = socket_url w sid ticket in
      set_inst i (\<lambda>n. n\<lparr>ti_ws := Some s\<rparr>)
        (log_eff (NewSocket s url)
          (w\<lparr>socks := (socks w)(s := \<lparr>sock_inst = i, sock_sid = sid, sock_state = CONNECTING,
                sock_url = url\<rparr>), next_sock := Suc s\<rparr>)))"

definition connect_ticket :: "nat \<Rightarrow> string \<Rightarrow> fetch_result \<Rightarrow> rat \<Rightarrow> term_world \<Rightarrow> term_world" where
  "connect_ticket i sid res r w =
     (case requestWebSocketTicket res of
        Inl err \<Rightarrow> scheduleReconnect i sid r
          (log_eff (Warn err) (set_inst i (\<lambda>n. n\<lparr>connecting := False\<rparr>) w))
      | Inr ticket \<Rightarrow>
          if map_get (instances w) sid = None then set_inst i (\<lambda>n. n\<lparr>connecting := False\<rparr>) w
          else new_socket i sid ticket w)"

section \<open>The socket's handlers\<close>

definition resize_json :: "nat \<Rightarrow> nat \<Rightarrow> string" where
  "resize_json c r =
     [CHR ''{'', CHR 34] @ ''type'' @ [CHR 34, CHR '':'', CHR 34] @ ''resize''
     @ [CHR 34, CHR '','', CHR 34] @ ''cols'' @ [CHR 34, CHR '':''] @ num_str (int c)
     @ [CHR '','', CHR 34] @ ''rows'' @ [CHR 34, CHR '':''] @ num_str (int r) @ ''}''"

definition onopen :: "nat \<Rightarrow> term_world \<Rightarrow> term_world" where
  "onopen s w =
     (let i = sock_inst (socks w s) in
      log_eff (FitTerm i)
        (set_inst i (\<lambda>n. n\<lparr>connecting := False, reconnectAttempts := 0, attached := False\<rparr>) w))"

definition onmessage_binary :: "nat \<Rightarrow> bytes \<Rightarrow> term_world \<Rightarrow> term_world" where
  "onmessage_binary s data w =
     log_eff (MarkOutput (sock_sid (socks w s))) (log_eff (WriteTerm (sock_inst (socks w s)) data) w)"

definition send_dims :: "nat \<Rightarrow> nat \<Rightarrow> nat \<Rightarrow> term_world \<Rightarrow> term_world" where
  "send_dims i c r w =
     log_eff (SendText (the (ti_ws (heap w i))) (resize_json c r))
       (set_inst i (\<lambda>n. n\<lparr>lastSentCols := Some c, lastSentRows := Some r\<rparr>) w)"

definition LOST_NOTICE :: string where
  "LOST_NOTICE = CHR 0x1B # ''[2m[lociterm] previous tmux session was lost; started fresh''
     @ CHR 0x1B # ''[0m''"

definition onattached :: "nat \<Rightarrow> json \<Rightarrow> dims \<Rightarrow> term_world \<Rightarrow> term_world" where
  "onattached i msg dims w0 =
     (let w = set_inst i (\<lambda>n. n\<lparr>attached := True\<rparr>) w0;
          w1 = (case dims of
                  Some (c, r) \<Rightarrow> if 0 < c \<and> 0 < r \<and> ws_state w i = Some OPEN then send_dims i c r w else w
                | None \<Rightarrow> w)
      in case json_field msg ''recreated'' of
           Inr v \<Rightarrow> if opt_truthy v then log_eff (WritelnTerm i LOST_NOTICE) w1 else w1
         | Inl _ \<Rightarrow> w1)"

text \<open>A text frame is what \<open>JSON.parse\<close> makes of it, \<open>None\<close> if it throws.\<close>

definition onmessage_text :: "nat \<Rightarrow> json option \<Rightarrow> dims \<Rightarrow> term_world \<Rightarrow> term_world" where
  "onmessage_text s parsed dims w =
     (case parsed of
        None \<Rightarrow> w
      | Some msg \<Rightarrow>
          (case json_field msg ''type'' of
             Inl _ \<Rightarrow> w
           | Inr v \<Rightarrow>
               if v = Some (JStr ''attached'') then onattached (sock_inst (socks w s)) msg dims w else w))"

definition onclose :: "nat \<Rightarrow> rat \<Rightarrow> term_world \<Rightarrow> term_world" where
  "onclose s r w =
     (let i = sock_inst (socks w s) in
      scheduleReconnect i (sock_sid (socks w s)) r (set_inst i (\<lambda>n. n\<lparr>connecting := False\<rparr>) w))"

definition onerror :: "nat \<Rightarrow> term_world \<Rightarrow> term_world" where
  "onerror s w = set_inst (sock_inst (socks w s)) (\<lambda>n. n\<lparr>connecting := False\<rparr>) w"

section \<open>Input\<close>

definition sendBytes :: "nat \<Rightarrow> bytes \<Rightarrow> term_world \<Rightarrow> term_world" where
  "sendBytes i b w =
     (if ws_state w i = Some OPEN then log_eff (SendBytes (the (ti_ws (heap w i))) b) w else w)"

definition sendString :: "nat \<Rightarrow> ustring \<Rightarrow> term_world \<Rightarrow> term_world" where
  "sendString i d w = sendBytes i (TextEncoder_encode d) w"

definition compositionstart :: "nat \<Rightarrow> term_world \<Rightarrow> term_world" where
  "compositionstart i w = set_inst i (\<lambda>n. n\<lparr>composing := True\<rparr>) w"

definition compositionend :: "nat \<Rightarrow> ustring \<Rightarrow> term_world \<Rightarrow> term_world" where
  "compositionend i d w0 =
     (let w = set_inst i (\<lambda>n. n\<lparr>composing := False\<rparr>) w0;
          w1 = (if d \<noteq> [] then sendString i d w else w)
      in set_inst i (\<lambda>n. n\<lparr>compositionSuppressUntil := tclock w1 + 50\<rparr>) w1)"

definition onData :: "nat \<Rightarrow> ustring \<Rightarrow> term_world \<Rightarrow> term_world" where
  "onData i d w =
     (if composing (heap w i) then w
      else if tclock w < compositionSuppressUntil (heap w i) then w
      else sendString i d w)"

definition onBinary :: "nat \<Rightarrow> ustring \<Rightarrow> term_world \<Rightarrow> term_world" where
  "onBinary i d w = sendBytes i (binary_bytes d) w"

record key_event =
  key_type :: string
  key_key :: string
  shiftKey :: bool
  ctrlKey :: bool
  altKey :: bool
  metaKey :: bool

definition ESC_CR :: ustring where "ESC_CR = [0x1B, 0x0D]"

text \<open>The handler of \<open>createShiftEnterHandler\<close>: whether xterm goes on with the key, and what is sent.\<close>

definition shiftEnter :: "key_event \<Rightarrow> bool \<times> ustring option" where
  "shiftEnter e =
     (if key_type e \<noteq> ''keydown'' then (True, None)
      else if key_key e \<noteq> ''Enter'' then (True, None)
      else if \<not> shiftKey e then (True, None)
      else if ctrlKey e \<or> altKey e \<or> metaKey e then (True, None)
      else (False, Some ESC_CR))"

definition onKey :: "nat \<Rightarrow> key_event \<Rightarrow> term_world \<Rightarrow> bool \<times> term_world" where
  "onKey i e w =
     (case shiftEnter e of (go, None) \<Rightarrow> (go, w) | (go, Some d) \<Rightarrow> (go, sendString i d w))"

definition bindInputListeners :: "nat \<Rightarrow> term_world \<Rightarrow> term_world" where
  "bindInputListeners i w =
     (if listenersBound (heap w i) then w
      else set_inst i (\<lambda>n. n\<lparr>listenersBound := True, ti_listeners := Suc (ti_listeners n)\<rparr>) w)"

section \<open>Mounting\<close>

definition loadWebgl :: "nat \<Rightarrow> bool \<Rightarrow> term_world \<Rightarrow> term_world" where
  "loadWebgl i ok w =
     (if ti_webgl (heap w i) \<noteq> None then w
      else if ok then (set_inst i (\<lambda>n. n\<lparr>ti_webgl := Some (next_gl w)\<rparr>) w)\<lparr>next_gl := Suc (next_gl w)\<rparr>
      else log_eff (Warn ''WebGL addon failed, using fallback renderer'') w)"

definition contextLost :: "nat \<Rightarrow> bool \<Rightarrow> term_world \<Rightarrow> term_world" where
  "contextLost i ok w =
     loadWebgl i ok
       (set_inst i (\<lambda>n. n\<lparr>ti_webgl := None\<rparr>)
         (log_eff (Warn ''WebGL context lost; attempting to reload addon'') w))"

definition detachFromContainer :: "string \<Rightarrow> nat \<Rightarrow> term_world \<Rightarrow> term_world" where
  "detachFromContainer sid c w =
     (case map_get (instances w) sid of
        None \<Rightarrow> w
      | Some i \<Rightarrow>
          if ti_opened (heap w i) \<and> ti_parent (heap w i) = Some c
          then set_inst i (\<lambda>n. n\<lparr>ti_parent := None\<rparr>) w else w)"

definition get_instance :: "string \<Rightarrow> term_theme \<Rightarrow> term_world \<Rightarrow> nat \<times> term_world" where
  "get_instance sid th w =
     (case map_get (instances w) sid of
        Some i \<Rightarrow> (i, w)
      | None \<Rightarrow>
          (next_inst w,
           w\<lparr>instances := map_put sid (next_inst w) (instances w),
             heap := (heap w)(next_inst w := createInstance th), next_inst := Suc (next_inst w)\<rparr>))"

definition place_terminal :: "nat \<Rightarrow> nat \<Rightarrow> bool \<Rightarrow> term_world \<Rightarrow> bool \<times> term_world" where
  "place_terminal i c gl_ok w =
     (if ti_opened (heap w i) then
        (if ti_parent (heap w i) \<noteq> Some c then (True, set_inst i (\<lambda>n. n\<lparr>ti_parent := Some c\<rparr>) w)
         else (False, w))
      else
        (False, bindInputListeners i (loadWebgl i gl_ok
           (set_inst i (\<lambda>n. n\<lparr>ti_opened := True, ti_parent := Some c\<rparr>) w))))"

definition mount_effect ::
  "string option \<Rightarrow> nat option \<Rightarrow> term_theme \<Rightarrow> bool \<Rightarrow> term_world \<Rightarrow> term_world" where
  "mount_effect sessionId container th gl_ok w0 =
     (case container of
        None \<Rightarrow> w0
      | Some c \<Rightarrow>
          let prev = previousSessionId w0;
              w = (if truthy prev \<and> prev \<noteq> sessionId then detachFromContainer (the prev) c w0 else w0)
          in if \<not> truthy sessionId then w\<lparr>previousSessionId := None\<rparr>
             else
               let sid = the sessionId;
                   (i, w1) = get_instance sid th w;
                   (didReattach, w2) = place_terminal i c gl_ok w1;
                   w3 = log_eff (FitTerm i) w2;
                   w4 = (if didReattach then log_eff (RefreshTerm i) w3 else w3);
                   w5 = (if ws_state w4 i = None \<or> ws_state w4 i = Some CLOSED
                         then connectWebSocket i sid w4 else w4)
               in w5\<lparr>previousSessionId := Some sid, observing := Some (sid, i)\<rparr>)"

definition effect_cleanup :: "term_world \<Rightarrow> term_world" where
  "effect_cleanup w =
     (case observing w of
        None \<Rightarrow> w
      | Some (sid, i) \<Rightarrow>
          w\<lparr>observing := None, tqueue := clear_timeout (resizeDebounceTimer (heap w i)) (tqueue w)\<rparr>)"

definition theme_effect :: "string option \<Rightarrow> term_theme \<Rightarrow> term_world \<Rightarrow> term_world" where
  "theme_effect sessionId th w =
     (if \<not> truthy sessionId then w
      else case map_get (instances w) (the sessionId) of
             None \<Rightarrow> w
           | Some i \<Rightarrow> set_inst i (\<lambda>n. n\<lparr>ti_theme := th\<rparr>) w)"

text \<open>A render whose dependencies changed: React cleans the old effects up and runs the new ones.\<close>

definition useTerminal ::
  "string option \<Rightarrow> nat option \<Rightarrow> term_theme option \<Rightarrow> bool \<Rightarrow> term_world \<Rightarrow> term_world" where
  "useTerminal sessionId container th gl_ok w =
     (let activeTheme = (case th of Some t \<Rightarrow> t | None \<Rightarrow> darkTerminalTheme) in
      theme_effect sessionId activeTheme
        (mount_effect sessionId container activeTheme gl_ok (effect_cleanup w)))"

section \<open>Resizing\<close>

definition usable :: "dims \<Rightarrow> bool" where
  "usable d = (case d of None \<Rightarrow> False | Some (c, r) \<Rightarrow> c \<noteq> 0 \<and> r \<noteq> 0)"

definition already_sent :: "dims \<Rightarrow> term_inst \<Rightarrow> bool" where
  "already_sent d n =
     (case d of None \<Rightarrow> False | Some (c, r) \<Rightarrow> lastSentCols n = Some c \<and> lastSentRows n = Some r)"

definition observed :: "dims \<Rightarrow> term_world \<Rightarrow> term_world" where
  "observed d w =
     (case observing w of
        None \<Rightarrow> w
      | Some (sid, _) \<Rightarrow>
          (case map_get (instances w) sid of
             None \<Rightarrow> w
           | Some i \<Rightarrow>
               if \<not> usable d then w
               else if already_sent d (heap w i) then w
               else
                 let q = clear_timeout (resizeDebounceTimer (heap w i)) (tqueue w);
                     (t, q') = set_timeout (tclock w) 80 (CbResize i sid) q
                 in set_inst i (\<lambda>n. n\<lparr>resizeDebounceTimer := Some t\<rparr>) (w\<lparr>tqueue := q'\<rparr>)))"

definition resize_callback :: "string \<Rightarrow> dims \<Rightarrow> term_world \<Rightarrow> term_world" where
  "resize_callback sid d w =
     (case map_get (instances w) sid of
        None \<Rightarrow> w
      | Some i \<Rightarrow>
          if \<not> usable d then w
          else if already_sent d (heap w i) then w
          else if \<not> attached (heap w i) then w
          else
            let w1 = log_eff (FitTerm i) w in
            if ws_state w1 i = Some OPEN then send_dims i (fst (the d)) (snd (the d)) w1 else w1)"

definition reconnect_callback :: "nat \<Rightarrow> string \<Rightarrow> term_world \<Rightarrow> term_world" where
  "reconnect_callback i sid w =
     (if map_get (instances w) sid \<noteq> None then connectWebSocket i sid w else w)"

section \<open>The exported functions\<close>

definition close_socket :: "nat option \<Rightarrow> term_world \<Rightarrow> term_world" where
  "close_socket s w =
     (case s of
        None \<Rightarrow> w
      | Some n \<Rightarrow>
          if sock_state (socks w n) = CLOSING \<or> sock_state (socks w n) = CLOSED then w
          else log_eff (CloseSocket n) (set_sock n CLOSING w))"

definition disposeTerminal :: "string \<Rightarrow> term_world \<Rightarrow> term_world" where
  "disposeTerminal sid w =
     (case map_get (instances w) sid of
        None \<Rightarrow> w
      | Some i \<Rightarrow>
          let q = clear_timeout (resizeDebounceTimer (heap w i))
                    (clear_timeout (reconnectTimer (heap w i)) (tqueue w));
              w1 = close_socket (ti_ws (heap w i)) (w\<lparr>tqueue := q\<rparr>);
              w2 = set_inst i (\<lambda>n. n\<lparr>ti_disposed := True, ti_parent := None\<rparr>) w1
          in w2\<lparr>instances := map_del sid (instances w2)\<rparr>)"

definition pasteToTerminal :: "string \<Rightarrow> string \<Rightarrow> term_world \<Rightarrow> bool \<times> term_world" where
  "pasteToTerminal sid text w =
     (case map_get (instances w) sid of
        None \<Rightarrow> (False, w)
      | Some i \<Rightarrow> (True, log_eff (PasteTerm i text) w))"

definition sendToTerminal :: "string \<Rightarrow> ustring \<Rightarrow> term_world \<Rightarrow> bool \<times> term_world" where
  "sendToTerminal sid data w =
     (case map_get (instances w) sid of
        None \<Rightarrow> (False, w)
      | Some i \<Rightarrow>
          if ws_state w i \<noteq> Some OPEN then (False, w)
          else (True, log_eff (SendBytes (the (ti_ws (heap w i))) (TextEncoder_encode data)) w))"

end
