(* ===== verification/TermSystem.thy ===== *)
theory TermSystem
  imports Terminal
begin

text \<open>
  The terminal hook as a machine. An event is a render of the component, a settled ticket request, a
  handler of a socket, a due timer, a resize observation, an input event of xterm, or a call of an
  exported function. \<open>term_step\<close> allows an event when the browser can produce it.
\<close>

section \<open>Events\<close>

datatype term_event =
    Render "string option" "nat option" "term_theme option" bool
  | Unmount
  | TicketReply nat fetch_result rat
  | SockOpen nat
  | SockBinary nat bytes
  | SockText nat "json option" dims
  | PeerClosing nat
  | SockClosed nat bool rat
  | TimerFires nat dims
  | Observed dims
  | CompStart nat
  | CompEnd nat ustring
  | Data nat ustring
  | Binary nat ustring
  | Key nat key_event
  | GlLost nat bool
  | DisposeCall string
  | PasteCall string string
  | SendCall string ustring
  | TermTick int

definition xterm_live :: "nat \<Rightarrow> term_world \<Rightarrow> bool" where
  "xterm_live i w \<longleftrightarrow> i < next_inst w \<and> ti_opened (heap w i) \<and> \<not> ti_disposed (heap w i)"

definition sock_in :: "nat \<Rightarrow> ready_state \<Rightarrow> term_world \<Rightarrow> bool" where
  "sock_in s r w \<longleftrightarrow> s < next_sock w \<and> sock_state (socks w s) = r"

text \<open>
  The behaviour of the platform: a socket opens when it is connecting, delivers while it is open, may
  be closed by its peer first with a closing handshake, and closes once; a failed one reports an error
  right before. A timer fires no earlier than it is due.
\<close>

fun tenabled :: "term_event \<Rightarrow> term_world \<Rightarrow> bool" where
  "tenabled (TicketReply n res r) w = (map_of (tickets w) n \<noteq> None \<and> 0 \<le> r \<and> r < 1)"
| "tenabled (SockOpen s) w = sock_in s CONNECTING w"
| "tenabled (SockBinary s b) w = sock_in s OPEN w"
| "tenabled (SockText s p d) w = sock_in s OPEN w"
| "tenabled (PeerClosing s) w = sock_in s OPEN w"
| "tenabled (SockClosed s f r) w =
     (s < next_sock w \<and> sock_state (socks w s) \<noteq> CLOSED \<and> 0 \<le> r \<and> r < 1)"
| "tenabled (TimerFires t d) w =
     (case timer_lookup (tqueue w) t of None \<Rightarrow> False | Some (due, cb) \<Rightarrow> due \<le> tclock w)"
| "tenabled (CompStart i) w = xterm_live i w"
| "tenabled (CompEnd i d) w = xterm_live i w"
| "tenabled (Data i d) w = xterm_live i w"
| "tenabled (Binary i d) w = xterm_live i w"
| "tenabled (Key i k) w = xterm_live i w"
| "tenabled (GlLost i ok) w = (i < next_inst w \<and> ti_webgl (heap w i) \<noteq> None)"
| "tenabled (TermTick d) w = (0 \<le> d)"
| "tenabled _ w = True"

definition ticket_reply :: "nat \<Rightarrow> fetch_result \<Rightarrow> rat \<Rightarrow> term_world \<Rightarrow> term_world" where
  "ticket_reply n res r w =
     (case map_of (tickets w) n of
        None \<Rightarrow> w
      | Some (i, sid) \<Rightarrow>
          connect_ticket i sid res r (w\<lparr>tickets := filter (\<lambda>p. fst p \<noteq> n) (tickets w)\<rparr>))"

definition timer_fires :: "nat \<Rightarrow> dims \<Rightarrow> term_world \<Rightarrow> term_world" where
  "timer_fires t d w =
     (case timer_lookup (tqueue w) t of
        None \<Rightarrow> w
      | Some (due, cb) \<Rightarrow>
          let w1 = w\<lparr>tqueue := clear_timeout (Some t) (tqueue w)\<rparr> in
          case cb of
            CbReconnect i sid \<Rightarrow> reconnect_callback i sid w1
          | CbResize i sid \<Rightarrow> resize_callback sid d w1)"

text \<open>An input event of xterm runs every registered listener.\<close>

definition each_listener :: "nat \<Rightarrow> (term_world \<Rightarrow> term_world) \<Rightarrow> term_world \<Rightarrow> term_world" where
  "each_listener i f w = (f ^^ ti_listeners (heap w i)) w"

fun texec :: "term_event \<Rightarrow> term_world \<Rightarrow> term_world" where
  "texec (Render sid c th gl) w = useTerminal sid c th gl w"
| "texec Unmount w = effect_cleanup w"
| "texec (TicketReply n res r) w = ticket_reply n res r w"
| "texec (SockOpen s) w = onopen s (set_sock s OPEN w)"
| "texec (SockBinary s b) w = onmessage_binary s b w"
| "texec (SockText s p d) w = onmessage_text s p d w"
| "texec (PeerClosing s) w = set_sock s CLOSING w"
| "texec (SockClosed s failed r) w =
     (let w1 = set_sock s CLOSED w in onclose s r (if failed then onerror s w1 else w1))"
| "texec (TimerFires t d) w = timer_fires t d w"
| "texec (Observed d) w = observed d w"
| "texec (CompStart i) w = each_listener i (compositionstart i) w"
| "texec (CompEnd i d) w = each_listener i (compositionend i d) w"
| "texec (Data i d) w = each_listener i (onData i d) w"
| "texec (Binary i d) w = each_listener i (onBinary i d) w"
| "texec (Key i k) w = snd (onKey i k w)"
| "texec (GlLost i ok) w = contextLost i ok w"
| "texec (DisposeCall sid) w = disposeTerminal sid w"
| "texec (PasteCall sid t) w = snd (pasteToTerminal sid t w)"
| "texec (SendCall sid d) w = snd (sendToTerminal sid d w)"
| "texec (TermTick d) w = w\<lparr>tclock := tclock w + d\<rparr>"

inductive term_step :: "term_world \<Rightarrow> term_event \<Rightarrow> term_world \<Rightarrow> bool" where
  tstep: "tenabled e w \<Longrightarrow> term_step w e (texec e w)"

inductive_simps term_step_iff: "term_step w e w'"

text \<open>Runs in which no peer starts a closing handshake: an open socket closes at once.\<close>

definition abrupt_step :: "term_world \<Rightarrow> term_event \<Rightarrow> term_world \<Rightarrow> bool" where
  "abrupt_step w e w' \<longleftrightarrow> term_step w e w' \<and> (\<forall>s. e \<noteq> PeerClosing s)"

definition term_start :: "term_world \<Rightarrow> bool" where
  "term_start w \<longleftrightarrow> instances w = Map.empty \<and> next_inst w = 0 \<and> next_sock w = 0 \<and> tickets w = []
     \<and> next_ticket w = 0 \<and> tqueue w = no_timers \<and> previousSessionId w = None \<and> observing w = None
     \<and> tlog w = []"

fun run_term :: "term_event list \<Rightarrow> term_world \<Rightarrow> term_world option" where
  "run_term [] w = Some w"
| "run_term (e # es) w = (if tenabled e w then run_term es (texec e w) else None)"

lemma run_term_iff: "run_term es w = Some w' \<longleftrightarrow> run_path term_step w es w'"
  by (induction es arbitrary: w) (auto simp: run_path_Cons term_step_iff)

lemma run_term_append: "run_term (es @ fs) w = Option.bind (run_term es w) (run_term fs)"
  by (induction es arbitrary: w) simp_all

section \<open>What an event leaves alone\<close>

text \<open>
  Most operations only write fields that the connection logic never reads. \<open>same_core\<close> relates states
  that agree on all it reads, and the simplifier proves it for those operations.
\<close>

definition core :: "term_inst \<Rightarrow> nat option \<times> bool \<times> nat option \<times> nat option" where
  "core n = (ti_ws n, connecting n, reconnectTimer n, resizeDebounceTimer n)"

definition same_core :: "term_world \<Rightarrow> term_world \<Rightarrow> bool" where
  "same_core w w' \<longleftrightarrow> instances w' = instances w \<and> next_inst w' = next_inst w
     \<and> (\<forall>i. core (heap w' i) = core (heap w i)) \<and> socks w' = socks w \<and> next_sock w' = next_sock w
     \<and> tickets w' = tickets w \<and> next_ticket w' = next_ticket w \<and> tqueue w' = tqueue w
     \<and> observing w' = observing w"

lemma same_core_refl [simp]: "same_core w w"
  by (simp add: same_core_def)

lemma same_core_trans: "same_core w w1 \<Longrightarrow> same_core w1 w2 \<Longrightarrow> same_core w w2"
  by (simp add: same_core_def)

lemma same_core_set: "(\<And>n. core (f n) = core n) \<Longrightarrow> same_core w (set_inst i f w)"
  by (simp add: same_core_def set_inst_def)

lemma same_core_log [simp]: "same_core w (log_eff x w')  = same_core w w'"
  by (simp add: same_core_def log_eff_def)

lemma same_core_set_then:
  "same_core w w' \<Longrightarrow> (\<And>n. core (f n) = core n) \<Longrightarrow> same_core w (set_inst i f w')"
  by (rule same_core_trans [OF _ same_core_set])

lemma same_core_fields [simp]:
  "same_core w (w'\<lparr>previousSessionId := p\<rparr>) = same_core w w'"
  "same_core w (w'\<lparr>next_gl := g\<rparr>) = same_core w w'"
  "same_core w (w'\<lparr>tclock := t\<rparr>) = same_core w w'"
  by (simp_all add: same_core_def)

lemma same_core_sends [simp]:
  "same_core w (sendBytes i b w') = same_core w w'"
  "same_core w (sendString i d w') = same_core w w'"
  "same_core w (onBinary i d w') = same_core w w'"
  by (auto simp: sendBytes_def sendString_def onBinary_def)

lemma same_core_input:
  "same_core w (compositionstart i w)" "same_core w (compositionend i d w)" "same_core w (onData i d w)"
  "same_core w (snd (onKey i k w))" "same_core w (onBinary i d w)"
  by (auto simp: compositionstart_def compositionend_def onData_def onKey_def Let_def core_def
      intro!: same_core_set same_core_set_then split: prod.splits option.splits)

lemma same_core_each: "(\<And>w. same_core w (f w)) \<Longrightarrow> same_core w (each_listener i f w)"
proof -
  assume f: "\<And>w. same_core w (f w)"
  have "same_core w ((f ^^ n) w)" for n
    by (induction n) (auto intro: same_core_trans f)
  then show ?thesis by (simp add: each_listener_def)
qed

lemma same_core_mounting:
  "same_core w (loadWebgl i ok w)" "same_core w (contextLost i ok w)"
  "same_core w (bindInputListeners i w)" "same_core w (detachFromContainer sid c w)"
  "same_core w (theme_effect s th w)" "same_core w (snd (place_terminal i c ok w))"
proof -
  show gl: "same_core w (loadWebgl i ok w)" for w
    by (simp add: loadWebgl_def same_core_set core_def)
  show "same_core w (contextLost i ok w)"
    unfolding contextLost_def by (rule same_core_trans [OF _ gl]) (auto intro!: same_core_set_then simp: core_def)
  show bind: "same_core w (bindInputListeners i w)" for w
    by (simp add: bindInputListeners_def same_core_set core_def)
  show "same_core w (detachFromContainer sid c w)"
    by (simp add: detachFromContainer_def same_core_set core_def split: option.split)
  show "same_core w (theme_effect s th w)"
    by (simp add: theme_effect_def same_core_set core_def split: option.split)
  have "same_core w (bindInputListeners i (loadWebgl i ok
      (set_inst i (\<lambda>n. n\<lparr>ti_opened := True, ti_parent := Some c\<rparr>) w)))"
    by (rule same_core_trans [OF same_core_trans [OF same_core_set gl] bind]) (simp add: core_def)
  then show "same_core w (snd (place_terminal i c ok w))"
    by (simp add: place_terminal_def same_core_set core_def)
qed

lemma same_core_dims: "same_core w (send_dims i c r w)"
  by (simp add: send_dims_def same_core_set core_def)

lemma same_core_messages:
  "same_core w (onmessage_binary s b w)" "same_core w (onmessage_text s p d w)"
  "same_core w (resize_callback sid d w)"
proof -
  show "same_core w (onmessage_binary s b w)" by (simp add: onmessage_binary_def)
  have at: "same_core w (set_inst i (\<lambda>n. n\<lparr>attached := True\<rparr>) w)" for i
    by (simp add: same_core_set core_def)
  have "same_core w (onattached i msg d w)" for i msg
    using same_core_trans [OF at same_core_dims]
    by (auto simp: onattached_def Let_def at split: sum.splits option.splits)
  then show "same_core w (onmessage_text s p d w)"
    by (auto simp: onmessage_text_def split: option.splits sum.splits)
  have "same_core w (send_dims i c r (log_eff (FitTerm i) w))" for i c r
    by (rule same_core_trans [OF _ same_core_dims]) simp
  then show "same_core w (resize_callback sid d w)"
    by (auto simp: resize_callback_def Let_def split: option.splits)
qed

lemma same_core_calls:
  "same_core w (snd (pasteToTerminal sid t w))" "same_core w (snd (sendToTerminal sid d w))"
  by (auto simp: pasteToTerminal_def sendToTerminal_def split: option.splits)

text \<open>The events that leave the connection logic alone.\<close>

fun cosmetic :: "term_event \<Rightarrow> bool" where
  "cosmetic (SockBinary _ _) = True"
| "cosmetic (SockText _ _ _) = True"
| "cosmetic (CompStart _) = True"
| "cosmetic (CompEnd _ _) = True"
| "cosmetic (Data _ _) = True"
| "cosmetic (Binary _ _) = True"
| "cosmetic (Key _ _) = True"
| "cosmetic (GlLost _ _) = True"
| "cosmetic (PasteCall _ _) = True"
| "cosmetic (SendCall _ _) = True"
| "cosmetic (TermTick _) = True"
| "cosmetic _ = False"

lemma cosmetic_same_core: "cosmetic e \<Longrightarrow> same_core w (texec e w)"
  by (cases e) (auto intro: same_core_messages same_core_input same_core_each same_core_mounting
      same_core_calls)

end
