(* ===== verification/TermInv.thy ===== *)
theory TermInv
  imports TermSystem
begin

text \<open>
  The invariant of the connection logic, for every interleaving: who belongs to whom, one reconnect
  and one resize timer per instance at most, and no cached instance is ever stuck without a socket, a
  ticket request or a reconnect timer. A second invariant holds when sockets close at once: then an
  instance has one connection at most.
\<close>

section \<open>Who belongs to whom\<close>

text \<open>Every reference to an instance comes with the session it was created for.\<close>

fun cb_inst :: "term_cb \<Rightarrow> nat \<times> string" where
  "cb_inst (CbReconnect i sid) = (i, sid)"
| "cb_inst (CbResize i sid) = (i, sid)"

definition pairs :: "term_world \<Rightarrow> (nat \<times> string) set" where
  "pairs w = {(i, sid). instances w sid = Some i} \<union> snd ` set (tickets w)
     \<union> {cb_inst cb | t d cb. timer_lookup (tqueue w) t = Some (d, cb)}
     \<union> {(sock_inst (socks w s), sock_sid (socks w s)) | s. s < next_sock w}
     \<union> {(i, sid). observing w = Some (sid, i)}"

definition pairs_ok :: "term_world \<Rightarrow> bool" where
  "pairs_ok w \<longleftrightarrow> single_valued (pairs w) \<and> (\<forall>(i, sid) \<in> pairs w. i < next_inst w)"

definition ws_ok :: "term_world \<Rightarrow> bool" where
  "ws_ok w \<longleftrightarrow> (\<forall>i < next_inst w. \<forall>s. ti_ws (heap w i) = Some s \<longrightarrow>
     s < next_sock w \<and> sock_inst (socks w s) = i)"

definition tickets_ok :: "term_world \<Rightarrow> bool" where
  "tickets_ok w \<longleftrightarrow> distinct (map fst (tickets w)) \<and> (\<forall>p \<in> set (tickets w). fst p < next_ticket w)"

text \<open>Each instance owns a slot for its reconnect timer and one for its resize timer.\<close>

datatype slot = ReconnectSlot nat | ResizeSlot nat

fun cb_slot :: "term_cb \<Rightarrow> slot option" where
  "cb_slot (CbReconnect i sid) = Some (ReconnectSlot i)"
| "cb_slot (CbResize i sid) = Some (ResizeSlot i)"

fun own :: "term_world \<Rightarrow> slot \<Rightarrow> nat option" where
  "own w (ReconnectSlot i) = (if i < next_inst w then reconnectTimer (heap w i) else None)"
| "own w (ResizeSlot i) = (if i < next_inst w then resizeDebounceTimer (heap w i) else None)"

text \<open>
  The number an instance keeps may be that of a timer that has fired; it is still its own number, so
  clearing it never hits another timer.
\<close>

definition slots_of :: "(slot \<rightharpoonup> nat) \<Rightarrow> term_cb timers \<Rightarrow> bool" where
  "slots_of ow q \<longleftrightarrow> timers_wf q \<and> exclusive ow (timer_lookup q) cb_slot
     \<and> (\<forall>x y u. ow x = Some u \<longrightarrow> ow y = Some u \<longrightarrow> x = y)
     \<and> (\<forall>x u. ow x = Some u \<longrightarrow> u < next_timer q)"

definition slots_ok :: "term_world \<Rightarrow> bool" where
  "slots_ok w \<longleftrightarrow> slots_of (own w) (tqueue w)"

lemma next_timer_clear [simp]: "next_timer (clear_timeout n q) = next_timer q"
  by (simp add: clear_timeout_def split: option.split)

lemma slots_clear: "slots_of ow q \<Longrightarrow> slots_of ow (clear_timeout n q)"
  by (simp add: slots_of_def tmr.exclusive_cancel_keep)

lemma slots_arm:
  assumes "slots_of ow q" and "cb_slot c = Some x"
    and "set_timeout now d c (clear_timeout (ow x) q) = (t, q')"
  shows "slots_of (ow(x \<mapsto> t)) q'"
    and "timer_lookup q' u = (if u = t then Some (now + d, c)
           else if ow x = Some u then None else timer_lookup q u)"
    and "timer_lookup q u = Some (e, b) \<Longrightarrow> cb_slot b \<noteq> Some x \<Longrightarrow> timer_lookup q' u = Some (e, b)"
proof -
  let ?q = "clear_timeout (ow x) q"
  have wf: "timers_wf q" and ex: "exclusive ow (timer_lookup q) cb_slot"
    and inj: "\<And>x y u. ow x = Some u \<Longrightarrow> ow y = Some u \<Longrightarrow> x = y"
    and less: "\<And>x u. ow x = Some u \<Longrightarrow> u < next_timer q"
    using assms(1) by (auto simp: slots_of_def)
  have wfq: "timers_wf ?q" using wf by simp
  have t: "t = next_timer q" and q': "next_timer q' = Suc (next_timer q)"
    using assms(3) by (auto simp: set_timeout_def)
  have look: "timer_lookup q' u = (if u = t then Some (now + d, c)
      else if ow x = Some u then None else timer_lookup q u)" for u
    using tmr.look_arm [OF wfq, of now d c u] assms(3) by simp
  then show "timer_lookup q' u = (if u = t then Some (now + d, c)
      else if ow x = Some u then None else timer_lookup q u)" .
  have "exclusive (ow(x \<mapsto> t)) (timer_lookup q') cb_slot"
    by (rule tmr.exclusive_rearm [OF wf ex assms(2,3)])
  moreover have "timers_wf q'" using tmr.good_arm [OF wfq, of now d c] assms(3) by simp
  moreover have "y = z" if "(ow(x \<mapsto> t)) y = Some u" "(ow(x \<mapsto> t)) z = Some u" for y z u
    using that inj [of y u z] less [of y u] less [of z u] t by (auto split: if_splits)
  moreover have "u < next_timer q'" if "(ow(x \<mapsto> t)) y = Some u" for y u
    using that less [of y u] t q' by (auto split: if_splits)
  ultimately show "slots_of (ow(x \<mapsto> t)) q'"
    unfolding slots_of_def by blast
  show "timer_lookup q' u = Some (e, b)" if u: "timer_lookup q u = Some (e, b)" "cb_slot b \<noteq> Some x"
  proof -
    have "u < next_timer q" using wf u(1) by (rule timers_wf_lookup)
    moreover have "ow x \<noteq> Some u"
    proof
      assume o: "ow x = Some u"
      obtain y where y: "cb_slot b = Some y" by (cases b) auto
      with ex u(1) have "ow y = Some u" by (rule exclusiveD)
      with o y u(2) inj show False by blast
    qed
    ultimately show ?thesis using u(1) t by (simp add: look)
  qed
qed

section \<open>Never stuck\<close>

definition has_ticket :: "nat \<Rightarrow> term_world \<Rightarrow> bool" where
  "has_ticket i w \<longleftrightarrow> (\<exists>n sid. (n, i, sid) \<in> set (tickets w))"

definition has_socket :: "nat \<Rightarrow> term_world \<Rightarrow> bool" where
  "has_socket i w \<longleftrightarrow>
     (\<exists>s < next_sock w. sock_inst (socks w s) = i \<and> sock_state (socks w s) \<noteq> CLOSED)"

definition has_retry :: "nat \<Rightarrow> term_world \<Rightarrow> bool" where
  "has_retry i w \<longleftrightarrow> (\<exists>t d sid. timer_lookup (tqueue w) t = Some (d, CbReconnect i sid))"

definition alive :: "nat \<Rightarrow> term_world \<Rightarrow> bool" where
  "alive i w \<longleftrightarrow> has_ticket i w \<or> has_socket i w \<or> has_retry i w"

definition cached :: "nat \<Rightarrow> term_world \<Rightarrow> bool" where
  "cached i w \<longleftrightarrow> (\<exists>sid. instances w sid = Some i)"

definition alive_but :: "nat set \<Rightarrow> term_world \<Rightarrow> bool" where
  "alive_but X w \<longleftrightarrow> (\<forall>i. cached i w \<longrightarrow> i \<notin> X \<longrightarrow> alive i w)"

definition conn_but :: "nat set \<Rightarrow> term_world \<Rightarrow> bool" where
  "conn_but Y w \<longleftrightarrow> (\<forall>i. cached i w \<longrightarrow> i \<notin> Y \<longrightarrow> connecting (heap w i) \<longrightarrow>
     has_ticket i w \<or> ws_state w i = Some CONNECTING)"

text \<open>The invariant, except for being alive in \<open>X\<close> and for the flag \<open>connecting\<close> in \<open>Y\<close>.\<close>

definition inv_but :: "nat set \<Rightarrow> nat set \<Rightarrow> term_world \<Rightarrow> bool" where
  "inv_but X Y w \<longleftrightarrow> pairs_ok w \<and> ws_ok w \<and> tickets_ok w \<and> slots_ok w \<and> alive_but X w \<and> conn_but Y w"

abbreviation term_inv :: "term_world \<Rightarrow> bool" where
  "term_inv \<equiv> inv_but {} {}"

lemmas inv_defs = inv_but_def pairs_ok_def ws_ok_def tickets_ok_def slots_ok_def alive_but_def conn_but_def

lemma inv_but_mono: "inv_but X Y w \<Longrightarrow> X \<subseteq> X' \<Longrightarrow> Y \<subseteq> Y' \<Longrightarrow> inv_but X' Y' w"
  by (auto simp: inv_but_def alive_but_def conn_but_def)

lemma pairs_sub:
  assumes "pairs_ok w" and "pairs w' \<subseteq> pairs w" and "next_inst w \<le> next_inst w'"
  shows "pairs_ok w'"
proof -
  have "single_valued (pairs w')"
    using assms(1,2) single_valued_subset unfolding pairs_ok_def by blast
  moreover have "i < next_inst w'" if "(i, sid) \<in> pairs w'" for i sid
    using that assms unfolding pairs_ok_def by fastforce
  ultimately show ?thesis by (auto simp: pairs_ok_def)
qed

lemma pairs_unique: "pairs_ok w \<Longrightarrow> (i, x) \<in> pairs w \<Longrightarrow> (i, y) \<in> pairs w \<Longrightarrow> x = y"
  by (auto simp: pairs_ok_def single_valued_def)

definition fits :: "term_world \<Rightarrow> nat \<Rightarrow> string \<Rightarrow> bool" where
  "fits w i sid \<longleftrightarrow> i < next_inst w \<and> (\<forall>x. (i, x) \<in> pairs w \<longrightarrow> x = sid)"

lemma pairs_insert:
  assumes "pairs_ok w" and "fits w i sid" and "pairs w' \<subseteq> insert (i, sid) (pairs w)"
    and "next_inst w \<le> next_inst w'"
  shows "pairs_ok w'"
proof -
  have "single_valued (insert (i, sid) (pairs w))"
    using assms(1,2) unfolding pairs_ok_def fits_def single_valued_def by blast
  then have "single_valued (pairs w')" using assms(3) single_valued_subset by blast
  moreover have "j < next_inst w'" if "(j, x) \<in> pairs w'" for j x
    using that assms unfolding pairs_ok_def fits_def by fastforce
  ultimately show ?thesis by (auto simp: pairs_ok_def)
qed

lemma pairs_fit: "pairs_ok w \<Longrightarrow> (i, sid) \<in> pairs w \<Longrightarrow> fits w i sid"
  by (auto simp: fits_def pairs_ok_def single_valued_def)

lemma fits_sub: "fits w i sid \<Longrightarrow> pairs w' \<subseteq> pairs w \<Longrightarrow> next_inst w' = next_inst w \<Longrightarrow> fits w' i sid"
  by (auto simp: fits_def)

lemma pairs_less: "pairs_ok w \<Longrightarrow> (i, x) \<in> pairs w \<Longrightarrow> i < next_inst w"
  by (auto simp: pairs_ok_def)

lemma pairsI:
  "instances w sid = Some i \<Longrightarrow> (i, sid) \<in> pairs w"
  "(n, i, sid) \<in> set (tickets w) \<Longrightarrow> (i, sid) \<in> pairs w"
  "timer_lookup (tqueue w) t = Some (d, CbReconnect i sid) \<Longrightarrow> (i, sid) \<in> pairs w"
  "timer_lookup (tqueue w) t = Some (d, CbResize i sid) \<Longrightarrow> (i, sid) \<in> pairs w"
  "s < next_sock w \<Longrightarrow> (sock_inst (socks w s), sock_sid (socks w s)) \<in> pairs w"
  "observing w = Some (sid, i) \<Longrightarrow> (i, sid) \<in> pairs w"
  unfolding pairs_def by (force intro: rev_image_eqI)+

section \<open>Operations the invariant does not see\<close>

lemma same_core_heap:
  assumes "same_core w w'"
  shows "ti_ws (heap w' i) = ti_ws (heap w i)" "connecting (heap w' i) = connecting (heap w i)"
    "reconnectTimer (heap w' i) = reconnectTimer (heap w i)"
    "resizeDebounceTimer (heap w' i) = resizeDebounceTimer (heap w i)"
  using assms by (auto simp: same_core_def core_def)

lemma same_core_world:
  assumes "same_core w w'"
  shows "instances w' = instances w" "next_inst w' = next_inst w" "socks w' = socks w"
    "next_sock w' = next_sock w" "tickets w' = tickets w" "next_ticket w' = next_ticket w"
    "tqueue w' = tqueue w" "observing w' = observing w"
  using assms by (auto simp: same_core_def)

lemma same_core_own: "same_core w w' \<Longrightarrow> own w' = own w"
  by (rule ext, case_tac x) (simp_all add: same_core_world same_core_heap)

lemma same_core_inv: "same_core w w' \<Longrightarrow> inv_but X Y w' = inv_but X Y w"
  by (simp add: inv_defs pairs_def same_core_world same_core_heap same_core_own cached_def alive_def
      has_ticket_def has_socket_def has_retry_def ws_state_def)

section \<open>The operations the invariant sees\<close>

lemma set_inst_simps [simp]:
  "instances (set_inst i f w) = instances w" "next_inst (set_inst i f w) = next_inst w"
  "socks (set_inst i f w) = socks w" "next_sock (set_inst i f w) = next_sock w"
  "tickets (set_inst i f w) = tickets w" "next_ticket (set_inst i f w) = next_ticket w"
  "tqueue (set_inst i f w) = tqueue w" "observing (set_inst i f w) = observing w"
  "tclock (set_inst i f w) = tclock w" "previousSessionId (set_inst i f w) = previousSessionId w"
  "tlog (set_inst i f w) = tlog w"
  "heap (set_inst i f w) j = (if j = i then f (heap w i) else heap w j)"
  by (simp_all add: set_inst_def)

lemma log_eff_simps [simp]:
  "instances (log_eff x w) = instances w" "next_inst (log_eff x w) = next_inst w"
  "socks (log_eff x w) = socks w" "next_sock (log_eff x w) = next_sock w"
  "tickets (log_eff x w) = tickets w" "next_ticket (log_eff x w) = next_ticket w"
  "tqueue (log_eff x w) = tqueue w" "observing (log_eff x w) = observing w"
  "tclock (log_eff x w) = tclock w" "previousSessionId (log_eff x w) = previousSessionId w"
  "tlog (log_eff x w) = tlog w @ [x]" "heap (log_eff x w) = heap w"
  by (simp_all add: log_eff_def)

text \<open>Clearing the flag \<open>connecting\<close> needs nothing and repairs it.\<close>

lemma cached_simps [simp]:
  "cached j (set_inst i f w) = cached j w" "cached j (w\<lparr>tqueue := q\<rparr>) = cached j w"
  "cached j (w\<lparr>tickets := ts\<rparr>) = cached j w" "cached j (w\<lparr>socks := ss\<rparr>) = cached j w"
  by (simp_all add: cached_def)

lemma alive_set_inst [simp]: "alive j (set_inst i f w) = alive j w"
  by (simp add: alive_def has_ticket_def has_socket_def has_retry_def)

lemma pairs_set_inst [simp]: "pairs (set_inst i f w) = pairs w"
  by (simp add: pairs_def)

lemma pairs_log [simp]: "pairs (log_eff x w) = pairs w"
  by (simp add: pairs_def)

lemma inv_disconnect:
  assumes "inv_but X Y w"
  shows "inv_but X (Y - {i}) (set_inst i (\<lambda>n. n\<lparr>connecting := False\<rparr>) w)"
proof -
  let ?w = "set_inst i (\<lambda>n. n\<lparr>connecting := False\<rparr>) w"
  have "own ?w = own w" by (rule ext, case_tac x) simp_all
  then have "slots_ok ?w" using assms by (simp add: inv_but_def slots_ok_def)
  moreover have "pairs_ok ?w" "tickets_ok ?w" using assms by (simp_all add: inv_defs)
  moreover have ws: "ti_ws (heap ?w j) = ti_ws (heap w j)" for j by simp
  then have "ws_ok ?w" using assms by (simp add: inv_but_def ws_ok_def)
  moreover have "alive_but X ?w" using assms by (simp add: inv_but_def alive_but_def)
  moreover have "ws_state ?w j = ws_state w j" "has_ticket j ?w = has_ticket j w" for j
    using ws by (simp_all add: ws_state_def has_ticket_def)
  then have "conn_but (Y - {i}) ?w" using assms by (simp add: inv_but_def conn_but_def)
  ultimately show ?thesis by (simp add: inv_but_def)
qed

definition cb_pairs :: "term_cb timers \<Rightarrow> (nat \<times> string) set" where
  "cb_pairs q = {cb_inst cb | t d cb. timer_lookup q t = Some (d, cb)}"

lemma pairs_alt: "pairs w = {(i, sid). instances w sid = Some i} \<union> snd ` set (tickets w)
     \<union> cb_pairs (tqueue w)
     \<union> {(sock_inst (socks w s), sock_sid (socks w s)) | s. s < next_sock w}
     \<union> {(i, sid). observing w = Some (sid, i)}"
  by (simp add: pairs_def cb_pairs_def)

lemma pairs_tqueue:
  assumes "\<And>t d cb. timer_lookup q t = Some (d, cb) \<Longrightarrow> cb_inst cb \<in> P" and "pairs w \<subseteq> P"
  shows "pairs (w\<lparr>tqueue := q\<rparr>) \<subseteq> P"
proof -
  have "cb_pairs q \<subseteq> P" using assms(1) unfolding cb_pairs_def by blast
  moreover have "pairs (w\<lparr>tqueue := q\<rparr>) \<subseteq> pairs w \<union> cb_pairs q"
    unfolding pairs_alt by simp blast
  ultimately show ?thesis using assms(2) by blast
qed

lemma pairs_cb: "timer_lookup (tqueue w) t = Some (d, cb) \<Longrightarrow> cb_inst cb \<in> pairs w"
  by (auto simp: pairs_def)

text \<open>
  Arming a reconnect timer makes the instance alive; arming a resize timer changes nothing else.
\<close>

lemma alive_retry:
  "alive i w \<Longrightarrow> (\<And>t d sid. timer_lookup (tqueue w) t = Some (d, CbReconnect i sid) \<Longrightarrow>
     timer_lookup q t = Some (d, CbReconnect i sid)) \<Longrightarrow> alive i (w\<lparr>tqueue := q\<rparr>)"
  unfolding alive_def has_ticket_def has_socket_def has_retry_def by simp blast

lemma inv_scheduleReconnect:
  assumes inv: "inv_but X Y w" and p: "fits w i sid"
  shows "inv_but (X - {i}) Y (scheduleReconnect i sid r w)"
proof -
  let ?q = "clear_timeout (reconnectTimer (heap w i)) (tqueue w)"
  let ?d = "nextReconnectDelay (reconnectAttempts (heap w i)) r"
  let ?w = "scheduleReconnect i sid r w"
  obtain t q' where tq: "set_timeout (tclock w) ?d (CbReconnect i sid) ?q = (t, q')" by fastforce
  have w: "?w = set_inst i (\<lambda>n. n\<lparr>reconnectAttempts := Suc (reconnectAttempts n), reconnectTimer := Some t\<rparr>)
      (w\<lparr>tqueue := q'\<rparr>)"
    by (simp add: scheduleReconnect_def Let_def tq)
  have i: "i < next_inst w" using p by (simp add: fits_def)
  then have own_i: "reconnectTimer (heap w i) = own w (ReconnectSlot i)" by simp
  have sl: "slots_of (own w) (tqueue w)" using inv by (simp add: inv_defs)
  note arm = slots_arm [OF sl cb_slot.simps(1) tq [unfolded own_i]]
  have own: "own ?w = (own w)(ReconnectSlot i \<mapsto> t)"
    unfolding w using i by (intro ext, case_tac x) auto
  have prs: "pairs ?w \<subseteq> insert (i, sid) (pairs w)"
    unfolding w pairs_set_inst
    by (rule pairs_tqueue) (auto simp: arm(2) pairs_cb split: if_splits)
  have ali: "alive j ?w" if "alive j w \<or> j = i" for j
  proof (cases "j = i")
    case True
    have "timer_lookup q' t = Some (tclock w + ?d, CbReconnect i sid)" by (simp add: arm(2))
    then show ?thesis unfolding True w by (auto simp: alive_def has_retry_def)
  next
    case False
    with that show ?thesis unfolding w using arm(3) by (auto intro!: alive_retry)
  qed
  have "slots_ok ?w" unfolding slots_ok_def own using arm(1) by (simp add: w)
  moreover have "pairs_ok ?w" using inv p prs pairs_insert [of w i sid ?w] by (simp add: inv_but_def w)
  moreover have "ws_ok ?w" "tickets_ok ?w" using inv by (simp_all add: inv_defs w)
  moreover have "alive_but (X - {i}) ?w"
    using inv ali unfolding inv_but_def alive_but_def by (simp add: w) blast
  moreover have "conn_but Y ?w"
    using inv by (simp add: inv_but_def conn_but_def w has_ticket_def ws_state_def)
  ultimately show ?thesis by (simp add: inv_but_def)
qed

text \<open>Requesting a ticket.\<close>

lemma inv_connectWebSocket:
  assumes inv: "inv_but X Y w" and p: "fits w i sid" and "i \<notin> Y"
  shows "inv_but (X - {i}) Y (connectWebSocket i sid w)"
proof (cases "connecting (heap w i) \<or> ws_state w i = Some CONNECTING \<or> ws_state w i = Some OPEN")
  case True
  have i: "i < next_inst w" using p by (simp add: fits_def)
  have sock: "has_socket i w" if "ws_state w i = Some r" "r \<noteq> CLOSED" for r
    using that inv i by (auto simp: ws_state_def has_socket_def inv_defs)
  have "cached i w \<longrightarrow> alive i w"
    using True sock inv assms(3) by (auto simp: alive_def inv_but_def conn_but_def)
  then show ?thesis
    using True inv by (auto simp: connectWebSocket_def inv_but_def alive_but_def)
next
  case False
  let ?w = "connectWebSocket i sid w"
  have w: "?w = (set_inst i (\<lambda>n. n\<lparr>connecting := True\<rparr>) w)
      \<lparr>tickets := tickets w @ [(next_ticket w, i, sid)], next_ticket := Suc (next_ticket w)\<rparr>"
    using False by (simp add: connectWebSocket_def)
  have "pairs ?w \<subseteq> insert (i, sid) (pairs w)" by (auto simp: pairs_alt w)
  then have "pairs_ok ?w" using inv p pairs_insert [of w i sid ?w] by (simp add: inv_but_def w)
  moreover have "own ?w = own w" by (rule ext, case_tac x) (auto simp: w)
  then have "slots_ok ?w" using inv by (simp add: inv_but_def slots_ok_def w)
  moreover have "tickets_ok ?w" using inv by (auto simp: inv_defs w)
  moreover have "ws_ok ?w" using inv by (simp add: inv_defs w)
  moreover have "has_ticket i ?w" by (auto simp: has_ticket_def w)
  moreover have "has_ticket j w \<Longrightarrow> has_ticket j ?w" for j by (auto simp: has_ticket_def w)
  moreover have "has_socket j ?w = has_socket j w" "has_retry j ?w = has_retry j w"
      "cached j ?w = cached j w" "ws_state ?w j = ws_state w j" for j
    by (auto simp: has_socket_def has_retry_def cached_def ws_state_def w)
  moreover have "j \<noteq> i \<Longrightarrow> connecting (heap ?w j) = connecting (heap w j)" for j by (simp add: w)
  ultimately show ?thesis
    using inv unfolding inv_but_def alive_but_def conn_but_def alive_def by (metis DiffI singletonD)
qed

section \<open>Timers, sockets and instances\<close>

lemma clear_own:
  assumes "slots_of ow q" and "ow x = n" and "timer_lookup q u = Some (e, b)" and "cb_slot b \<noteq> Some x"
  shows "timer_lookup (clear_timeout n q) u = Some (e, b)"
proof -
  obtain y where y: "cb_slot b = Some y" by (cases b) auto
  have "ow y = Some u" using assms(1,3) y by (auto simp: slots_of_def dest: exclusiveD)
  then have "n \<noteq> Some u" using assms y by (auto simp: slots_of_def)
  with assms(3) show ?thesis by simp
qed

lemma inv_clear:
  assumes inv: "inv_but X Y w"
    and keep: "\<And>u d i sid. timer_lookup (tqueue w) u = Some (d, CbReconnect i sid) \<Longrightarrow> i \<notin> X' \<Longrightarrow> n \<noteq> Some u"
  shows "inv_but (X \<union> X') Y (w\<lparr>tqueue := clear_timeout n (tqueue w)\<rparr>)"
proof -
  let ?w = "w\<lparr>tqueue := clear_timeout n (tqueue w)\<rparr>"
  have "pairs ?w \<subseteq> pairs w" by (rule pairs_tqueue) (auto simp: pairs_cb split: if_splits)
  then have "pairs_ok ?w" using inv pairs_sub [of w ?w] by (simp add: inv_but_def)
  moreover have "own ?w = own w" by (rule ext, case_tac x) simp_all
  then have "slots_ok ?w" using inv by (simp add: inv_but_def slots_ok_def slots_clear)
  moreover have "ws_ok ?w" "tickets_ok ?w" using inv by (simp_all add: inv_defs)
  moreover have "alive i ?w" if "alive i w" "i \<notin> X'" for i
    using that keep by (intro alive_retry) auto
  then have "alive_but (X \<union> X') ?w" using inv by (simp add: inv_but_def alive_but_def)
  moreover have "conn_but Y ?w"
    using inv by (simp add: inv_but_def conn_but_def has_ticket_def ws_state_def)
  ultimately show ?thesis by (simp add: inv_but_def)
qed

lemma inv_clear_resize:
  assumes inv: "inv_but X Y w" and i: "i < next_inst w"
  shows "inv_but X Y (w\<lparr>tqueue := clear_timeout (resizeDebounceTimer (heap w i)) (tqueue w)\<rparr>)"
proof -
  have "slots_of (own w) (tqueue w)" using inv by (simp add: inv_but_def slots_ok_def)
  from clear_own [OF this, of "ResizeSlot i"] i
  have "resizeDebounceTimer (heap w i) \<noteq> Some u"
    if "timer_lookup (tqueue w) u = Some (d, CbReconnect j sid)" for u d j sid
    using that by (fastforce split: if_splits)
  then show ?thesis using inv_clear [OF inv, of "{}"] by simp
qed

lemma inv_drop_ticket:
  assumes inv: "inv_but X Y w" and m: "map_of (tickets w) n = Some (i, sid)"
  shows "inv_but (insert i X) (insert i Y) (w\<lparr>tickets := filter (\<lambda>p. fst p \<noteq> n) (tickets w)\<rparr>)"
proof -
  let ?w = "w\<lparr>tickets := filter (\<lambda>p. fst p \<noteq> n) (tickets w)\<rparr>"
  have "pairs ?w \<subseteq> pairs w" by (auto simp: pairs_alt)
  then have "pairs_ok ?w" using inv pairs_sub [of w ?w] by (simp add: inv_but_def)
  moreover have "own ?w = own w" by (rule ext, case_tac x) simp_all
  then have "slots_ok ?w" using inv by (simp add: inv_but_def slots_ok_def)
  moreover have "ws_ok ?w" using inv by (simp add: inv_defs)
  moreover have "tickets_ok ?w"
    using inv by (auto simp: inv_but_def tickets_ok_def intro: distinct_map_filter_key)
  moreover have tk: "has_ticket j ?w" if hj: "has_ticket j w" "j \<noteq> i" for j
  proof -
    obtain k x where k: "(k, j, x) \<in> set (tickets w)" using hj(1) unfolding has_ticket_def by blast
    have "distinct (map fst (tickets w))" using inv by (simp add: inv_but_def tickets_ok_def)
    from map_of_is_SomeI [OF this k] m hj(2) have "k \<noteq> n" by auto
    with k show ?thesis by (auto simp: has_ticket_def)
  qed
  moreover have "has_socket j ?w = has_socket j w" "has_retry j ?w = has_retry j w" for j
    by (simp_all add: has_socket_def has_retry_def)
  then have "alive_but (insert i X) ?w"
    using inv tk by (auto simp: inv_but_def alive_but_def alive_def)
  moreover have "ws_state ?w j = ws_state w j" for j by (simp add: ws_state_def)
  then have "conn_but (insert i Y) ?w" using inv tk by (auto simp: inv_but_def conn_but_def)
  ultimately show ?thesis by (simp add: inv_but_def)
qed

lemma inv_new_socket:
  assumes inv: "inv_but X Y w" and p: "fits w i sid"
  shows "inv_but (X - {i}) (Y - {i}) (new_socket i sid ticket w)"
proof -
  let ?w = "new_socket i sid ticket w"
  let ?s = "next_sock w"
  have i: "i < next_inst w" using p by (simp add: fits_def)
  have f: "instances ?w = instances w" "next_inst ?w = next_inst w" "next_sock ?w = Suc ?s"
    "tickets ?w = tickets w" "next_ticket ?w = next_ticket w" "tqueue ?w = tqueue w"
    "observing ?w = observing w"
    "sock_inst (socks ?w s) = (if s = ?s then i else sock_inst (socks w s))"
    "sock_sid (socks ?w s) = (if s = ?s then sid else sock_sid (socks w s))"
    "sock_state (socks ?w s) = (if s = ?s then CONNECTING else sock_state (socks w s))"
    "ti_ws (heap ?w j) = (if j = i then Some ?s else ti_ws (heap w j))"
    "connecting (heap ?w j) = connecting (heap w j)"
    "reconnectTimer (heap ?w j) = reconnectTimer (heap w j)"
    "resizeDebounceTimer (heap ?w j) = resizeDebounceTimer (heap w j)" for s j
    by (simp_all add: new_socket_def Let_def)
  have "pairs ?w \<subseteq> insert (i, sid) (pairs w)" by (auto simp: pairs_alt f less_Suc_eq split: if_splits)
  then have "pairs_ok ?w" using inv p pairs_insert [of w i sid ?w] by (simp add: inv_but_def f)
  moreover have "own ?w = own w" by (rule ext, case_tac x) (simp_all add: f)
  then have "slots_ok ?w" using inv by (simp add: inv_but_def slots_ok_def f)
  moreover have "ws_ok ?w" using inv by (fastforce simp: inv_but_def ws_ok_def f)
  moreover have "tickets_ok ?w" using inv by (simp add: inv_but_def tickets_ok_def f)
  moreover have new: "has_socket i ?w" by (auto simp: has_socket_def f)
  moreover have old: "has_socket j w \<Longrightarrow> has_socket j ?w" for j
    unfolding has_socket_def f by (metis less_SucI less_irrefl)
  moreover have same: "has_ticket j ?w = has_ticket j w" "has_retry j ?w = has_retry j w"
      "cached j ?w = cached j w" for j
    by (simp_all add: has_ticket_def has_retry_def cached_def f)
  then have "alive_but (X - {i}) ?w"
    using inv new old by (auto simp: inv_but_def alive_but_def alive_def)
  moreover have "ws_state ?w i = Some CONNECTING" by (simp add: ws_state_def f)
  moreover have "ws_state ?w j = ws_state w j" if "j \<noteq> i" "cached j w" for j
  proof -
    have "j < next_inst w" using that(2) inv by (auto simp: inv_but_def cached_def dest: pairsI pairs_less)
    then have "ti_ws (heap w j) \<noteq> Some ?s" using inv by (auto simp: inv_but_def ws_ok_def)
    then show ?thesis using that(1) by (cases "ti_ws (heap w j)") (auto simp: ws_state_def f)
  qed
  then have "conn_but (Y - {i}) ?w"
    using inv \<open>ws_state ?w i = Some CONNECTING\<close> same unfolding inv_but_def conn_but_def
    by (metis DiffI f(12) singletonD)
  ultimately show ?thesis by (simp add: inv_but_def)
qed

lemma inv_set_sock:
  assumes inv: "inv_but X Y w" and "s < next_sock w"
  shows "inv_but (if r = CLOSED then insert (sock_inst (socks w s)) X else X)
    (if sock_state (socks w s) = CONNECTING then insert (sock_inst (socks w s)) Y else Y) (set_sock s r w)"
proof -
  let ?w = "set_sock s r w" and ?i = "sock_inst (socks w s)"
  have f: "instances ?w = instances w" "next_inst ?w = next_inst w" "next_sock ?w = next_sock w"
    "tickets ?w = tickets w" "next_ticket ?w = next_ticket w" "tqueue ?w = tqueue w"
    "observing ?w = observing w" "heap ?w = heap w"
    "sock_inst (socks ?w u) = sock_inst (socks w u)" "sock_sid (socks ?w u) = sock_sid (socks w u)"
    "sock_state (socks ?w u) = (if u = s then r else sock_state (socks w u))" for u
    by (simp_all add: set_sock_def)
  have "pairs ?w = pairs w" by (simp add: pairs_alt f)
  then have "pairs_ok ?w" using inv by (simp add: inv_but_def pairs_ok_def f)
  moreover have "own ?w = own w" by (rule ext, case_tac x) (simp_all add: f)
  then have "slots_ok ?w" using inv by (simp add: inv_but_def slots_ok_def f)
  moreover have "ws_ok ?w" "tickets_ok ?w" using inv by (simp_all add: inv_but_def ws_ok_def tickets_ok_def f)
  moreover have so: "has_socket j w \<Longrightarrow> r \<noteq> CLOSED \<or> j \<noteq> ?i \<Longrightarrow> has_socket j ?w" for j
    unfolding has_socket_def f by metis
  moreover have same: "has_ticket j ?w = has_ticket j w" "has_retry j ?w = has_retry j w"
      "cached j ?w = cached j w" for j
    by (simp_all add: has_ticket_def has_retry_def cached_def f)
  have "alive_but (if r = CLOSED then insert ?i X else X) ?w"
    using inv so same by (auto simp: inv_but_def alive_but_def alive_def)
  moreover have "ws_state ?w j = Some CONNECTING"
    if "ws_state w j = Some CONNECTING" "sock_state (socks w s) \<noteq> CONNECTING \<or> j \<noteq> ?i" "cached j w" for j
  proof -
    have "j < next_inst w" using that(3) inv by (auto simp: inv_but_def cached_def dest: pairsI pairs_less)
    then have "ti_ws (heap w j) = Some s \<Longrightarrow> j = ?i" using inv by (auto simp: inv_but_def ws_ok_def)
    then show ?thesis using that(1,2) by (auto simp: ws_state_def f)
  qed
  then have "conn_but (if sock_state (socks w s) = CONNECTING then insert ?i Y else Y) ?w"
    using inv same by (auto simp: inv_but_def conn_but_def f)
  ultimately show ?thesis by (simp add: inv_but_def)
qed

lemma get_instance_cases:
  assumes "get_instance sid th w = (i, w')"
  obtains "w' = w" and "instances w sid = Some i"
  | "instances w sid = None" and "i = next_inst w"
    and "w' = w\<lparr>instances := (instances w)(sid \<mapsto> i), heap := (heap w)(i := createInstance th),
           next_inst := Suc i\<rparr>"
  using assms by (auto simp: get_instance_def map_get_def map_put_def split: option.splits)

lemma inv_get_instance:
  assumes inv: "inv_but X Y w" and g: "get_instance sid th w = (i, w')"
  shows "instances w' sid = Some i \<and> inv_but (if instances w sid = None then insert i X else X) Y w'"
  using g
proof (cases rule: get_instance_cases)
  case 1
  then show ?thesis using inv by simp
next
  case 2
  have f: "instances w' = (instances w)(sid \<mapsto> i)" "next_inst w' = Suc i" "next_sock w' = next_sock w"
    "tickets w' = tickets w" "next_ticket w' = next_ticket w" "tqueue w' = tqueue w"
    "observing w' = observing w" "socks w' = socks w"
    "heap w' j = (if j = i then createInstance th else heap w j)" for j
    by (simp_all add: 2(3))
  have less: "j < i" if "(j, x) \<in> pairs w" for j x
    using that inv 2(2) by (auto simp: inv_but_def dest: pairs_less)
  let ?u = "w\<lparr>next_inst := Suc i\<rparr>"
  have u: "pairs ?u = pairs w" by (simp add: pairs_alt)
  have "pairs_ok ?u" using inv 2(2) pairs_sub [OF _ eq_refl [OF u]] by (simp add: inv_but_def)
  moreover have "fits ?u i sid" using less unfolding fits_def u by fastforce
  moreover have "pairs w' \<subseteq> insert (i, sid) (pairs ?u)"
    unfolding u by (auto simp: pairs_alt f split: if_splits)
  ultimately have "pairs_ok w'" using pairs_insert [of ?u i sid w'] by (simp add: f)
  moreover have "slots_ok w'"
  proof -
    have "own w' = own w" using 2(2) by (intro ext, case_tac x) (auto simp: f createInstance_def)
    then show ?thesis using inv by (simp add: inv_but_def slots_ok_def f)
  qed
  moreover have "ws_ok w'"
    using inv 2(2) by (auto simp: inv_but_def ws_ok_def f less_Suc_eq createInstance_def)
  moreover have "tickets_ok w'" using inv by (simp add: inv_but_def tickets_ok_def f)
  moreover have same: "has_ticket j w' = has_ticket j w" "has_retry j w' = has_retry j w"
      "has_socket j w' = has_socket j w" for j
    by (simp_all add: has_ticket_def has_retry_def has_socket_def f)
  moreover have c: "cached j w' \<Longrightarrow> j = i \<or> cached j w" for j
    by (auto simp: cached_def f split: if_splits)
  have "alive_but (insert i X) w'"
    using inv c same unfolding inv_but_def alive_but_def alive_def by blast
  moreover have "connecting (heap w' i) = False" by (simp add: f createInstance_def)
  then have "conn_but Y w'"
    using inv same by (auto simp: inv_but_def conn_but_def ws_state_def f dest: c)
  ultimately show ?thesis using 2(1) by (simp add: inv_but_def f)
qed

lemma inv_observing:
  assumes inv: "inv_but X Y w" and "\<And>sid i. ob = Some (sid, i) \<Longrightarrow> (i, sid) \<in> pairs w"
  shows "inv_but X Y (w\<lparr>observing := ob\<rparr>)"
proof -
  let ?w = "w\<lparr>observing := ob\<rparr>"
  have "pairs ?w \<subseteq> pairs w \<union> {(i, sid). ob = Some (sid, i)}" by (auto simp: pairs_alt)
  then have "pairs ?w \<subseteq> pairs w" using assms(2) by auto
  then have "pairs_ok ?w" using inv pairs_sub [of w ?w] by (simp add: inv_but_def)
  moreover have "own ?w = own w" by (rule ext, case_tac x) simp_all
  then have "slots_ok ?w" using inv by (simp add: inv_but_def slots_ok_def)
  moreover have "ws_ok ?w" "tickets_ok ?w" "alive_but X ?w" "conn_but Y ?w"
    using inv by (simp_all add: inv_defs cached_def alive_def has_ticket_def has_socket_def
        has_retry_def ws_state_def)
  ultimately show ?thesis by (simp add: inv_but_def)
qed

lemma inv_observed:
  assumes inv: "inv_but X Y w"
  shows "inv_but X Y (observed d w)"
proof (cases "observed d w = w")
  case False
  then obtain sid j i where ob: "observing w = Some (sid, j)" and i: "instances w sid = Some i"
    and u: "usable d" "\<not> already_sent d (heap w i)"
    by (auto simp: observed_def map_get_def split: option.splits if_splits)
  let ?q = "clear_timeout (resizeDebounceTimer (heap w i)) (tqueue w)"
  obtain t q' where tq: "set_timeout (tclock w) 80 (CbResize i sid) ?q = (t, q')" by fastforce
  have w: "observed d w = set_inst i (\<lambda>n. n\<lparr>resizeDebounceTimer := Some t\<rparr>) (w\<lparr>tqueue := q'\<rparr>)"
    using ob i u tq by (simp add: observed_def map_get_def)
  let ?w = "observed d w"
  have p: "(i, sid) \<in> pairs w" using i by (rule pairsI)
  then have il: "i < next_inst w" using inv by (auto simp: inv_but_def dest: pairs_less)
  then have own_i: "resizeDebounceTimer (heap w i) = own w (ResizeSlot i)" by simp
  have sl: "slots_of (own w) (tqueue w)" using inv by (simp add: inv_but_def slots_ok_def)
  note arm = slots_arm [OF sl cb_slot.simps(2) tq [unfolded own_i]]
  have own: "own ?w = (own w)(ResizeSlot i \<mapsto> t)"
    unfolding w using il by (intro ext, case_tac x) auto
  have "pairs ?w \<subseteq> pairs w"
    unfolding w pairs_set_inst
    by (rule pairs_tqueue) (auto simp: arm(2) p pairs_cb split: if_splits)
  then have "pairs_ok ?w" using inv pairs_sub [of w ?w] by (simp add: inv_but_def w)
  moreover have "slots_ok ?w" unfolding slots_ok_def own using arm(1) by (simp add: w)
  moreover have "ws_ok ?w" "tickets_ok ?w" using inv by (simp_all add: inv_defs w)
  moreover have "alive j ?w" if "alive j w" for j
    unfolding w alive_set_inst using that arm(3) by (intro alive_retry) auto
  then have "alive_but X ?w" using inv by (simp add: inv_but_def alive_but_def w)
  moreover have "conn_but Y ?w"
    using inv by (simp add: inv_but_def conn_but_def w has_ticket_def ws_state_def)
  ultimately show ?thesis by (simp add: inv_but_def)
qed (use inv in simp)

lemma inv_uncache:
  assumes inv: "inv_but (insert i X) (insert i Y) w" and i: "instances w sid = Some i"
  shows "inv_but X Y (w\<lparr>instances := map_del sid (instances w)\<rparr>)"
proof -
  let ?w = "w\<lparr>instances := map_del sid (instances w)\<rparr>"
  have "pairs ?w \<subseteq> pairs w" by (auto simp: pairs_alt map_del_def split: if_splits)
  then have "pairs_ok ?w" using inv pairs_sub [of w ?w] by (simp add: inv_but_def)
  moreover have "own ?w = own w" by (rule ext, case_tac x) simp_all
  then have "slots_ok ?w" using inv by (simp add: inv_but_def slots_ok_def)
  moreover have "ws_ok ?w" "tickets_ok ?w" using inv by (simp_all add: inv_defs)
  moreover have c: "cached j w \<and> j \<noteq> i" if "cached j ?w" for j
  proof -
    obtain x where x: "instances w x = Some j" "x \<noteq> sid"
      using \<open>cached j ?w\<close> by (auto simp: cached_def map_del_def split: if_splits)
    have "pairs_ok w" using inv by (simp add: inv_but_def)
    with x i have "j \<noteq> i" using pairs_unique [of w i x sid] pairsI(1) by metis
    with x show ?thesis by (auto simp: cached_def)
  qed
  have "alive_but X ?w" "conn_but Y ?w"
    using inv c by (auto simp: inv_but_def alive_but_def conn_but_def alive_def has_ticket_def
        has_socket_def has_retry_def ws_state_def)
  ultimately show ?thesis by (simp add: inv_but_def)
qed

section \<open>Every event keeps the invariant\<close>

lemma inv_cleanup: "inv_but X Y w \<Longrightarrow> inv_but X Y (effect_cleanup w)"
proof (cases "observing w")
  case (Some p)
  assume inv: "inv_but X Y w"
  obtain sid i where p: "p = (sid, i)" by (cases p)
  have "(i, sid) \<in> pairs w" using Some p by (simp add: pairsI)
  then have i: "i < next_inst w" using inv by (auto simp: inv_but_def dest: pairs_less)
  let ?w = "(w\<lparr>tqueue := clear_timeout (resizeDebounceTimer (heap w i)) (tqueue w)\<rparr>)\<lparr>observing := None\<rparr>"
  have "inv_but X Y ?w"
    by (rule inv_observing [OF inv_clear_resize [OF inv i]]) simp
  moreover have "same_core ?w (effect_cleanup w)"
    using Some p by (simp add: effect_cleanup_def same_core_def)
  ultimately show ?thesis by (simp only: same_core_inv)
qed (simp add: effect_cleanup_def)

lemma fits_cached: "inv_but X Y w \<Longrightarrow> instances w sid = Some i \<Longrightarrow> fits w i sid"
  by (simp add: inv_but_def pairs_fit pairsI)

text \<open>The mounting effect, cut at the point where the instance is in the cache and its element placed.\<close>

lemma mount_effect_cases:
  obtains "container = None" and "mount_effect sessionId container th gl w = w"
  | c w1 where "container = Some c" and "\<not> truthy sessionId" and "same_core w w1"
      and "mount_effect sessionId container th gl w = w1\<lparr>previousSessionId := None\<rparr>"
  | c sid w1 i w2 w3 where "container = Some c" and "sessionId = Some sid" and "sid \<noteq> []"
      and "same_core w w1" and "get_instance sid th w1 = (i, w2)" and "same_core w2 w3"
      and "mount_effect sessionId container th gl w =
        (if ws_state w3 i = None \<or> ws_state w3 i = Some CLOSED then connectWebSocket i sid w3 else w3)
          \<lparr>previousSessionId := Some sid, observing := Some (sid, i)\<rparr>"
proof (cases container)
  case None
  then show ?thesis using that(1) by (simp add: mount_effect_def)
next
  case (Some c)
  let ?prev = "previousSessionId w"
  define w1 where "w1 = (if truthy ?prev \<and> ?prev \<noteq> sessionId then detachFromContainer (the ?prev) c w else w)"
  have w1: "same_core w w1" by (simp add: w1_def same_core_mounting)
  show ?thesis
  proof (cases "truthy sessionId")
    case False
    then show ?thesis using that(2) [OF Some False w1] Some by (simp add: mount_effect_def w1_def Let_def)
  next
    case True
    then obtain sid where sid: "sessionId = Some sid" "sid \<noteq> []" by (auto elim: truthyE)
    obtain i w2 where g: "get_instance sid th w1 = (i, w2)" by fastforce
    obtain did w3 where pl: "place_terminal i c gl w2 = (did, w3)" by fastforce
    define w4 where "w4 = (if did then log_eff (RefreshTerm i) (log_eff (FitTerm i) w3) else log_eff (FitTerm i) w3)"
    have "same_core w2 w3" using same_core_mounting(6) [of w2 i c gl] pl by simp
    then have w4: "same_core w2 w4" by (simp add: w4_def)
    show ?thesis
      by (rule that(3) [OF Some sid w1 g w4])
        (unfold mount_effect_def Some option.case Let_def w1_def [symmetric],
          simp add: sid g pl w4_def [symmetric])
  qed
qed

lemma inv_mount:
  assumes inv: "term_inv w"
  shows "term_inv (mount_effect sessionId container th gl w)"
proof (cases rule: mount_effect_cases [of container sessionId th gl w])
  case 1
  then show ?thesis using inv by simp
next
  case (2 c w1)
  have "same_core w (w1\<lparr>previousSessionId := None\<rparr>)" using 2(3) by simp
  then show ?thesis using inv 2(4) by (simp add: same_core_inv)
next
  case (3 c sid w1 i w2 w3)
  have inv1: "term_inv w1" using inv same_core_inv [OF 3(4)] by simp
  have i: "instances w2 sid = Some i"
    and inv2: "inv_but (if instances w1 sid = None then {i} else {}) {} w2"
    using inv_get_instance [OF inv1 3(5)] by auto
  have inv3: "inv_but (if instances w1 sid = None then {i} else {}) {} w3"
    using inv2 same_core_inv [OF 3(6)] by simp
  have i3: "instances w3 sid = Some i" using i by (simp add: same_core_world [OF 3(6)])
  define w4 where "w4 = (if ws_state w3 i = None \<or> ws_state w3 i = Some CLOSED
    then connectWebSocket i sid w3 else w3)"
  have i4: "instances w4 sid = Some i" using i3 by (simp add: w4_def connectWebSocket_def)
  have "term_inv w4"
  proof (cases "instances w1 sid")
    case None
    have "ti_ws (heap w2 i) = None"
      using 3(5) None by (auto simp: createInstance_def elim!: get_instance_cases)
    then have "ws_state w3 i = None" by (simp add: ws_state_def same_core_heap [OF 3(6)])
    then show ?thesis
      using inv_connectWebSocket [OF inv3 fits_cached [OF inv3 i3]] None by (simp add: w4_def)
  next
    case (Some j)
    then have "inv_but {} {} w3" using inv3 by simp
    then show ?thesis
      using inv_connectWebSocket [of "{}" "{}" w3 i sid] fits_cached [OF inv3 i3] by (simp add: w4_def)
  qed
  then have "term_inv (w4\<lparr>observing := Some (sid, i)\<rparr>)"
    by (rule inv_observing) (use i4 in \<open>auto intro: pairsI\<close>)
  moreover have "same_core (w4\<lparr>observing := Some (sid, i)\<rparr>)
      (w4\<lparr>previousSessionId := Some sid, observing := Some (sid, i)\<rparr>)"
    by (simp add: same_core_def)
  ultimately have "term_inv (w4\<lparr>previousSessionId := Some sid, observing := Some (sid, i)\<rparr>)"
    by (simp only: same_core_inv)
  then show ?thesis using 3(7) by (simp only: w4_def)
qed

lemma inv_useTerminal: "term_inv w \<Longrightarrow> term_inv (useTerminal sessionId c th gl w)"
  unfolding useTerminal_def Let_def
  by (simp add: same_core_inv [OF same_core_mounting(5)] inv_mount inv_cleanup)

lemma inv_ticket_reply:
  assumes inv: "term_inv w"
  shows "term_inv (ticket_reply n res r w)"
proof (cases "map_of (tickets w) n")
  case None
  then show ?thesis using inv by (simp add: ticket_reply_def)
next
  case (Some p)
  obtain i sid where p: "p = (i, sid)" by (cases p)
  let ?w = "w\<lparr>tickets := filter (\<lambda>p. fst p \<noteq> n) (tickets w)\<rparr>"
  have "(i, sid) \<in> pairs w" using Some p by (auto dest: map_of_SomeD intro: pairsI)
  then have fit: "fits w i sid" using inv by (simp add: inv_but_def pairs_fit)
  have fit1: "fits ?w i sid" by (rule fits_sub [OF fit]) (auto simp: pairs_alt)
  have inv1: "inv_but {i} {i} ?w" using inv_drop_ticket [OF inv Some [unfolded p]] by simp
  let ?w2 = "set_inst i (\<lambda>n. n\<lparr>connecting := False\<rparr>) ?w"
  have inv2: "inv_but {i} {} ?w2" using inv_disconnect [OF inv1, of i] by simp
  have fit2: "fits ?w2 i sid" by (rule fits_sub [OF fit1]) simp_all
  show ?thesis
  proof (cases "requestWebSocketTicket res")
    case (Inl err)
    have "same_core ?w2 (log_eff (Warn err) ?w2)" by simp
    from same_core_inv [OF this] have "inv_but {i} {} (log_eff (Warn err) ?w2)" using inv2 by simp
    from inv_scheduleReconnect [OF this fits_sub [OF fit2]]
    show ?thesis using Some p Inl by (simp add: ticket_reply_def connect_ticket_def)
  next
    case (Inr ticket)
    show ?thesis
    proof (cases "instances w sid")
      case None
      have "\<not> cached i w"
        using None fit pairsI(1) unfolding cached_def fits_def by fastforce
      then have "alive_but {} ?w2" using inv2 by (auto simp: inv_but_def alive_but_def)
      then have "term_inv ?w2" using inv2 by (simp add: inv_but_def)
      then show ?thesis using Some p Inr None
        by (simp add: ticket_reply_def connect_ticket_def map_get_def)
    next
      case (Some j)
      then show ?thesis
        using inv_new_socket [OF inv1 fit1, of ticket] \<open>map_of (tickets w) n = Some p\<close> p Inr
        by (simp add: ticket_reply_def connect_ticket_def map_get_def)
    qed
  qed
qed

lemma inv_onopen:
  assumes inv: "term_inv w" and s: "s < next_sock w"
  shows "term_inv (onopen s (set_sock s OPEN w))"
proof -
  let ?i = "sock_inst (socks w s)"
  let ?w1 = "set_sock s OPEN w"
  have "inv_but {} {?i} ?w1"
    by (rule inv_but_mono [OF inv_set_sock [OF inv s, of OPEN]]) auto
  then have inv2: "term_inv (set_inst ?i (\<lambda>n. n\<lparr>connecting := False\<rparr>) ?w1)"
    using inv_disconnect [of "{}" "{?i}" ?w1 ?i] by simp
  have "sock_inst (socks ?w1 s) = ?i" by (simp add: set_sock_def)
  then have "same_core (set_inst ?i (\<lambda>n. n\<lparr>connecting := False\<rparr>) ?w1) (onopen s ?w1)"
    by (simp add: onopen_def same_core_def core_def Let_def)
  from same_core_inv [OF this] inv2 show ?thesis by simp
qed

lemma inv_closed:
  assumes inv: "term_inv w" and s: "s < next_sock w"
  shows "term_inv (texec (SockClosed s failed r) w)"
proof -
  let ?i = "sock_inst (socks w s)" and ?sid = "sock_sid (socks w s)"
  let ?w1 = "set_sock s CLOSED w"
  let ?w2 = "set_inst ?i (\<lambda>n. n\<lparr>connecting := False\<rparr>) ?w1"
  have f: "sock_inst (socks ?w1 s) = ?i" "sock_sid (socks ?w1 s) = ?sid" by (simp_all add: set_sock_def)
  have "inv_but {?i} {?i} ?w1"
    by (rule inv_but_mono [OF inv_set_sock [OF inv s, of CLOSED]]) auto
  then have inv2: "inv_but {?i} {} ?w2"
    using inv_disconnect [of "{?i}" "{?i}" ?w1 ?i] by simp
  have "fits w ?i ?sid" using inv s by (simp add: inv_but_def pairs_fit pairsI)
  then have fit: "fits ?w2 ?i ?sid" by (rule fits_sub) (auto simp: pairs_alt set_sock_def)
  have idem: "set_inst ?i (\<lambda>n. n\<lparr>connecting := False\<rparr>) ?w2 = ?w2"
    by (simp add: set_inst_def fun_upd_def if_distrib cong: if_cong)
  have "texec (SockClosed s failed r) w = scheduleReconnect ?i ?sid r ?w2"
    using idem by (simp add: onclose_def onerror_def f Let_def)
  then show ?thesis using inv_scheduleReconnect [OF inv2 fit] by simp
qed

lemma inv_timer:
  assumes inv: "term_inv w"
  shows "term_inv (timer_fires t d w)"
proof (cases "timer_lookup (tqueue w) t")
  case None
  then show ?thesis using inv by (simp add: timer_fires_def)
next
  case (Some p)
  obtain due cb where p: "p = (due, cb)" by (cases p)
  let ?w = "w\<lparr>tqueue := clear_timeout (Some t) (tqueue w)\<rparr>"
  have sub: "pairs ?w \<subseteq> pairs w" by (rule pairs_tqueue) (auto simp: pairs_cb split: if_splits)
  show ?thesis
  proof (cases cb)
    case (CbReconnect i sid)
    have "(i, sid) \<in> pairs w" using Some p CbReconnect by (simp add: pairsI)
    then have fit: "fits w i sid" using inv by (simp add: inv_but_def pairs_fit)
    have fit1: "fits ?w i sid" by (rule fits_sub [OF fit sub]) simp
    have "inv_but ({} \<union> {i}) {} ?w"
      by (rule inv_clear [OF inv]) (use Some p CbReconnect in auto)
    then have inv1: "inv_but {i} {} ?w" by simp
    show ?thesis
    proof (cases "instances w sid")
      case None
      have "\<not> cached i ?w"
        using None fit1 pairsI(1) [of w] fit unfolding cached_def fits_def by fastforce
      then have "term_inv ?w" using inv1 by (auto simp: inv_but_def alive_but_def)
      then show ?thesis using Some p CbReconnect None
        by (simp add: timer_fires_def reconnect_callback_def map_get_def)
    next
      case (Some j)
      then show ?thesis
        using inv_connectWebSocket [OF inv1 fit1] \<open>timer_lookup (tqueue w) t = Some p\<close> p CbReconnect
        by (simp add: timer_fires_def reconnect_callback_def map_get_def)
    qed
  next
    case (CbResize i sid)
    have "inv_but ({} \<union> {}) {} ?w"
      by (rule inv_clear [OF inv]) (use Some p CbResize in auto)
    then have "term_inv ?w" by simp
    then show ?thesis
      using Some p CbResize same_core_inv [OF same_core_messages(3)] by (simp add: timer_fires_def)
  qed
qed

lemma close_socket_cases:
  "close_socket n w = w \<or> (\<exists>s. n = Some s \<and> close_socket n w = log_eff (CloseSocket s) (set_sock s CLOSING w))"
  by (simp add: close_socket_def split: option.split)

lemma inv_dispose:
  assumes inv: "term_inv w"
  shows "term_inv (disposeTerminal sid w)"
proof (cases "instances w sid")
  case None
  then show ?thesis using inv by (simp add: disposeTerminal_def map_get_def)
next
  case (Some i)
  have i: "i < next_inst w" using fits_cached [OF inv Some] by (simp add: fits_def)
  let ?w1 = "w\<lparr>tqueue := clear_timeout (reconnectTimer (heap w i)) (tqueue w)\<rparr>"
  let ?w2 = "?w1\<lparr>tqueue := clear_timeout (resizeDebounceTimer (heap ?w1 i)) (tqueue ?w1)\<rparr>"
  have sl: "slots_of (own w) (tqueue w)" using inv by (simp add: inv_but_def slots_ok_def)
  have "inv_but ({} \<union> {i}) {} ?w1"
  proof (rule inv_clear [OF inv])
    fix u d j x assume u: "timer_lookup (tqueue w) u = Some (d, CbReconnect j x)" "j \<notin> {i}"
    from clear_own [OF sl, of "ReconnectSlot i", OF _ this(1)] u(2) i
    show "reconnectTimer (heap w i) \<noteq> Some u" by (auto split: if_splits)
  qed
  then have "inv_but {i} {} ?w1" by simp
  from inv_clear_resize [OF this] i have inv2: "inv_but {i} {} ?w2" by simp
  let ?w3 = "close_socket (ti_ws (heap w i)) ?w2"
  have inv3: "inv_but {i} {i} ?w3"
  proof (cases "?w3 = ?w2")
    case True
    then show ?thesis using inv_but_mono [OF inv2] by simp
  next
    case False
    then obtain s where s: "ti_ws (heap w i) = Some s"
      "?w3 = log_eff (CloseSocket s) (set_sock s CLOSING ?w2)"
      using close_socket_cases [of "ti_ws (heap w i)" ?w2] by blast
    have "s < next_sock ?w2 \<and> sock_inst (socks ?w2 s) = i"
      using inv i s(1) by (auto simp: inv_but_def ws_ok_def)
    then have "inv_but {i} {i} (set_sock s CLOSING ?w2)"
      using inv_but_mono [OF inv_set_sock [OF inv2, of s CLOSING]] by simp
    then show ?thesis using same_core_inv [of "set_sock s CLOSING ?w2" ?w3] s(2) by simp
  qed
  let ?w4 = "set_inst i (\<lambda>n. n\<lparr>ti_disposed := True, ti_parent := None\<rparr>) ?w3"
  have "same_core ?w3 ?w4" by (rule same_core_set) (simp add: core_def)
  then have inv4: "inv_but {i} {i} ?w4" using inv3 by (simp add: same_core_inv)
  have "instances ?w4 sid = Some i"
    using Some close_socket_cases [of "ti_ws (heap w i)" ?w2] by (auto simp: set_sock_def)
  from inv_uncache [OF inv4 this] Some show ?thesis
    by (simp add: disposeTerminal_def map_get_def Let_def)
qed

lemma term_inv_step:
  assumes inv: "term_inv w" and "term_step w e w'"
  shows "term_inv w'"
proof -
  have en: "tenabled e w" and w': "w' = texec e w" using assms(2) by (auto simp: term_step_iff)
  show ?thesis
  proof (cases "cosmetic e")
    case True
    then show ?thesis using inv same_core_inv [OF cosmetic_same_core] w' by simp
  next
    case False
    then show ?thesis
    proof (cases e)
      case (PeerClosing s)
      then have s: "s < next_sock w" "sock_state (socks w s) \<noteq> CONNECTING"
        using en by (auto simp: sock_in_def)
      show ?thesis using inv_set_sock [OF inv s(1), of CLOSING] s(2) PeerClosing w' by simp
    next
      case (SockClosed s failed r)
      then show ?thesis using inv_closed [OF inv, of s failed r] en w' by simp
    next
      case (SockOpen s)
      then show ?thesis using inv_onopen [OF inv, of s] en w' by (simp add: sock_in_def)
    qed (use inv w' in \<open>simp_all add: inv_useTerminal inv_cleanup inv_ticket_reply inv_timer
      inv_observed inv_dispose\<close>)
  qed
qed

lemma term_inv_start: "term_start w \<Longrightarrow> term_inv w"
  by (auto simp: term_start_def inv_defs pairs_def cached_def slots_of_def exclusive_def
      single_valued_def split: slot.splits elim!: own.elims)

interpretation trm: invariant_machine term_start term_step term_inv
  by unfold_locales (rule term_inv_start term_inv_step; assumption)+

end
