(* ===== verification/TermSingle.thy ===== *)
theory TermSingle
  imports TermInv
begin

text \<open>
  One connection per instance. When sockets close at once (no peer starts a closing handshake), an
  instance never has two connections, nor a connection and a ticket request. The invariant says why:
  a ticket request holds the flag \<open>connecting\<close> and excludes a live socket, and a socket that is being
  closed belongs to a disposed instance without a retry.
\<close>

definition single_inv :: "term_world \<Rightarrow> bool" where
  "single_inv w \<longleftrightarrow>
     (\<forall>s < next_sock w. sock_state (socks w s) \<noteq> CLOSED \<longrightarrow> ti_ws (heap w (sock_inst (socks w s))) = Some s)
     \<and> (\<forall>n m i x y. (n, i, x) \<in> set (tickets w) \<longrightarrow> (m, i, y) \<in> set (tickets w) \<longrightarrow> n = m)
     \<and> (\<forall>i. has_ticket i w \<longrightarrow> connecting (heap w i) \<and> \<not> has_socket i w)
     \<and> (\<forall>s < next_sock w. sock_state (socks w s) = CLOSING \<longrightarrow>
          \<not> has_retry (sock_inst (socks w s)) w \<and> \<not> cached (sock_inst (socks w s)) w)"

lemma single_live: "single_inv w \<Longrightarrow> s < next_sock w \<Longrightarrow> sock_state (socks w s) \<noteq> CLOSED \<Longrightarrow>
    ti_ws (heap w (sock_inst (socks w s))) = Some s"
  by (simp add: single_inv_def)

lemma single_ticket: "single_inv w \<Longrightarrow> (n, i, x) \<in> set (tickets w) \<Longrightarrow> (m, i, y) \<in> set (tickets w) \<Longrightarrow> n = m"
  unfolding single_inv_def by blast

lemma single_has_ticket: "single_inv w \<Longrightarrow> has_ticket i w \<Longrightarrow> connecting (heap w i) \<and> \<not> has_socket i w"
  by (simp add: single_inv_def)

lemma single_closing: "single_inv w \<Longrightarrow> s < next_sock w \<Longrightarrow> sock_state (socks w s) = CLOSING \<Longrightarrow>
    \<not> has_retry (sock_inst (socks w s)) w \<and> \<not> cached (sock_inst (socks w s)) w"
  by (simp add: single_inv_def)

lemma has_socketI:
  "s < next_sock w \<Longrightarrow> sock_state (socks w s) \<noteq> CLOSED \<Longrightarrow> has_socket (sock_inst (socks w s)) w"
  by (auto simp: has_socket_def)

lemma sock_inst_less: "inv_but X Y w \<Longrightarrow> s < next_sock w \<Longrightarrow> sock_inst (socks w s) < next_inst w"
  by (auto simp: inv_but_def dest: pairsI(5) pairs_less)

lemma single_frame:
  assumes "single_inv w" and "\<And>s. s < next_sock w \<Longrightarrow> sock_inst (socks w s) < next_inst w"
    and "set (tickets w') \<subseteq> set (tickets w)" and "next_sock w' = next_sock w" and "socks w' = socks w"
    and "\<And>i. i < next_inst w \<Longrightarrow> ti_ws (heap w' i) = ti_ws (heap w i)"
    and "\<And>i. has_ticket i w' \<Longrightarrow> connecting (heap w' i) = connecting (heap w i)"
    and "\<And>i. has_retry i w' \<Longrightarrow> has_retry i w \<or> \<not> has_socket i w"
    and "\<And>i. cached i w' \<Longrightarrow> cached i w \<or> \<not> has_socket i w"
  shows "single_inv w'"
proof -
  have tk: "has_ticket i w' \<Longrightarrow> has_ticket i w" for i
    using assms(3) unfolding has_ticket_def by blast
  have so: "has_socket i w' = has_socket i w" for i by (simp add: has_socket_def assms(4,5))
  have "ti_ws (heap w' (sock_inst (socks w' s))) = Some s"
    if "s < next_sock w'" "sock_state (socks w' s) \<noteq> CLOSED" for s
    using that single_live [OF assms(1), of s] assms(2,6) by (simp add: assms(4,5))
  moreover have "n = m" if "(n, i, x) \<in> set (tickets w')" "(m, i, y) \<in> set (tickets w')" for n m i x y
    using that assms(3) single_ticket [OF assms(1)] by blast
  moreover have "connecting (heap w' i) \<and> \<not> has_socket i w'" if "has_ticket i w'" for i
    using single_has_ticket [OF assms(1) tk [OF that]] assms(7) [OF that] so by simp
  moreover have "\<not> has_retry (sock_inst (socks w' s)) w' \<and> \<not> cached (sock_inst (socks w' s)) w'"
    if "s < next_sock w'" "sock_state (socks w' s) = CLOSING" for s
  proof -
    have s: "s < next_sock w" "sock_state (socks w s) = CLOSING" using that by (simp_all add: assms(4,5))
    then have "has_socket (sock_inst (socks w s)) w" by (simp add: has_socketI)
    then show ?thesis
      using single_closing [OF assms(1) s] assms(8,9) by (auto simp: assms(5))
  qed
  ultimately show ?thesis unfolding single_inv_def by blast
qed

lemma has_simps [simp]:
  "has_ticket j (set_inst i f w) = has_ticket j w" "has_retry j (set_inst i f w) = has_retry j w"
  "has_socket j (set_inst i f w) = has_socket j w"
  "has_ticket j (w\<lparr>tqueue := q\<rparr>) = has_ticket j w" "has_socket j (w\<lparr>tqueue := q\<rparr>) = has_socket j w"
  "has_retry j (w\<lparr>tickets := ts\<rparr>) = has_retry j w" "has_socket j (w\<lparr>tickets := ts\<rparr>) = has_socket j w"
  "has_ticket j (w\<lparr>observing := ob\<rparr>) = has_ticket j w" "has_socket j (w\<lparr>observing := ob\<rparr>) = has_socket j w"
  "has_retry j (w\<lparr>observing := ob\<rparr>) = has_retry j w" "cached j (w\<lparr>observing := ob\<rparr>) = cached j w"
  "has_ticket j (w\<lparr>instances := m\<rparr>) = has_ticket j w" "has_socket j (w\<lparr>instances := m\<rparr>) = has_socket j w"
  "has_retry j (w\<lparr>instances := m\<rparr>) = has_retry j w"
  by (simp_all add: has_ticket_def has_retry_def has_socket_def cached_def)

lemma same_core_single:
  assumes "same_core w w'" and "single_inv w" and "inv_but X Y w"
  shows "single_inv w'"
  by (rule single_frame [OF assms(2)])
    (simp_all add: same_core_world [OF assms(1)] same_core_heap [OF assms(1)] has_retry_def cached_def
      sock_inst_less [OF assms(3)])

lemma single_clear:
  assumes "single_inv w" and "inv_but X Y w"
  shows "single_inv (w\<lparr>tqueue := clear_timeout n (tqueue w)\<rparr>)"
  by (rule single_frame [OF assms(1)])
    (use sock_inst_less [OF assms(2)] in \<open>auto simp: has_retry_def split: if_splits\<close>)

lemma retry_schedule:
  assumes "inv_but X Y w" and "fits w i sid" and "has_retry j (scheduleReconnect i sid r w)"
  shows "has_retry j w \<or> j = i"
proof -
  let ?q = "clear_timeout (reconnectTimer (heap w i)) (tqueue w)"
  let ?d = "nextReconnectDelay (reconnectAttempts (heap w i)) r"
  obtain t q' where tq: "set_timeout (tclock w) ?d (CbReconnect i sid) ?q = (t, q')" by fastforce
  have "timers_wf ?q" using assms(1) by (simp add: inv_but_def slots_ok_def slots_of_def)
  from tmr.look_arm [OF this, of "tclock w" ?d "CbReconnect i sid"] tq assms(3) show ?thesis
    by (auto simp: scheduleReconnect_def Let_def has_retry_def split: if_splits)
qed

lemma single_schedule:
  assumes "single_inv w" and "inv_but X Y w" and "fits w i sid" and "\<not> has_socket i w"
  shows "single_inv (scheduleReconnect i sid r w)"
proof (rule single_frame [OF assms(1)])
  let ?w = "scheduleReconnect i sid r w"
  show "has_retry j w \<or> \<not> has_socket j w" if "has_retry j ?w" for j
    using retry_schedule [OF assms(2,3) that] assms(4) by blast
qed (use sock_inst_less [OF assms(2)] in \<open>auto simp: scheduleReconnect_def Let_def split: prod.splits\<close>)

lemma single_disconnect:
  assumes "single_inv w" and "inv_but X Y w" and "\<not> has_ticket i w"
  shows "single_inv (set_inst i (\<lambda>n. n\<lparr>connecting := False\<rparr>) w)"
  by (rule single_frame [OF assms(1)]) (use assms(3) sock_inst_less [OF assms(2)] in auto)

lemma single_connect:
  assumes single: "single_inv w" and inv: "inv_but X Y w" and i: "i < next_inst w"
    and no: "\<And>s. s < next_sock w \<Longrightarrow> sock_inst (socks w s) = i \<Longrightarrow> sock_state (socks w s) \<noteq> CLOSING"
  shows "single_inv (connectWebSocket i sid w)"
proof (cases "connecting (heap w i) \<or> ws_state w i = Some CONNECTING \<or> ws_state w i = Some OPEN")
  case True
  then show ?thesis using single by (simp add: connectWebSocket_def)
next
  case False
  let ?w = "connectWebSocket i sid w"
  have w: "?w = (set_inst i (\<lambda>n. n\<lparr>connecting := True\<rparr>) w)
      \<lparr>tickets := tickets w @ [(next_ticket w, i, sid)], next_ticket := Suc (next_ticket w)\<rparr>"
    using False by (simp add: connectWebSocket_def)
  have nt: "\<not> has_ticket i w" using single_has_ticket [OF single] False by blast
  have ns: "\<not> has_socket i w"
  proof
    assume "has_socket i w"
    then obtain s where s: "s < next_sock w" "sock_inst (socks w s) = i" "sock_state (socks w s) \<noteq> CLOSED"
      by (auto simp: has_socket_def)
    then have "ws_state w i = Some (sock_state (socks w s))"
      using single_live [OF single s(1,3)] by (simp add: ws_state_def)
    with False s no show False by (cases "sock_state (socks w s)") auto
  qed
  have so: "has_socket j ?w = has_socket j w" "has_retry j ?w = has_retry j w" "cached j ?w = cached j w" for j
    by (simp_all add: w has_socket_def has_retry_def cached_def)
  have tk: "has_ticket j ?w \<longleftrightarrow> has_ticket j w \<or> j = i" for j by (auto simp: w has_ticket_def)
  have f: "socks ?w = socks w" "next_sock ?w = next_sock w"
    "ti_ws (heap ?w j) = ti_ws (heap w j)"
    "connecting (heap ?w j) = (j = i \<or> connecting (heap w j))" for j
    by (simp_all add: w)
  have "n = m" if "(n, j, x) \<in> set (tickets ?w)" "(m, j, y) \<in> set (tickets ?w)" for n m j x y
    using that single_ticket [OF single, of n j x m y] nt by (auto simp: w has_ticket_def)
  then show ?thesis
    using single single_live [OF single] single_has_ticket [OF single] single_closing [OF single] ns
    unfolding single_inv_def so tk f by blast
qed

lemma single_new_socket:
  assumes single: "single_inv w" and inv: "inv_but X Y w" and fit: "fits w i sid"
    and "\<not> has_ticket i w" and ns: "\<not> has_socket i w"
  shows "single_inv (new_socket i sid ticket w)"
proof -
  let ?w = "new_socket i sid ticket w"
  let ?s = "next_sock w"
  have f: "next_sock ?w = Suc ?s" "tickets ?w = tickets w"
    "sock_inst (socks ?w s) = (if s = ?s then i else sock_inst (socks w s))"
    "sock_state (socks ?w s) = (if s = ?s then CONNECTING else sock_state (socks w s))"
    "ti_ws (heap ?w j) = (if j = i then Some ?s else ti_ws (heap w j))"
    "connecting (heap ?w j) = connecting (heap w j)" for s j
    by (simp_all add: new_socket_def Let_def)
  have so: "has_ticket j ?w = has_ticket j w" "has_retry j ?w = has_retry j w" "cached j ?w = cached j w" for j
    by (simp_all add: has_ticket_def has_retry_def cached_def new_socket_def Let_def)
  have hs: "has_socket j ?w \<Longrightarrow> has_socket j w \<or> j = i" for j
    by (auto simp: has_socket_def f less_Suc_eq split: if_splits)
  have other: "sock_inst (socks w s) \<noteq> i" if "s < ?s" "sock_state (socks w s) \<noteq> CLOSED" for s
    using ns has_socketI [OF that] by auto
  have "ti_ws (heap ?w (sock_inst (socks ?w s))) = Some s"
    if "s < next_sock ?w" "sock_state (socks ?w s) \<noteq> CLOSED" for s
    using that other single_live [OF single, of s] by (auto simp: f less_Suc_eq split: if_splits)
  moreover have "connecting (heap ?w j) \<and> \<not> has_socket j ?w" if "has_ticket j ?w" for j
    using that single_has_ticket [OF single, of j] hs assms(4) by (auto simp: so f)
  moreover have "\<not> has_retry (sock_inst (socks ?w s)) ?w \<and> \<not> cached (sock_inst (socks ?w s)) ?w"
    if "s < next_sock ?w" "sock_state (socks ?w s) = CLOSING" for s
    using that single_closing [OF single, of s] by (auto simp: f so less_Suc_eq split: if_splits)
  moreover have "n = m" if "(n, j, x) \<in> set (tickets ?w)" "(m, j, y) \<in> set (tickets ?w)" for n m j x y
    using that single_ticket [OF single] by (simp add: f)
  ultimately show ?thesis unfolding single_inv_def by blast
qed

text \<open>A socket changes its state; if it starts closing, its instance must have no retry and not be cached.\<close>

lemma single_set_sock:
  assumes single: "single_inv w" and s: "s < next_sock w" "sock_state (socks w s) \<noteq> CLOSED"
    and closing: "r = CLOSING \<Longrightarrow> \<not> has_retry (sock_inst (socks w s)) w \<and> \<not> cached (sock_inst (socks w s)) w"
  shows "single_inv (set_sock s r w)"
proof -
  let ?w = "set_sock s r w"
  have f: "next_sock ?w = next_sock w" "tickets ?w = tickets w" "heap ?w = heap w"
    "sock_inst (socks ?w u) = sock_inst (socks w u)"
    "sock_state (socks ?w u) = (if u = s then r else sock_state (socks w u))" for u
    by (simp_all add: set_sock_def)
  have so: "has_ticket j ?w = has_ticket j w" "has_retry j ?w = has_retry j w" "cached j ?w = cached j w" for j
    by (simp_all add: has_ticket_def has_retry_def cached_def set_sock_def)
  have hs: "has_socket j ?w \<Longrightarrow> has_socket j w" for j
    using s by (auto simp: has_socket_def f split: if_splits)
  have "ti_ws (heap ?w (sock_inst (socks ?w u))) = Some u"
    if "u < next_sock ?w" "sock_state (socks ?w u) \<noteq> CLOSED" for u
    using that single_live [OF single, of u] s by (auto simp: f split: if_splits)
  moreover have "connecting (heap ?w j) \<and> \<not> has_socket j ?w" if "has_ticket j ?w" for j
    using that single_has_ticket [OF single, of j] hs by (auto simp: so f)
  moreover have "\<not> has_retry (sock_inst (socks ?w u)) ?w \<and> \<not> cached (sock_inst (socks ?w u)) ?w"
    if "u < next_sock ?w" "sock_state (socks ?w u) = CLOSING" for u
    using that single_closing [OF single, of u] closing by (auto simp: f so split: if_splits)
  moreover have "n = m" if "(n, j, x) \<in> set (tickets ?w)" "(m, j, y) \<in> set (tickets ?w)" for n m j x y
    using that single_ticket [OF single] by (simp add: f)
  ultimately show ?thesis unfolding single_inv_def by blast
qed

section \<open>Every abrupt event keeps it\<close>

lemma closing_uncached:
  "single_inv w \<Longrightarrow> cached i w \<Longrightarrow> s < next_sock w \<Longrightarrow> sock_inst (socks w s) = i \<Longrightarrow>
   sock_state (socks w s) \<noteq> CLOSING"
  using single_closing by blast

lemma single_cleanup: "single_inv w \<Longrightarrow> term_inv w \<Longrightarrow> single_inv (effect_cleanup w)"
proof (cases "observing w")
  case (Some p)
  assume single: "single_inv w" and inv: "term_inv w"
  obtain sid i where p: "p = (sid, i)" by (cases p)
  show ?thesis
    using Some p sock_inst_less [OF inv]
    by (intro single_frame [OF single])
      (auto simp: effect_cleanup_def has_retry_def has_ticket_def cached_def split: if_splits)
qed (simp add: effect_cleanup_def)

lemma single_get_instance:
  assumes single: "single_inv w" and inv: "inv_but X Y w" and g: "get_instance sid th w = (i, w')"
  shows "single_inv w'"
  using g
proof (cases rule: get_instance_cases)
  case 2
  have "cached j w' \<Longrightarrow> cached j w \<or> \<not> has_socket j w" for j
    using 2 sock_inst_less [OF inv] by (fastforce simp: cached_def has_socket_def split: if_splits)
  moreover have "has_ticket j w' \<Longrightarrow> j \<noteq> i" for j
    using 2(2,3) inv by (auto simp: has_ticket_def inv_but_def dest: pairsI(2) pairs_less)
  ultimately show ?thesis
    by (intro single_frame [OF single])
      (use 2(2,3) sock_inst_less [OF inv] in \<open>simp_all add: has_retry_def\<close>)
qed (use single in simp)

lemma single_mount:
  assumes single: "single_inv w" and inv: "term_inv w"
  shows "single_inv (mount_effect sessionId container th gl w)"
proof (cases rule: mount_effect_cases [of container sessionId th gl w])
  case 1
  then show ?thesis using single by simp
next
  case (2 c w1)
  have "same_core w (w1\<lparr>previousSessionId := None\<rparr>)" using 2(3) by simp
  then show ?thesis using single inv 2(4) same_core_single by simp
next
  case (3 c sid w1 i w2 w3)
  have inv1: "term_inv w1" using inv same_core_inv [OF 3(4)] by simp
  have s1: "single_inv w1" by (rule same_core_single [OF 3(4) single inv])
  have i: "instances w2 sid = Some i"
    and "inv_but (if instances w1 sid = None then {i} else {}) {} w2"
    using inv_get_instance [OF inv1 3(5)] by auto
  then have inv2: "inv_but {i} {i} w2"
    using inv_but_mono [of "if instances w1 sid = None then {i} else {}" "{}" w2 "{i}" "{i}"] by simp
  have s2: "single_inv w2" by (rule single_get_instance [OF s1 inv1 3(5)])
  have inv3: "inv_but {i} {i} w3" using inv2 same_core_inv [OF 3(6)] by simp
  have s3: "single_inv w3" by (rule same_core_single [OF 3(6) s2 inv2])
  have i3: "instances w3 sid = Some i" using i by (simp add: same_core_world [OF 3(6)])
  then have c3: "cached i w3" and l3: "i < next_inst w3"
    using fits_cached [OF inv3 i3] by (auto simp: cached_def fits_def)
  define w4 where "w4 = (if ws_state w3 i = None \<or> ws_state w3 i = Some CLOSED
    then connectWebSocket i sid w3 else w3)"
  have s4: "single_inv w4"
    using s3 single_connect [OF s3 inv3 l3] closing_uncached [OF s3 c3] by (auto simp: w4_def)
  have "socks w4 = socks w3" "next_inst w4 = next_inst w3" "next_sock w4 = next_sock w3"
    by (simp_all add: w4_def connectWebSocket_def)
  then have "sock_inst (socks w4 s) < next_inst w4" if "s < next_sock w4" for s
    using that sock_inst_less [OF inv3] by simp
  then have "single_inv (w4\<lparr>previousSessionId := Some sid, observing := Some (sid, i)\<rparr>)"
    by (intro single_frame [OF s4]) (auto simp: has_retry_def has_ticket_def cached_def)
  then show ?thesis using 3(7) by (simp only: w4_def)
qed

lemma single_useTerminal: "single_inv w \<Longrightarrow> term_inv w \<Longrightarrow> single_inv (useTerminal sessionId c th gl w)"
  unfolding useTerminal_def Let_def
  by (rule same_core_single [OF same_core_mounting(5)])
    (auto intro: single_mount single_cleanup inv_mount inv_cleanup)

lemma single_ticket_reply:
  assumes single: "single_inv w" and inv: "term_inv w"
  shows "single_inv (ticket_reply n res r w)"
proof (cases "map_of (tickets w) n")
  case None
  then show ?thesis using single by (simp add: ticket_reply_def)
next
  case (Some p)
  obtain i sid where p: "p = (i, sid)" by (cases p)
  then have t: "(n, i, sid) \<in> set (tickets w)" using Some by (auto dest: map_of_SomeD)
  then have ht: "has_ticket i w" by (auto simp: has_ticket_def)
  then have ns: "\<not> has_socket i w" using single_has_ticket [OF single] by blast
  let ?w = "w\<lparr>tickets := filter (\<lambda>p. fst p \<noteq> n) (tickets w)\<rparr>"
  have "(i, sid) \<in> pairs w" using t by (rule pairsI)
  then have fit: "fits w i sid" using inv by (simp add: inv_but_def pairs_fit)
  have fit1: "fits ?w i sid" by (rule fits_sub [OF fit]) (auto simp: pairs_alt)
  have inv1: "inv_but {i} {i} ?w" using inv_drop_ticket [OF inv Some [unfolded p]] by simp
  have s1: "single_inv ?w"
    by (rule single_frame [OF single]) (use sock_inst_less [OF inv] in auto)
  have nt: "\<not> has_ticket i ?w"
    using single_ticket [OF single t] by (auto simp: has_ticket_def)
  let ?w2 = "set_inst i (\<lambda>n. n\<lparr>connecting := False\<rparr>) ?w"
  have s2: "single_inv ?w2" by (rule single_disconnect [OF s1 inv1 nt])
  have inv2: "inv_but {i} {} ?w2" using inv_disconnect [OF inv1, of i] by simp
  show ?thesis
  proof (cases "requestWebSocketTicket res")
    case (Inl err)
    let ?w3 = "log_eff (Warn err) ?w2"
    have c: "same_core ?w2 ?w3" by simp
    have s3: "single_inv ?w3" by (rule same_core_single [OF c s2 inv2])
    have inv3: "inv_but {i} {} ?w3" using inv2 same_core_inv [OF c] by simp
    have "single_inv (scheduleReconnect i sid r ?w3)"
      by (rule single_schedule [OF s3 inv3 fits_sub [OF fit1]]) (use ns in \<open>simp_all add: has_socket_def\<close>)
    then show ?thesis using Some p Inl by (simp add: ticket_reply_def connect_ticket_def)
  next
    case (Inr ticket)
    have "single_inv (new_socket i sid ticket ?w)"
      by (rule single_new_socket [OF s1 inv1 fit1 nt]) (use ns in simp)
    then show ?thesis using Some p Inr s2 by (simp add: ticket_reply_def connect_ticket_def)
  qed
qed

lemma no_ticket_with_socket: "single_inv w \<Longrightarrow> has_socket i w \<Longrightarrow> \<not> has_ticket i w"
  using single_has_ticket by blast

lemma single_onopen:
  assumes single: "single_inv w" and inv: "term_inv w" and s: "sock_in s CONNECTING w"
  shows "single_inv (onopen s (set_sock s OPEN w))"
proof -
  let ?i = "sock_inst (socks w s)" and ?w1 = "set_sock s OPEN w"
  have l: "s < next_sock w" "sock_state (socks w s) = CONNECTING" using s by (simp_all add: sock_in_def)
  have s1: "single_inv ?w1" by (rule single_set_sock [OF single l(1)]) (use l in simp_all)
  have inv1: "inv_but {} {?i} ?w1"
    by (rule inv_but_mono [OF inv_set_sock [OF inv l(1), of OPEN]]) auto
  have "has_socket ?i w" using l by (simp add: has_socketI)
  then have "\<not> has_ticket ?i ?w1"
    using no_ticket_with_socket [OF single] by (simp add: has_ticket_def set_sock_def)
  from single_disconnect [OF s1 inv1 this]
  have s2: "single_inv (set_inst ?i (\<lambda>n. n\<lparr>connecting := False\<rparr>) ?w1)" .
  have inv2: "inv_but {} ({?i} - {?i}) (set_inst ?i (\<lambda>n. n\<lparr>connecting := False\<rparr>) ?w1)"
    by (rule inv_disconnect [OF inv1])
  have "sock_inst (socks ?w1 s) = ?i" by (simp add: set_sock_def)
  then have "same_core (set_inst ?i (\<lambda>n. n\<lparr>connecting := False\<rparr>) ?w1) (onopen s ?w1)"
    by (simp add: onopen_def same_core_def core_def Let_def)
  then show ?thesis using s2 inv2 by (rule same_core_single)
qed

lemma closed_eq:
  "texec (SockClosed s failed r) w =
     scheduleReconnect (sock_inst (socks w s)) (sock_sid (socks w s)) r
       (set_inst (sock_inst (socks w s)) (\<lambda>n. n\<lparr>connecting := False\<rparr>) (set_sock s CLOSED w))"
proof -
  let ?i = "sock_inst (socks w s)" and ?w1 = "set_sock s CLOSED w"
  let ?w2 = "set_inst ?i (\<lambda>n. n\<lparr>connecting := False\<rparr>) ?w1"
  have f: "sock_inst (socks ?w1 s) = ?i" "sock_sid (socks ?w1 s) = sock_sid (socks w s)"
    by (simp_all add: set_sock_def)
  have "set_inst ?i (\<lambda>n. n\<lparr>connecting := False\<rparr>) ?w2 = ?w2"
    by (simp add: set_inst_def fun_upd_def if_distrib cong: if_cong)
  then show ?thesis by (simp add: onclose_def onerror_def f Let_def)
qed

lemma single_closed:
  assumes single: "single_inv w" and inv: "term_inv w"
    and s: "s < next_sock w" "sock_state (socks w s) \<noteq> CLOSED"
  shows "single_inv (texec (SockClosed s failed r) w)"
proof -
  let ?i = "sock_inst (socks w s)" and ?sid = "sock_sid (socks w s)"
  let ?w1 = "set_sock s CLOSED w"
  let ?w2 = "set_inst ?i (\<lambda>n. n\<lparr>connecting := False\<rparr>) ?w1"
  have s1: "single_inv ?w1" by (rule single_set_sock [OF single s]) simp
  have inv1: "inv_but {?i} {?i} ?w1"
    by (rule inv_but_mono [OF inv_set_sock [OF inv s(1), of CLOSED]]) auto
  have nt: "\<not> has_ticket ?i ?w1"
    using no_ticket_with_socket [OF single has_socketI [OF s]] by (simp add: has_ticket_def set_sock_def)
  have s2: "single_inv ?w2" by (rule single_disconnect [OF s1 inv1 nt])
  have inv2: "inv_but {?i} {} ?w2" using inv_disconnect [OF inv1, of ?i] by simp
  have "fits w ?i ?sid" using inv s by (simp add: inv_but_def pairs_fit pairsI)
  then have fit: "fits ?w2 ?i ?sid" by (rule fits_sub) (auto simp: pairs_alt set_sock_def)
  have "\<not> has_socket ?i ?w2"
  proof
    assume "has_socket ?i ?w2"
    then obtain u where u: "u < next_sock w" "sock_inst (socks w u) = ?i" "u \<noteq> s"
      "sock_state (socks w u) \<noteq> CLOSED"
      by (auto simp: has_socket_def set_sock_def split: if_splits)
    with single_live [OF single u(1,4)] single_live [OF single s] show False by simp
  qed
  from single_schedule [OF s2 inv2 fit this] show ?thesis unfolding closed_eq .
qed

lemma single_timer:
  assumes single: "single_inv w" and inv: "term_inv w"
  shows "single_inv (timer_fires t d w)"
proof (cases "timer_lookup (tqueue w) t")
  case None
  then show ?thesis using single by (simp add: timer_fires_def)
next
  case (Some p)
  obtain due cb where p: "p = (due, cb)" by (cases p)
  let ?w = "w\<lparr>tqueue := clear_timeout (Some t) (tqueue w)\<rparr>"
  have s1: "single_inv ?w" by (rule single_clear [OF single inv])
  show ?thesis
  proof (cases cb)
    case (CbReconnect i sid)
    have "(i, sid) \<in> pairs w" using Some p CbReconnect by (simp add: pairsI)
    then have i: "i < next_inst ?w" using inv by (auto simp: inv_but_def dest: pairs_less)
    have "has_retry i w" using Some p CbReconnect by (auto simp: has_retry_def)
    then have no: "sock_state (socks ?w s) \<noteq> CLOSING" if "s < next_sock ?w" "sock_inst (socks ?w s) = i" for s
      using that single_closing [OF single] by auto
    have "inv_but ({} \<union> {i}) {} ?w"
      by (rule inv_clear [OF inv]) (use Some p CbReconnect in auto)
    from single_connect [OF s1 this i no] show ?thesis
      using Some p CbReconnect s1 by (simp add: timer_fires_def reconnect_callback_def Let_def)
  next
    case (CbResize i sid)
    have "inv_but ({} \<union> {}) {} ?w"
      by (rule inv_clear [OF inv]) (use Some p CbResize in auto)
    from same_core_single [OF same_core_messages(3) s1 this] show ?thesis
      using Some p CbResize by (simp add: timer_fires_def Let_def)
  qed
qed

lemma single_observed:
  assumes single: "single_inv w" and inv: "term_inv w"
  shows "single_inv (observed d w)"
proof (rule single_frame [OF single])
  have wf: "timers_wf (clear_timeout n (tqueue w))" for n
    using inv by (simp add: inv_but_def slots_ok_def slots_of_def)
  have look: "timer_lookup (snd (set_timeout (tclock w) 80 (CbResize i sid) (clear_timeout n (tqueue w)))) u
      = Some (e, CbReconnect j x) \<Longrightarrow> timer_lookup (tqueue w) u = Some (e, CbReconnect j x)" for i sid n u e j x
    by (auto simp: tmr.look_arm [OF wf] split: if_splits)
  show "has_retry j (observed d w) \<Longrightarrow> has_retry j w \<or> \<not> has_socket j w" for j
    unfolding has_retry_def observed_def Let_def
    by (auto split: option.splits if_splits prod.splits dest: look simp: prod_eq_iff)
qed (use sock_inst_less [OF inv] in \<open>auto simp: observed_def Let_def cached_def
  split: option.splits if_splits prod.splits\<close>)

lemma single_dispose:
  assumes single: "single_inv w" and inv: "term_inv w"
  shows "single_inv (disposeTerminal sid w)"
proof (cases "instances w sid")
  case None
  then show ?thesis using single by (simp add: disposeTerminal_def map_get_def)
next
  case (Some i)
  have i: "i < next_inst w" using fits_cached [OF inv Some] by (simp add: fits_def)
  have sl: "slots_of (own w) (tqueue w)" using inv by (simp add: inv_but_def slots_ok_def)
  let ?q = "clear_timeout (resizeDebounceTimer (heap w i)) (clear_timeout (reconnectTimer (heap w i)) (tqueue w))"
  let ?w1 = "w\<lparr>tqueue := ?q, instances := map_del sid (instances w)\<rparr>"
  have s1: "single_inv ?w1"
    by (rule single_frame [OF single])
      (use sock_inst_less [OF inv] in \<open>auto simp: has_retry_def has_ticket_def cached_def map_del_def
        split: if_splits\<close>)
  have nr: "\<not> has_retry i ?w1"
  proof
    assume "has_retry i ?w1"
    then obtain u e x where u: "timer_lookup (tqueue w) u = Some (e, CbReconnect i x)"
      "reconnectTimer (heap w i) \<noteq> Some u"
      by (auto simp: has_retry_def split: if_splits)
    have "own w (ReconnectSlot i) = Some u"
      by (rule exclusiveD [of "own w" "timer_lookup (tqueue w)" cb_slot, OF _ u(1)])
        (use sl in \<open>simp_all add: slots_of_def\<close>)
    with u(2) i show False by simp
  qed
  have nc: "\<not> cached i ?w1"
  proof
    assume "cached i ?w1"
    then obtain x where x: "instances w x = Some i" "x \<noteq> sid"
      by (auto simp: cached_def map_del_def split: if_splits)
    have "(i, x) \<in> pairs w" by (rule pairsI(1) [OF x(1)])
    with fits_cached [OF inv Some] x(2) show False by (simp add: fits_def)
  qed
  have fin: "single_inv w'" if "same_core w2 w'" "single_inv w2" "socks w2 = socks ?w1 \<or>
      (\<exists>s. w2 = set_sock s CLOSING ?w1)" "next_inst w2 = next_inst w" "next_sock w2 = next_sock w" for w' w2
  proof (rule single_frame [OF that(2)])
    show "sock_inst (socks w2 s) < next_inst w2" if "s < next_sock w2" for s
      using that \<open>socks w2 = socks ?w1 \<or> _\<close> \<open>next_inst w2 = _\<close> \<open>next_sock w2 = _\<close>
        sock_inst_less [OF inv] by (auto simp: set_sock_def)
  qed (simp_all add: same_core_world [OF that(1)] same_core_heap [OF that(1)] has_retry_def cached_def)
  show ?thesis
  proof (cases "close_socket (ti_ws (heap w i)) (w\<lparr>tqueue := ?q\<rparr>) = w\<lparr>tqueue := ?q\<rparr>")
    case True
    have "same_core ?w1 (disposeTerminal sid w)"
      using Some True by (simp add: disposeTerminal_def map_get_def Let_def same_core_def core_def)
    then show ?thesis using s1 by (rule fin) simp_all
  next
    case False
    then obtain s where s: "ti_ws (heap w i) = Some s" "sock_state (socks w s) \<noteq> CLOSED"
      "close_socket (ti_ws (heap w i)) (w\<lparr>tqueue := ?q\<rparr>)
         = log_eff (CloseSocket s) (set_sock s CLOSING (w\<lparr>tqueue := ?q\<rparr>))"
      by (auto simp: close_socket_def split: option.splits if_splits)
    have own: "s < next_sock w" "sock_inst (socks w s) = i"
      using inv i s(1) by (auto simp: inv_but_def ws_ok_def)
    have s2: "single_inv (set_sock s CLOSING ?w1)"
      by (rule single_set_sock [OF s1]) (use own s(2) nr nc in simp_all)
    have "same_core (set_sock s CLOSING ?w1) (disposeTerminal sid w)"
      using Some s(3) by (simp add: disposeTerminal_def map_get_def Let_def same_core_def core_def set_sock_def)
    then show ?thesis using s2 by (rule fin) (auto simp: set_sock_def)
  qed
qed

definition conn_inv :: "term_world \<Rightarrow> bool" where
  "conn_inv w \<longleftrightarrow> term_inv w \<and> single_inv w"

lemma conn_inv_step: "conn_inv w \<Longrightarrow> abrupt_step w e w' \<Longrightarrow> conn_inv w'"
proof -
  assume ci: "conn_inv w" and st: "abrupt_step w e w'"
  then have inv: "term_inv w" and single: "single_inv w" and en: "tenabled e w" and w': "w' = texec e w"
    and ab: "\<And>s. e \<noteq> PeerClosing s"
    by (auto simp: conn_inv_def abrupt_step_def term_step_iff)
  have "single_inv w'"
  proof (cases "cosmetic e")
    case True
    then show ?thesis using same_core_single [OF cosmetic_same_core single inv] w' by simp
  next
    case False
    then show ?thesis
    proof (cases e)
      case (SockClosed s failed r)
      then show ?thesis using single_closed [OF single inv, of s failed r] en w' by simp
    qed (use single inv w' en ab in \<open>simp_all add: single_useTerminal single_cleanup single_ticket_reply
      single_onopen single_timer single_observed single_dispose\<close>)
  qed
  moreover have "term_inv w'" using term_inv_step [OF inv] st unfolding abrupt_step_def by blast
  ultimately show ?thesis by (simp add: conn_inv_def)
qed

lemma conn_inv_start: "term_start w \<Longrightarrow> conn_inv w"
  using term_inv_start
  by (auto simp: conn_inv_def single_inv_def term_start_def has_ticket_def)

interpretation abr: invariant_machine term_start abrupt_step conn_inv
  by unfold_locales (rule conn_inv_start conn_inv_step; assumption)+

end
