(* ===== verification/TermConn.thy ===== *)
theory TermConn
  imports TermSingle
begin

text \<open>
  Connection properties of the terminal hook: an instance in the cache always has a connection, a
  ticket request or a retry; it has one connection at most when sockets close at once, and how two
  can arise otherwise; retries come within the backoff bounds, and a closed socket is replaced.
\<close>

section \<open>The cache\<close>

lemma connect_instances [simp]: "instances (connectWebSocket i sid w) = instances w"
  by (simp add: connectWebSocket_def)

lemma schedule_simps [simp]:
  "instances (scheduleReconnect i sid r w) = instances w" "socks (scheduleReconnect i sid r w) = socks w"
  "next_sock (scheduleReconnect i sid r w) = next_sock w" "tickets (scheduleReconnect i sid r w) = tickets w"
  "tclock (scheduleReconnect i sid r w) = tclock w" "tlog (scheduleReconnect i sid r w) = tlog w"
  "ti_ws (heap (scheduleReconnect i sid r w) j) = ti_ws (heap w j)"
  "connecting (heap (scheduleReconnect i sid r w) j) = connecting (heap w j)"
  by (simp_all add: scheduleReconnect_def Let_def split: prod.split)

lemma connect_simps [simp]:
  "socks (connectWebSocket i sid w) = socks w" "next_sock (connectWebSocket i sid w) = next_sock w"
  "tlog (connectWebSocket i sid w) = tlog w" "tclock (connectWebSocket i sid w) = tclock w"
  by (simp_all add: connectWebSocket_def)

lemma observed_simps [simp]:
  "instances (observed d w) = instances w" "socks (observed d w) = socks w"
  "next_sock (observed d w) = next_sock w" "tlog (observed d w) = tlog w"
  by (simp_all add: observed_def Let_def split: option.split prod.split)

lemma cleanup_simps [simp]:
  "instances (effect_cleanup w) = instances w" "socks (effect_cleanup w) = socks w"
  "next_sock (effect_cleanup w) = next_sock w" "tlog (effect_cleanup w) = tlog w"
  by (simp_all add: effect_cleanup_def split: option.split prod.split)

lemma mount_frame:
  "(\<forall>x. instances w x \<noteq> None \<longrightarrow> instances (mount_effect s c th gl w) x = instances w x)
   \<and> (\<forall>x. Some x \<noteq> s \<longrightarrow> instances (mount_effect s c th gl w) x = instances w x)
   \<and> socks (mount_effect s c th gl w) = socks w \<and> next_sock (mount_effect s c th gl w) = next_sock w"
proof (cases rule: mount_effect_cases [of c s th gl w])
  case (3 c' sid w1 i w2 w3)
  have "instances w1 = instances w" "socks w1 = socks w" "next_sock w1 = next_sock w"
    by (simp_all add: same_core_world [OF 3(4)])
  moreover have "instances w3 = instances w2" "socks w3 = socks w2" "next_sock w3 = next_sock w2"
    by (simp_all add: same_core_world [OF 3(6)])
  ultimately show ?thesis
    using 3(2,5) unfolding 3(7) by (auto elim!: get_instance_cases)
qed (simp_all add: same_core_world)

lemma useTerminal_frame:
  "(\<forall>x. instances w x \<noteq> None \<longrightarrow> instances (useTerminal s c th gl w) x = instances w x)
   \<and> (\<forall>x. Some x \<noteq> s \<longrightarrow> instances (useTerminal s c th gl w) x = instances w x)
   \<and> socks (useTerminal s c th gl w) = socks w \<and> next_sock (useTerminal s c th gl w) = next_sock w"
  using mount_frame [of "effect_cleanup w" s c _ gl]
  by (simp add: useTerminal_def Let_def same_core_world [OF same_core_mounting(5)])

lemma dispose_frame:
  "instances (disposeTerminal sid w) = (instances w)(sid := None)"
  "next_sock (disposeTerminal sid w) = next_sock w"
  "sock_sid (socks (disposeTerminal sid w) s) = sock_sid (socks w s)"
proof -
  show "instances (disposeTerminal sid w) = (instances w)(sid := None)"
    using close_socket_cases by (auto simp: disposeTerminal_def map_get_def map_del_def Let_def
        close_socket_def set_sock_def split: option.split)
  show "next_sock (disposeTerminal sid w) = next_sock w"
    "sock_sid (socks (disposeTerminal sid w) s) = sock_sid (socks w s)"
    by (auto simp: disposeTerminal_def Let_def close_socket_def set_sock_def split: option.split)
qed

lemma ticket_frame:
  "instances (ticket_reply n res r w) = instances w"
  "(next_sock (ticket_reply n res r w), socks (ticket_reply n res r w)) = (next_sock w, socks w)
   \<or> (instances w (sock_sid (socks (ticket_reply n res r w) (next_sock w))) \<noteq> None
        \<and> next_sock (ticket_reply n res r w) = Suc (next_sock w)
        \<and> (\<forall>s < next_sock w. socks (ticket_reply n res r w) s = socks w s))"
  by (auto simp: ticket_reply_def connect_ticket_def new_socket_def Let_def map_get_def
      split: option.split prod.split sum.split)

lemma timer_frame:
  "instances (timer_fires t d w) = instances w \<and> socks (timer_fires t d w) = socks w
   \<and> next_sock (timer_fires t d w) = next_sock w"
  using same_core_world [OF same_core_messages(3)]
  by (auto simp: timer_fires_def reconnect_callback_def Let_def split: option.split prod.split term_cb.split)

lemma set_sock_frame [simp]:
  "instances (set_sock s r w) = instances w" "next_sock (set_sock s r w) = next_sock w"
  "sock_sid (socks (set_sock s r w) u) = sock_sid (socks w u)"
  "sock_inst (socks (set_sock s r w) u) = sock_inst (socks w u)"
  "tlog (set_sock s r w) = tlog w" "heap (set_sock s r w) = heap w" "tickets (set_sock s r w) = tickets w"
  "tclock (set_sock s r w) = tclock w" "tqueue (set_sock s r w) = tqueue w"
  "observing (set_sock s r w) = observing w" "next_inst (set_sock s r w) = next_inst w"
  by (simp_all add: set_sock_def)

lemma onopen_frame [simp]:
  "instances (onopen s w) = instances w" "next_sock (onopen s w) = next_sock w" "socks (onopen s w) = socks w"
  by (simp_all add: onopen_def Let_def)

lemma onopen_core: "instances (texec (SockOpen s) w) = instances w"
  by simp

lemma step_instances:
  assumes "term_step w e w'" and "DisposeCall x \<noteq> e" and "instances w x = Some i"
  shows "instances w' x = Some i"
proof -
  have w': "w' = texec e w" using assms(1) by (simp add: term_step_iff)
  show ?thesis
  proof (cases "cosmetic e")
    case True
    then show ?thesis using assms(3) w' same_core_world [OF cosmetic_same_core] by simp
  next
    case False
    then show ?thesis
    proof (cases e)
      case (Render s c th gl)
      then show ?thesis using useTerminal_frame [of w s c th gl] assms(3) w' by simp
    next
      case (SockClosed s f r)
      then show ?thesis using assms(3) w' unfolding SockClosed closed_eq by simp
    qed (use assms(2,3) w' in \<open>simp_all add: ticket_frame timer_frame dispose_frame\<close>)
  qed
qed

lemma step_stays_out:
  assumes "term_step w e w'" and "\<forall>c th gl. e \<noteq> Render (Some x) c th gl" and "instances w x = None"
  shows "instances w' x = None
    \<and> {s. s < next_sock w' \<and> sock_sid (socks w' s) = x} \<subseteq> {s. s < next_sock w \<and> sock_sid (socks w s) = x}"
proof -
  have w': "w' = texec e w" using assms(1) by (simp add: term_step_iff)
  show ?thesis
  proof (cases "cosmetic e")
    case True
    then show ?thesis using assms(3) w' same_core_world [OF cosmetic_same_core] by simp
  next
    case False
    then show ?thesis
    proof (cases e)
      case (Render s c th gl)
      then have "Some x \<noteq> s" using assms(2) by auto
      then show ?thesis using useTerminal_frame [of w s c th gl] assms(3) w' Render by simp
    next
      case (SockClosed s f r)
      then show ?thesis using assms(3) w' unfolding SockClosed closed_eq by simp
    next
      case (TicketReply n res r)
      then show ?thesis using assms(3) w' ticket_frame(1) [of n res r w] ticket_frame(2) [of n res r w]
        by (auto simp: less_Suc_eq split: if_splits)
    qed (use assms(3) w' in \<open>simp_all add: timer_frame dispose_frame\<close>)
  qed
qed

section \<open>Sample runs\<close>

definition blank_inst :: term_inst where "blank_inst = createInstance darkTerminalTheme"

definition term_sample :: term_world where
  "term_sample = \<lparr>instances = Map.empty, heap = (\<lambda>_. blank_inst), next_inst = 0,
     socks = (\<lambda>_. \<lparr>sock_inst = 0, sock_sid = [], sock_state = CLOSED, sock_url = []\<rparr>), next_sock = 0,
     tickets = [], next_ticket = 0, next_gl = 0, tqueue = no_timers, tclock = 0,
     previousSessionId = None, observing = None, page_https = True, page_host = ''host'', tlog = []\<rparr>"

definition ticket_ok :: fetch_result where
  "ticket_ok = Inr \<lparr>res_ok = True, res_status = 200, res_json = Inr (JObj [(''ticket'', JStr ''t&1'')])\<rparr>"

definition show_session :: "string \<Rightarrow> term_event" where
  "show_session sid = Render (Some sid) (Some 0) None True"

definition open_events :: "term_event list" where
  "open_events = [show_session ''s1'', TicketReply 0 ticket_ok 0, SockOpen 0]"

definition attached_msg :: json where
  "attached_msg = JObj [(''type'', JStr ''attached''), (''shell'', JStr ''tmux'')]"

definition after_term :: "term_event list \<Rightarrow> term_world" where
  "after_term es = the (run_term es term_sample)"

lemma term_start_sample: "term_start term_sample"
  by (simp add: term_start_def term_sample_def)

lemma path_after_term:
  "run_term es term_sample \<noteq> None \<Longrightarrow> run_path term_step term_sample es (after_term es)"
  unfolding after_term_def by (metis option.collapse run_term_iff)

lemma reach_after_term:
  "run_term es term_sample \<noteq> None \<Longrightarrow> reach term_start term_step (after_term es)"
  by (rule run_path_reach [OF path_after_term]) (simp_all add: reach_start term_start_sample)

lemma run_abrupt:
  "run_path term_step w es w' \<Longrightarrow> \<forall>s. PeerClosing s \<notin> set es \<Longrightarrow> run_path abrupt_step w es w'"
  by (induction rule: run_path.induct) (auto simp: abrupt_step_def intro!: run_path.intros)

lemma reach_after_abrupt:
  assumes "run_term es term_sample \<noteq> None" and "\<forall>s. PeerClosing s \<notin> set es"
  shows "reach term_start abrupt_step (after_term es)"
proof -
  from run_abrupt [OF path_after_term [OF assms(1)] assms(2)] show ?thesis
    by (rule run_path_reach) (simp add: reach_start term_start_sample)
qed

section \<open>Properties\<close>

text \<open>
  C16: A session whose terminal is in the cache stays there, with the same instance, through every run
  in which it is not disposed, and at every moment it has a live socket, a ticket request under way, or
  a pending reconnect timer: it never gives up and is never stuck, whatever fails. In particular a
  session that was deleted but not disposed goes on connecting.
\<close>
theorem cached_terminal_keeps_connecting:
  assumes "reach term_start term_step w" and "instances w sid = Some i"
    and "run_path term_step w es w'" and "DisposeCall sid \<notin> set es"
  shows "instances w' sid = Some i \<and> (has_socket i w' \<or> has_ticket i w' \<or> has_retry i w')"
proof -
  have "instances w' sid = Some i"
    using assms(3,2,4) by (induction rule: run_path.induct) (auto dest: step_instances)
  moreover have "term_inv w'" using trm.run_inv [OF assms(3) trm.reach_inv [OF assms(1)]] .
  ultimately show ?thesis by (auto simp: inv_but_def alive_but_def cached_def alive_def)
qed

theorem cached_terminal_keeps_connecting_witness:
  "has_socket 0 (after_term (open_events @ [SockClosed 0 True 0, TermTick 400, TimerFires 1 None]))
   \<or> has_ticket 0 (after_term (open_events @ [SockClosed 0 True 0, TermTick 400, TimerFires 1 None]))
   \<or> has_retry 0 (after_term (open_events @ [SockClosed 0 True 0, TermTick 400, TimerFires 1 None]))"
proof -
  let ?es = "open_events @ [SockClosed 0 True 0, TermTick 400, TimerFires 1 None]"
  have "run_term ?es term_sample \<noteq> None" by code_simp
  note r = reach_after_term [OF this]
  have "instances (after_term ?es) ''s1'' = Some 0" by code_simp
  from cached_terminal_keeps_connecting [OF r this run_nil] show ?thesis by simp
qed

text \<open>
  C13: When sockets close at once, without a closing handshake of the peer, an instance has one
  connection at most: never two sockets that are not closed, nor a ticket request beside a socket, nor
  two ticket requests; and a ticket request holds the flag \<open>connecting\<close>.
\<close>
theorem single_connection:
  assumes "reach term_start abrupt_step w"
  shows "(\<forall>s u. s < next_sock w \<longrightarrow> u < next_sock w \<longrightarrow> sock_inst (socks w s) = sock_inst (socks w u)
      \<longrightarrow> sock_state (socks w s) \<noteq> CLOSED \<longrightarrow> sock_state (socks w u) \<noteq> CLOSED \<longrightarrow> s = u)
    \<and> (\<forall>i. has_ticket i w \<longrightarrow> \<not> has_socket i w \<and> connecting (heap w i))
    \<and> (\<forall>n m i x y. (n, i, x) \<in> set (tickets w) \<longrightarrow> (m, i, y) \<in> set (tickets w) \<longrightarrow> n = m)"
proof -
  have single: "single_inv w" using abr.reach_inv [OF assms] by (simp add: conn_inv_def)
  have "s = u" if "s < next_sock w" "u < next_sock w" "sock_inst (socks w s) = sock_inst (socks w u)"
    "sock_state (socks w s) \<noteq> CLOSED" "sock_state (socks w u) \<noteq> CLOSED" for s u
    using single_live [OF single that(1,4)] single_live [OF single that(2,5)] that(3)
    by (metis option.inject)
  moreover have "\<not> has_socket i w \<and> connecting (heap w i)" if "has_ticket i w" for i
    using single_has_ticket [OF single that] by blast
  ultimately show ?thesis using single_ticket [OF single] by blast
qed

theorem single_connection_witness:
  "\<not> has_ticket 0 (after_term open_events) \<and> has_socket 0 (after_term open_events)"
proof -
  have "run_term open_events term_sample \<noteq> None" by code_simp
  moreover have "\<forall>s. PeerClosing s \<notin> set open_events"
    by (simp add: open_events_def show_session_def)
  ultimately have "reach term_start abrupt_step (after_term open_events)" by (rule reach_after_abrupt)
  from single_connection [OF this]
  have "\<forall>i. has_ticket i (after_term open_events) \<longrightarrow> \<not> has_socket i (after_term open_events)
      \<and> connecting (heap (after_term open_events) i)"
    by (elim conjE)
  moreover have "has_socket 0 (after_term open_events)"
    unfolding has_socket_def
  proof (intro exI conjI)
    show "0 < next_sock (after_term open_events)" by code_simp
    show "sock_inst (socks (after_term open_events) 0) = 0" by code_simp
    show "sock_state (socks (after_term open_events) 0) \<noteq> CLOSED" by code_simp
  qed
  ultimately show ?thesis by blast
qed

text \<open>The delay before its rounding, and the range of the rounded one.\<close>

lemma delay_range:
  assumes "0 \<le> r" and "r < 1" and "base = min 10000 (500 * 2 ^ n)"
  defines "x \<equiv> base + base * (1 / 5) * (r * 2 - 1)"
  shows "500 \<le> base" and "base \<le> 10000" and "base * (4 / 5) \<le> x" and "x < base * (6 / 5)"
    and "nextReconnectDelay n r = \<lfloor>x\<rfloor>"
proof -
  show b: "500 \<le> base" "base \<le> 10000" using assms(3) one_le_power [of "2 :: rat" n] by auto
  have x: "x = base * (4 / 5) + base * (2 / 5) * r" by (simp add: x_def algebra_simps)
  show lo: "base * (4 / 5) \<le> x" using b assms(1) by (simp add: x)
  have "base * (2 / 5) * r < base * (2 / 5)" using b assms(2) by simp
  then show "x < base * (6 / 5)" by (simp add: x)
  have "400 \<le> x" using lo b by linarith
  then have "400 \<le> \<lfloor>x\<rfloor>" by (simp add: le_floor_iff)
  then show "nextReconnectDelay n r = \<lfloor>x\<rfloor>"
    by (simp add: nextReconnectDelay_def Let_def x_def assms(3))
qed

lemma delay_bounds:
  assumes "0 \<le> r" and "r < 1"
  shows "400 \<le> nextReconnectDelay n r" and "nextReconnectDelay n r < 12000"
proof -
  note range = delay_range [OF assms refl, of n]
  show "400 \<le> nextReconnectDelay n r" unfolding range(5) le_floor_iff using range(1,3) by linarith
  show "nextReconnectDelay n r < 12000" unfolding range(5) floor_less_iff using range(2,4) by linarith
qed

text \<open>
  C15: For a random number of at least 0 and less than 1, the reconnect delay lies within 20 percent of
  500 ms doubled per attempt, that base capped at 10 s: it is at least 400 ms (so the floor of 250 ms
  never applies) and less than 12 s, and it does exceed the 10 s that the comment gives as the cap.
\<close>
theorem reconnect_delay_bounds:
  assumes "0 \<le> r" and "r < 1" and "base = min 10000 (500 * 2 ^ n)"
  shows "400 \<le> nextReconnectDelay n r \<and> nextReconnectDelay n r < 12000
    \<and> base * (4 / 5) - 1 < rat_of_int (nextReconnectDelay n r)
    \<and> rat_of_int (nextReconnectDelay n r) \<le> base * (6 / 5)
    \<and> 10000 < nextReconnectDelay 5 (9 / 10)"
proof -
  let ?x = "base + base * (1 / 5) * (r * 2 - 1)"
  note range = delay_range [OF assms]
  have "?x < rat_of_int \<lfloor>?x\<rfloor> + 1" "rat_of_int \<lfloor>?x\<rfloor> \<le> ?x" by linarith+
  then have "base * (4 / 5) - 1 < rat_of_int \<lfloor>?x\<rfloor>" "rat_of_int \<lfloor>?x\<rfloor> \<le> base * (6 / 5)"
    using range(3,4) by linarith+
  moreover have "10000 < nextReconnectDelay 5 (9 / 10)" by code_simp
  ultimately show ?thesis using delay_bounds [OF assms(1,2), of n] unfolding range(5) by (intro conjI)
qed

theorem reconnect_delay_bounds_witness:
  "400 \<le> nextReconnectDelay 0 0 \<and> nextReconnectDelay 0 0 < 12000"
  using reconnect_delay_bounds [of 0 "min 10000 (500 * 2 ^ 0)" 0] by simp

lemma retry_after_closed:
  assumes "inv_but X Y w" and "fits w i sid"
  shows "\<exists>t. timer_lookup (tqueue (scheduleReconnect i sid r w)) t =
    Some (tclock w + nextReconnectDelay (reconnectAttempts (heap w i)) r, CbReconnect i sid)"
proof -
  let ?q = "clear_timeout (reconnectTimer (heap w i)) (tqueue w)"
  let ?d = "nextReconnectDelay (reconnectAttempts (heap w i)) r"
  obtain t q' where tq: "set_timeout (tclock w) ?d (CbReconnect i sid) ?q = (t, q')" by fastforce
  have "timers_wf ?q" using assms(1) by (simp add: inv_but_def slots_ok_def slots_of_def)
  from tmr.look_arm [OF this, of "tclock w" ?d "CbReconnect i sid" t] tq
  show ?thesis by (auto simp: scheduleReconnect_def Let_def)
qed

lemma page_frame [simp]:
  "page_https (set_inst i f w) = page_https w" "page_host (set_inst i f w) = page_host w"
  by (simp_all add: set_inst_def)

lemma fresh_ticket:
  assumes "inv_but X Y w"
  shows "map_of (tickets w @ [(next_ticket w, p)]) (next_ticket w) = Some p"
proof -
  have "next_ticket w \<notin> fst ` set (tickets w)" using assms by (force simp: inv_but_def tickets_ok_def)
  then show ?thesis by (simp add: map_add_def map_of_eq_None_iff [THEN iffD2])
qed

text \<open>A due retry of an instance that neither connects nor has a socket in use requests a ticket.\<close>

lemma retry_requests:
  assumes "timer_lookup (tqueue w) t = Some (due, CbReconnect i sid)" and "due \<le> tclock w"
    and "instances w sid = Some i" and "\<not> connecting (heap w i)"
    and "ws_state w i \<noteq> Some CONNECTING" and "ws_state w i \<noteq> Some OPEN"
  shows "term_step w (TimerFires t dm) (texec (TimerFires t dm) w)"
    and "texec (TimerFires t dm) w = (set_inst i (\<lambda>n. n\<lparr>connecting := True\<rparr>)
      (w\<lparr>tqueue := clear_timeout (Some t) (tqueue w)\<rparr>))
      \<lparr>tickets := tickets w @ [(next_ticket w, i, sid)], next_ticket := Suc (next_ticket w)\<rparr>"
proof -
  show "term_step w (TimerFires t dm) (texec (TimerFires t dm) w)" by (rule tstep) (use assms in simp)
  let ?u = "w\<lparr>tqueue := clear_timeout (Some t) (tqueue w)\<rparr>"
  have "texec (TimerFires t dm) w = connectWebSocket i sid ?u"
    using assms(1,3) by (simp add: timer_fires_def reconnect_callback_def map_get_def Let_def)
  moreover have "ws_state ?u i = ws_state w i" by (simp add: ws_state_def)
  ultimately show "texec (TimerFires t dm) w = (set_inst i (\<lambda>n. n\<lparr>connecting := True\<rparr>) ?u)
      \<lparr>tickets := tickets w @ [(next_ticket w, i, sid)], next_ticket := Suc (next_ticket w)\<rparr>"
    using assms(4-6) by (simp add: connectWebSocket_def)
qed

text \<open>What closing a socket and waiting for its retry leave alone.\<close>

definition same_page :: "term_world \<Rightarrow> term_world \<Rightarrow> bool" where
  "same_page w w' \<longleftrightarrow> page_https w' = page_https w \<and> page_host w' = page_host w \<and> tlog w' = tlog w
     \<and> next_sock w' = next_sock w \<and> instances w' = instances w"

text \<open>When the socket an instance holds closes, its retry requests a ticket after the backoff delay.\<close>

lemma close_then_retry:
  assumes inv: "term_inv w" and cached: "instances w sid = Some i" and ws: "ti_ws (heap w i) = Some s"
    and live: "sock_state (socks w s) \<noteq> CLOSED" and r: "0 \<le> r" "r < 1"
    and d: "d = nextReconnectDelay (reconnectAttempts (heap w i)) r"
  shows "\<exists>t w'. run_path term_step w [SockClosed s failed r, TermTick d, TimerFires t None] w'
    \<and> same_page w w' \<and> tclock w' = tclock w + d
    \<and> tickets w' = tickets w @ [(next_ticket w, i, sid)] \<and> next_ticket w' = Suc (next_ticket w)"
proof -
  have s: "s < next_sock w" "sock_inst (socks w s) = i"
    using inv fits_cached [OF inv cached] ws by (auto simp: inv_but_def ws_ok_def fits_def)
  have sid: "sock_sid (socks w s) = sid"
    using pairs_unique [OF _ pairsI(5) [OF s(1), unfolded s(2)] pairsI(1) [OF cached]] inv by (simp add: inv_but_def)
  let ?w1 = "texec (SockClosed s failed r) w"
  let ?u = "set_inst i (\<lambda>n. n\<lparr>connecting := False\<rparr>) (set_sock s CLOSED w)"
  have w1: "?w1 = scheduleReconnect i sid r ?u" unfolding closed_eq sid s(2) ..
  have st1: "term_step w (SockClosed s failed r) ?w1" by (rule tstep) (use s live r in simp)
  have invu: "inv_but {i} ({i} - {i}) ?u"
    by (rule inv_disconnect) (rule inv_but_mono [OF inv_set_sock [OF inv s(1), of CLOSED]], auto simp: s(2))
  have fitu: "fits ?u i sid"
    using fits_cached [OF inv cached] by (rule fits_sub) (auto simp: pairs_alt)
  obtain t where t: "timer_lookup (tqueue ?w1) t = Some (tclock w + d, CbReconnect i sid)"
    using retry_after_closed [OF invu fitu, of r] unfolding w1 by (auto simp: d)
  have f1: "tickets ?w1 = tickets w" "next_ticket ?w1 = next_ticket w" "tclock ?w1 = tclock w"
    "same_page w ?w1" "\<not> connecting (heap ?w1 i)" "ws_state ?w1 i = Some CLOSED"
    unfolding w1 using ws
    by (simp_all add: scheduleReconnect_def same_page_def ws_state_def set_sock_def Let_def split: prod.split)
  have c1: "instances ?w1 sid = Some i" using f1(4) cached by (simp add: same_page_def)
  let ?w2 = "texec (TermTick d) ?w1"
  have "0 \<le> d" using delay_bounds(1) [OF r, of "reconnectAttempts (heap w i)"] by (simp add: d)
  then have st2: "term_step ?w1 (TermTick d) ?w2" by (intro tstep) simp
  have r2: "timer_lookup (tqueue ?w2) t = Some (tclock w + d, CbReconnect i sid)" "tclock w + d \<le> tclock ?w2"
    "instances ?w2 sid = Some i" "\<not> connecting (heap ?w2 i)" "ws_state ?w2 i \<noteq> Some CONNECTING"
    "ws_state ?w2 i \<noteq> Some OPEN"
    unfolding texec.simps(20) using t f1 c1 by (auto simp: ws_state_def simp del: texec.simps)
  note fires = retry_requests [OF r2, of None]
  have "run_path term_step w [SockClosed s failed r, TermTick d, TimerFires t None] (texec (TimerFires t None) ?w2)"
    by (rule run_path.intros st1 st2 fires(1))+
  moreover have "same_page w (texec (TimerFires t None) ?w2) \<and> tclock (texec (TimerFires t None) ?w2) = tclock w + d
      \<and> tickets (texec (TimerFires t None) ?w2) = tickets w @ [(next_ticket w, i, sid)]
      \<and> next_ticket (texec (TimerFires t None) ?w2) = Suc (next_ticket w)"
    unfolding fires(2) unfolding texec.simps(20) using f1 by (simp add: same_page_def del: texec.simps)
  ultimately show ?thesis by blast
qed

text \<open>The answer to a ticket request, when the platform grants the ticket, and the opening of the socket.\<close>

lemma ticket_opens:
  assumes "map_of (tickets w) n = Some (i, sid)" and "requestWebSocketTicket res = Inr tk"
    and "instances w sid \<noteq> None" and "0 \<le> r" and "r < 1" and "k = next_sock w"
  shows "\<exists>w'. term_step w (TicketReply n res r) w' \<and> next_sock w' = Suc k \<and> instances w' = instances w
    \<and> tickets w' = filter (\<lambda>p. fst p \<noteq> n) (tickets w) \<and> tclock w' = tclock w \<and> ti_ws (heap w' i) = Some k
    \<and> socks w' = (socks w)(k := \<lparr>sock_inst = i, sock_sid = sid, sock_state = CONNECTING, sock_url = socket_url w sid tk\<rparr>)
    \<and> tlog w' = tlog w @ [NewSocket k (socket_url w sid tk)]"
proof -
  let ?v = "w\<lparr>tickets := filter (\<lambda>p. fst p \<noteq> n) (tickets w)\<rparr>"
  have "texec (TicketReply n res r) w = new_socket i sid tk ?v"
    using assms by (auto simp: ticket_reply_def connect_ticket_def map_get_def)
  moreover have "socket_url ?v sid tk = socket_url w sid tk" by (simp add: socket_url_def)
  moreover have "term_step w (TicketReply n res r) (texec (TicketReply n res r) w)"
    by (rule tstep) (use assms in simp)
  ultimately show ?thesis using assms(6)
    by (intro exI [of _ "new_socket i sid tk ?v"]) (simp add: new_socket_def Let_def)
qed

lemma socket_opens:
  assumes "k < next_sock w" and "sock_state (socks w k) = CONNECTING" and "sock_inst (socks w k) = i"
  shows "\<exists>w'. term_step w (SockOpen k) w' \<and> socks w' = (socks w)(k := (socks w k)\<lparr>sock_state := OPEN\<rparr>)
    \<and> next_sock w' = next_sock w \<and> tclock w' = tclock w \<and> tlog w' = tlog w @ [FitTerm i]
    \<and> (\<forall>j. ti_ws (heap w' j) = ti_ws (heap w j)) \<and> reconnectAttempts (heap w' i) = 0"
proof -
  have "term_step w (SockOpen k) (texec (SockOpen k) w)" by (rule tstep) (use assms in \<open>simp add: sock_in_def\<close>)
  then show ?thesis using assms
    by (intro exI [of _ "texec (SockOpen k) w"]) (simp add: onopen_def set_sock_def Let_def)
qed

text \<open>
  C14: The socket of a cached session that closes is replaced. Among the runs in which no peer starts a
  closing handshake there is always the one in which the backoff delay for the attempts so far passes
  (less than 12 s), the armed timer fires, the server grants the ticket and the new socket opens: it
  ends with a new socket for the same session, addressed with the new ticket, open and held by the same
  instance, and with the count of attempts back at zero. Nothing was sent in between.
\<close>
theorem closed_socket_reconnects:
  assumes "reach term_start abrupt_step w" and "s < next_sock w"
    and "sock_state (socks w s) \<noteq> CLOSED" and "instances w sid = Some (sock_inst (socks w s))"
    and "0 \<le> r" and "r < 1" and "requestWebSocketTicket res = Inr tk"
    and "i = sock_inst (socks w s)" and "d = nextReconnectDelay (reconnectAttempts (heap w i)) r"
  shows "d < 12000 \<and> (\<exists>t w'. run_path abrupt_step w
      [SockClosed s failed r, TermTick d, TimerFires t None, TicketReply (next_ticket w) res r,
       SockOpen (next_sock w)] w'
    \<and> ti_ws (heap w' i) = Some (next_sock w) \<and> sock_in (next_sock w) OPEN w'
    \<and> socks w' (next_sock w) = \<lparr>sock_inst = i, sock_sid = sid, sock_state = OPEN, sock_url = socket_url w sid tk\<rparr>
    \<and> reconnectAttempts (heap w' i) = 0 \<and> tclock w' = tclock w + d
    \<and> tlog w' = tlog w @ [NewSocket (next_sock w) (socket_url w sid tk), FitTerm i])"
proof -
  have ci: "conn_inv w" using assms(1) by (rule abr.reach_inv)
  then have inv: "term_inv w" and single: "single_inv w" by (simp_all add: conn_inv_def)
  have cached: "instances w sid = Some i" using assms(4,8) by simp
  have ws: "ti_ws (heap w i) = Some s" using single_live [OF single assms(2,3)] assms(8) by simp
  obtain t w3 where w3: "run_path term_step w [SockClosed s failed r, TermTick d, TimerFires t None] w3"
    "same_page w w3" "tclock w3 = tclock w + d" "tickets w3 = tickets w @ [(next_ticket w, i, sid)]"
    using close_then_retry [OF inv cached ws assms(3,5,6,9)] by blast
  have "map_of (tickets w3) (next_ticket w) = Some (i, sid)" unfolding w3(4) by (rule fresh_ticket [OF inv])
  moreover have c3: "instances w3 sid \<noteq> None" "next_sock w = next_sock w3" "tlog w3 = tlog w"
    "socket_url w3 sid tk = socket_url w sid tk"
    using w3(2) cached by (simp_all add: same_page_def socket_url_def)
  ultimately obtain w4 where w4: "term_step w3 (TicketReply (next_ticket w) res r) w4" "next_sock w4 = Suc (next_sock w)"
    "tclock w4 = tclock w3" "ti_ws (heap w4 i) = Some (next_sock w)"
    "socks w4 (next_sock w) = \<lparr>sock_inst = i, sock_sid = sid, sock_state = CONNECTING, sock_url = socket_url w sid tk\<rparr>"
    "tlog w4 = tlog w @ [NewSocket (next_sock w) (socket_url w sid tk)]"
    using ticket_opens [OF _ assms(7) _ assms(5,6), of w3 "next_ticket w" i sid "next_sock w"] by auto
  obtain w5 where w5: "term_step w4 (SockOpen (next_sock w)) w5" "tclock w5 = tclock w4"
    "socks w5 = (socks w4)(next_sock w := (socks w4 (next_sock w))\<lparr>sock_state := OPEN\<rparr>)"
    "next_sock w5 = next_sock w4" "tlog w5 = tlog w4 @ [FitTerm i]"
    "ti_ws (heap w5 i) = ti_ws (heap w4 i)" "reconnectAttempts (heap w5 i) = 0"
    using socket_opens [of "next_sock w" w4 i] w4 by auto
  have "run_path term_step w ([SockClosed s failed r, TermTick d, TimerFires t None]
      @ [TicketReply (next_ticket w) res r, SockOpen (next_sock w)]) w5"
    by (rule run_path_append [OF w3(1)]) (rule run_path.intros w4(1) w5(1))+
  then have "run_path abrupt_step w [SockClosed s failed r, TermTick d, TimerFires t None,
      TicketReply (next_ticket w) res r, SockOpen (next_sock w)] w5"
    by (intro run_abrupt) simp_all
  moreover have "d < 12000" unfolding assms(9) by (rule delay_bounds(2) [OF assms(5,6)])
  ultimately show ?thesis using w3(3) w4 w5 by (intro conjI exI [of _ t] exI [of _ w5]) (simp_all add: sock_in_def)
qed

theorem closed_socket_reconnects_witness:
  "\<exists>t w'. run_path abrupt_step (after_term open_events)
      [SockClosed 0 True 0, TermTick 400, TimerFires t None, TicketReply 1 ticket_ok 0, SockOpen 1] w'
    \<and> ti_ws (heap w' 0) = Some 1 \<and> sock_in 1 OPEN w'"
proof -
  let ?w = "after_term open_events"
  have run: "run_term open_events term_sample \<noteq> None" by code_simp
  have "\<forall>s. PeerClosing s \<notin> set open_events" by (simp add: open_events_def show_session_def)
  note r = reach_after_abrupt [OF run this]
  have 1: "0 < next_sock ?w" and 2: "sock_state (socks ?w 0) \<noteq> CLOSED"
    and 3: "sock_inst (socks ?w 0) = 0" and 4: "instances ?w ''s1'' = Some 0"
    and 5: "nextReconnectDelay (reconnectAttempts (heap ?w 0)) 0 = 400"
    and 6: "next_ticket ?w = 1" "next_sock ?w = 1"
    and 7: "requestWebSocketTicket ticket_ok = Inr ''t&1''"
    by code_simp+
  have 8: "instances ?w ''s1'' = Some (sock_inst (socks ?w 0))" by (simp only: 3 4)
  from closed_socket_reconnects [OF r 1 2 8 _ _ 7, of 0 0 400 True] show ?thesis unfolding 3 5 6 by auto
qed

text \<open>A run that leads there: the first socket closes, the session is shown again before its retry fires,
  and the second socket starts closing while that retry is due.\<close>

definition race_events :: "term_event list" where
  "race_events = open_events @ [SockClosed 0 False 0, show_session ''s2'', show_session ''s1'',
     TicketReply 2 ticket_ok 0, SockOpen 1, PeerClosing 1, TermTick 500]"

text \<open>
  C18: A closing handshake can end in two open connections of one terminal. In every state in which the
  socket of a cached session is closing and an older retry of its terminal is due, the following can
  happen: the retry fires and requests a ticket, the socket closes, which resets \<open>connecting\<close> and
  schedules another retry, that retry requests a second ticket, both tickets are granted and both
  sockets open. Both sockets write to the same terminal, which holds only the second one: it will
  neither close the first nor send on it.
\<close>
theorem closing_handshake_race:
  assumes "reach term_start term_step w" and "instances w sid = Some i"
    and "ti_ws (heap w i) = Some s" and "sock_state (socks w s) = CLOSING" and "\<not> connecting (heap w i)"
    and "timer_lookup (tqueue w) t = Some (due, CbReconnect i sid)" and "due \<le> tclock w"
    and "0 \<le> r" and "r < 1" and "requestWebSocketTicket res = Inr tk"
    and "n = next_ticket w" and "k = next_sock w" and "d = nextReconnectDelay (reconnectAttempts (heap w i)) r"
  shows "\<exists>t' w'. run_path term_step w [TimerFires t None, SockClosed s False r, TermTick d, TimerFires t' None,
      TicketReply n res r, TicketReply (Suc n) res r, SockOpen k, SockOpen (Suc k)] w'
    \<and> sock_in k OPEN w' \<and> sock_in (Suc k) OPEN w'
    \<and> sock_inst (socks w' k) = i \<and> sock_inst (socks w' (Suc k)) = i
    \<and> ti_ws (heap w' i) = Some (Suc k)"
proof -
  have inv: "term_inv w" by (rule trm.reach_inv [OF assms(1)])
  have idle: "ws_state w i \<noteq> Some CONNECTING" "ws_state w i \<noteq> Some OPEN"
    using assms(3,4) by (simp_all add: ws_state_def)
  note fires = retry_requests [OF assms(6,7,2,5) idle, of None]
  define w1 where "w1 = texec (TimerFires t None) w"
  have inv1: "term_inv w1" unfolding w1_def by (rule term_inv_step [OF inv fires(1)])
  have f1: "socks w1 = socks w" "next_sock w1 = k" "ti_ws (heap w1 i) = Some s" "instances w1 sid = Some i"
    "tickets w1 = tickets w @ [(n, i, sid)]" "next_ticket w1 = Suc n"
    "reconnectAttempts (heap w1 i) = reconnectAttempts (heap w i)"
    unfolding w1_def fires(2) using assms by simp_all
  have live: "sock_state (socks w1 s) \<noteq> CLOSED" and d: "d = nextReconnectDelay (reconnectAttempts (heap w1 i)) r"
    using f1 assms(4,13) by simp_all
  obtain t' w4 where w4: "run_path term_step w1 [SockClosed s False r, TermTick d, TimerFires t' None] w4"
    "same_page w1 w4" "tickets w4 = tickets w @ [(n, i, sid), (Suc n, i, sid)]"
    using close_then_retry [OF inv1 f1(4,3) live assms(8,9) d, of False] f1(5,6) by auto
  have c4: "instances w4 sid \<noteq> None" "k = next_sock w4" using w4(2) f1 by (simp_all add: same_page_def)
  have old: "fst p < n" if "p \<in> set (tickets w)" for p
    using inv that assms(11) by (simp add: inv_but_def tickets_ok_def)
  then have keys: "map_of (tickets w) n = None" "map_of (filter (\<lambda>p. fst p \<noteq> n) (tickets w)) (Suc n) = None"
    by (force simp: map_of_eq_None_iff)+
  have "map_of (tickets w4) n = Some (i, sid)" unfolding w4(3) by (simp add: map_add_def keys)
  from ticket_opens [OF this assms(10) c4(1) assms(8,9) c4(2)] obtain w5 where
    w5: "term_step w4 (TicketReply n res r) w5" "next_sock w5 = Suc k" "instances w5 sid \<noteq> None"
    "tickets w5 = filter (\<lambda>p. fst p \<noteq> n) (tickets w) @ [(Suc n, i, sid)]"
    "sock_state (socks w5 k) = CONNECTING" "sock_inst (socks w5 k) = i"
    using c4(1) w4(3) by auto
  have "map_of (tickets w5) (Suc n) = Some (i, sid)" unfolding w5(4) by (simp add: map_add_def keys)
  from ticket_opens [OF this assms(10) w5(3) assms(8,9) w5(2) [symmetric]] obtain w6 where
    w6: "term_step w5 (TicketReply (Suc n) res r) w6" "next_sock w6 = Suc (Suc k)" "ti_ws (heap w6 i) = Some (Suc k)"
    "sock_state (socks w6 k) = CONNECTING" "sock_inst (socks w6 k) = i"
    "sock_state (socks w6 (Suc k)) = CONNECTING" "sock_inst (socks w6 (Suc k)) = i"
    using w5 by auto
  obtain w7 where w7: "term_step w6 (SockOpen k) w7" "next_sock w7 = Suc (Suc k)" "ti_ws (heap w7 i) = Some (Suc k)"
    "sock_state (socks w7 k) = OPEN" "sock_inst (socks w7 k) = i"
    "sock_state (socks w7 (Suc k)) = CONNECTING" "sock_inst (socks w7 (Suc k)) = i"
    using socket_opens [of k w6 i] w6 by auto
  obtain w8 where w8: "term_step w7 (SockOpen (Suc k)) w8" "next_sock w8 = Suc (Suc k)" "ti_ws (heap w8 i) = Some (Suc k)"
    "sock_state (socks w8 k) = OPEN" "sock_inst (socks w8 k) = i"
    "sock_state (socks w8 (Suc k)) = OPEN" "sock_inst (socks w8 (Suc k)) = i"
    using socket_opens [of "Suc k" w7 i] w7 by auto
  have "run_path term_step w1 ([SockClosed s False r, TermTick d, TimerFires t' None]
      @ [TicketReply n res r, TicketReply (Suc n) res r, SockOpen k, SockOpen (Suc k)]) w8"
    by (rule run_path_append [OF w4(1)]) (rule run_path.intros w5(1) w6(1) w7(1) w8(1))+
  then have "run_path term_step w (TimerFires t None # [SockClosed s False r, TermTick d, TimerFires t' None]
      @ [TicketReply n res r, TicketReply (Suc n) res r, SockOpen k, SockOpen (Suc k)]) w8"
    by (rule run_cons [where step = term_step, OF fires(1) [folded w1_def]])
  then show ?thesis using w8 by (intro exI [of _ t'] exI [of _ w8]) (simp add: sock_in_def)
qed

theorem closing_handshake_race_witness:
  "\<exists>t' w'. run_path term_step (after_term race_events) [TimerFires 1 None, SockClosed 1 False 0, TermTick 400,
      TimerFires t' None, TicketReply 3 ticket_ok 0, TicketReply (Suc 3) ticket_ok 0, SockOpen 2, SockOpen (Suc 2)] w'
    \<and> sock_in 2 OPEN w' \<and> sock_in (Suc 2) OPEN w' \<and> sock_inst (socks w' 2) = 0 \<and> sock_inst (socks w' (Suc 2)) = 0
    \<and> ti_ws (heap w' 0) = Some (Suc 2)"
proof -
  let ?w = "after_term race_events"
  have run: "run_term race_events term_sample \<noteq> None" by code_simp
  have 1: "instances ?w ''s1'' = Some 0" and 2: "ti_ws (heap ?w 0) = Some 1"
    and 3: "sock_state (socks ?w 1) = CLOSING" and 4: "\<not> connecting (heap ?w 0)"
    and 5: "timer_lookup (tqueue ?w) 1 = Some (400, CbReconnect 0 ''s1'')" and 6: "400 \<le> tclock ?w"
    and 7: "requestWebSocketTicket ticket_ok = Inr ''t&1''"
    and 8: "3 = next_ticket ?w" and 9: "2 = next_sock ?w"
    and 10: "400 = nextReconnectDelay (reconnectAttempts (heap ?w 0)) 0"
    by code_simp+
  show ?thesis by (rule closing_handshake_race [OF reach_after_term [OF run] 1 2 3 4 5 6 _ _ 7 8 9 10]) simp_all
qed

text \<open>
  No step moves a socket's \<open>readyState\<close> back: it only ever goes from connecting over open and
  closing to closed, and a socket's instance and session never change.
\<close>
lemma ready_state_monotone:
  assumes "reach term_start term_step w" and "term_step w e w'" and "s < next_sock w"
  shows "s < next_sock w' \<and> sock_state (socks w s) \<le> sock_state (socks w' s)
    \<and> sock_inst (socks w' s) = sock_inst (socks w s) \<and> sock_sid (socks w' s) = sock_sid (socks w s)"
proof -
  have en: "tenabled e w" and w': "w' = texec e w" using assms(2) by (auto simp: term_step_iff)
  have st: "sock_state (socks (set_sock u r w) s) = (if s = u then r else sock_state (socks w s))" for u r
    by (simp add: set_sock_def)
  show ?thesis
  proof (cases "cosmetic e")
    case True
    then show ?thesis using assms(3) w' same_core_world [OF cosmetic_same_core] by simp
  next
    case False
    then show ?thesis
    proof (cases e)
      case (Render sid c th gl)
      then show ?thesis using useTerminal_frame [of w sid c th gl] assms(3) w' by simp
    next
      case (SockClosed u f r)
      then show ?thesis using assms(3) w' unfolding SockClosed closed_eq
        by (auto simp: st less_eq_ready_state_def split: if_splits) (cases "sock_state (socks w u)"; simp)
    next
      case (TicketReply n res r)
      then show ?thesis using assms(3) w' ticket_frame(2) [of n res r w] by auto
    next
      case (DisposeCall sid)
      have "sock_state (socks w s) \<le> sock_state (socks (disposeTerminal sid w) s)
          \<and> sock_inst (socks (disposeTerminal sid w) s) = sock_inst (socks w s)"
        by (cases "sock_state (socks w s)")
          (auto simp: disposeTerminal_def Let_def close_socket_def set_sock_def less_eq_ready_state_def
            split: option.split)
      then show ?thesis using DisposeCall assms(3) w' by (simp add: dispose_frame)
    next
      case (SockOpen u)
      then show ?thesis using assms(3) w' en by (auto simp: st sock_in_def less_eq_ready_state_def)
    next
      case (PeerClosing u)
      then show ?thesis using assms(3) w' en by (auto simp: st sock_in_def less_eq_ready_state_def)
    qed (use assms(3) w' in \<open>simp_all add: timer_frame\<close>)
  qed
qed

section \<open>The socket's address\<close>

definition hex_value :: "char \<Rightarrow> nat" where
  "hex_value c = (let n = of_char c in if n < 58 then n - 48 else n - 55)"

fun percent_decode :: "string \<Rightarrow> bytes" where
  "percent_decode [] = []"
| "percent_decode [c] = [of_nat (of_char c)]"
| "percent_decode [c, d] = [of_nat (of_char c), of_nat (of_char d)]"
| "percent_decode (c # h # l # cs) =
     (if c = CHR ''%'' then of_nat (16 * hex_value h + hex_value l) # percent_decode cs
      else of_nat (of_char c) # percent_decode (h # l # cs))"

lemma hex_value_digit: "n < 16 \<Longrightarrow> hex_value (hex_digit n) = n"
  by (simp add: hex_value_def hex_digit_def Let_def)

lemma percent_decode_percent: "percent_decode (percent b @ cs) = b # percent_decode cs"
proof -
  have "unat b < 2 ^ LENGTH(8)" by (rule unsigned_less)
  then have "unat b div 16 < 16" "unat b mod 16 < 16" by simp_all
  then have "16 * hex_value (hex_digit (unat b div 16)) + hex_value (hex_digit (unat b mod 16)) = unat b"
    by (simp add: hex_value_digit)
  then show ?thesis by (simp add: percent_def del: of_nat_add of_nat_mult)
qed

lemma percent_decode_plain: "c \<noteq> CHR ''%'' \<Longrightarrow> percent_decode (c # cs) = of_nat (of_char c) # percent_decode cs"
  by (cases cs rule: list.exhaust; cases "tl cs") auto

lemma percent_decode_concat: "percent_decode (concat (map percent bs) @ cs) = bs @ percent_decode cs"
  by (induction bs) (simp_all add: percent_decode_percent)

lemma unreserved_facts:
  assumes "uri_unreserved c"
  shows "c \<noteq> CHR ''%''" and "(of_char c :: nat) < 128"
  using assms by (auto simp: uri_unreserved_def Let_def)

text \<open>
  The ticket in the socket's address is encoded faithfully: percent-decoding the component gives the
  ticket's UTF-8 bytes, and it contains unreserved characters, percent signs and hex digits only, so it
  can neither end the query nor add to it.
\<close>
lemma ticket_encoding:
  "percent_decode (encodeURIComponent s) = concat (map (\<lambda>c. utf8_char (of_char c)) s)
   \<and> set (encodeURIComponent s) \<subseteq> {c. uri_unreserved c} \<union> {CHR ''%''}"
proof
  show "percent_decode (encodeURIComponent s) = concat (map (\<lambda>c. utf8_char (of_char c)) s)"
  proof (induction s)
    case (Cons c s)
    show ?case
    proof (cases "uri_unreserved c")
      case True
      then have "utf8_char (of_char c) = [of_nat (of_char c)]"
        using unreserved_facts [OF True] by (simp add: utf8_char_def)
      with True Cons show ?thesis
        using unreserved_facts [OF True] by (simp add: encodeURIComponent_def percent_decode_plain)
    next
      case False
      with Cons show ?thesis by (simp add: encodeURIComponent_def percent_decode_concat)
    qed
  qed (simp add: encodeURIComponent_def)
  have hex: "uri_unreserved (hex_digit n)" if "n < 16" for n
    using that by (auto simp: uri_unreserved_def hex_digit_def Let_def)
  have "uri_unreserved c \<or> c = CHR ''%''" if "c \<in> set (percent b)" for c b
  proof -
    have "unat b < 2 ^ LENGTH(8)" by (rule unsigned_less)
    then have "unat b div 16 < 16" "unat b mod 16 < 16" by simp_all
    with that hex show ?thesis by (auto simp: percent_def)
  qed
  then show "set (encodeURIComponent s) \<subseteq> {c. uri_unreserved c} \<union> {CHR ''%''}"
    by (auto simp: encodeURIComponent_def split: if_splits)
qed

end
