(* ===== verification/TermIO.thy ===== *)
theory TermIO
  imports TermConn
begin

text \<open>
  What the terminal hook puts on the wire: every message goes to the open socket of the instance it
  belongs to, each terminal listens to its input once, sizes are sent once they settle, and typed text
  reads back from the bytes that are sent.
\<close>

section \<open>Quiet operations\<close>

fun is_send :: "term_eff \<Rightarrow> bool" where
  "is_send (SendBytes _ _) = True"
| "is_send (SendText _ _) = True"
| "is_send _ = False"

definition logs :: "(term_eff \<Rightarrow> bool) \<Rightarrow> term_world \<Rightarrow> term_world \<Rightarrow> bool" where
  "logs P w w' \<longleftrightarrow> (\<exists>xs. tlog w' = tlog w @ xs \<and> (\<forall>x \<in> set xs. P x))"

abbreviation quiet :: "term_world \<Rightarrow> term_world \<Rightarrow> bool" where
  "quiet \<equiv> logs (\<lambda>x. \<not> is_send x)"

lemma logs_same [intro]: "tlog w' = tlog w \<Longrightarrow> logs P w w'"
  by (simp add: logs_def)

lemma logs_trans: "logs P w w1 \<Longrightarrow> logs P w1 w2 \<Longrightarrow> logs P w w2"
  unfolding logs_def by (metis append.assoc set_append Un_iff)

lemma logs_one: "tlog w' = tlog w @ [x] \<Longrightarrow> P x \<Longrightarrow> logs P w w'"
  by (auto simp: logs_def)

lemma logs_eff: "logs P w w' \<Longrightarrow> P x \<Longrightarrow> logs P w (log_eff x w')"
  by (erule logs_trans) (simp add: logs_one)

lemma logs_cong: "logs P w w' \<Longrightarrow> tlog w'' = tlog w' \<Longrightarrow> logs P w w''"
  by (simp add: logs_def)

lemma quiet_loadWebgl: "quiet w (loadWebgl i ok w)"
  by (auto simp: loadWebgl_def intro: logs_one)

lemma quiet_bind: "quiet w (bindInputListeners i w)"
  by (auto simp: bindInputListeners_def)

lemma quiet_place: "quiet w (snd (place_terminal i c ok w))"
proof -
  have "quiet w (bindInputListeners i (loadWebgl i ok
      (set_inst i (\<lambda>n. n\<lparr>ti_opened := True, ti_parent := Some c\<rparr>) w)))"
    by (rule logs_trans [OF logs_trans [OF _ quiet_loadWebgl] quiet_bind]) auto
  then show ?thesis by (auto simp: place_terminal_def)
qed

lemma quiet_detach: "quiet w (detachFromContainer sid c w)"
  by (auto simp: detachFromContainer_def split: option.split)

lemma quiet_get: "get_instance sid th w = (i, w') \<Longrightarrow> quiet w w'"
  by (auto elim!: get_instance_cases)

lemma quiet_mount: "quiet w (mount_effect s container th gl w)"
proof (cases container)
  case (Some c)
  let ?prev = "previousSessionId w"
  define w1 where "w1 = (if truthy ?prev \<and> ?prev \<noteq> s then detachFromContainer (the ?prev) c w else w)"
  have 1: "quiet w w1" by (auto simp: w1_def quiet_detach)
  obtain i w2 where g: "get_instance (the s) th w1 = (i, w2)" by fastforce
  obtain did w3 where pl: "place_terminal i c gl w2 = (did, w3)" by fastforce
  have 2: "quiet w w3"
    using logs_trans [OF logs_trans [OF 1 quiet_get [OF g]] quiet_place [of w2 i c gl]] pl by simp
  define w4 where "w4 = (if did then log_eff (RefreshTerm i) (log_eff (FitTerm i) w3) else log_eff (FitTerm i) w3)"
  have 3: "quiet w w4" by (auto simp: w4_def intro!: logs_eff 2)
  have "mount_effect s container th gl w = (if \<not> truthy s then w1\<lparr>previousSessionId := None\<rparr>
      else (if ws_state w4 i = None \<or> ws_state w4 i = Some CLOSED then connectWebSocket i (the s) w4 else w4)
        \<lparr>previousSessionId := Some (the s), observing := Some (the s, i)\<rparr>)"
    unfolding mount_effect_def Some option.case Let_def w1_def [symmetric]
    by (simp add: g pl w4_def [symmetric])
  then show ?thesis using logs_cong [OF 1] logs_cong [OF 3] by simp
qed (auto simp: mount_effect_def)

lemma quiet_theme: "quiet w (theme_effect s th w)"
  by (auto simp: theme_effect_def split: option.split)

lemma quiet_useTerminal: "quiet w (useTerminal s c th gl w)"
  unfolding useTerminal_def Let_def
  by (rule logs_trans [OF logs_trans [OF _ quiet_mount] quiet_theme]) auto

lemma quiet_connect_ticket: "quiet w (connect_ticket i sid res r w)"
  by (auto simp: connect_ticket_def new_socket_def Let_def intro: logs_one split: sum.split)

lemma quiet_ticket: "quiet w (ticket_reply n res r w)"
proof (cases "map_of (tickets w) n")
  case (Some p)
  let ?u = "w\<lparr>tickets := filter (\<lambda>p. fst p \<noteq> n) (tickets w)\<rparr>"
  have "quiet ?u (connect_ticket (fst p) (snd p) res r ?u)" by (rule quiet_connect_ticket)
  then show ?thesis using Some by (cases p) (simp add: ticket_reply_def logs_def)
qed (auto simp: ticket_reply_def)

lemma quiet_contextLost: "quiet w (contextLost i ok w)"
  unfolding contextLost_def by (rule logs_trans [OF _ quiet_loadWebgl]) (auto intro: logs_one)

lemma quiet_dispose: "quiet w (disposeTerminal sid w)"
  by (auto simp: disposeTerminal_def close_socket_def Let_def intro: logs_one split: option.split)

section \<open>Bytes go to the open socket of the instance\<close>

definition to_socket :: "term_world \<Rightarrow> nat \<Rightarrow> term_eff \<Rightarrow> bool" where
  "to_socket w i x \<longleftrightarrow>
     (\<exists>s b. x = SendBytes s b \<and> ti_ws (heap w i) = Some s \<and> sock_state (socks w s) = OPEN)"

lemma ws_open: "ws_state w i = Some OPEN \<longleftrightarrow> (\<exists>s. ti_ws (heap w i) = Some s \<and> sock_state (socks w s) = OPEN)"
  by (auto simp: ws_state_def)

lemma to_socket_core: "same_core w w' \<Longrightarrow> to_socket w' i = to_socket w i"
  by (rule ext) (simp add: to_socket_def same_core_heap same_core_world)

lemma ws_state_core: "same_core w w' \<Longrightarrow> ws_state w' i = ws_state w i"
  by (simp add: ws_state_def same_core_heap same_core_world)

lemma bytes_sendBytes: "logs (to_socket w i) w (sendBytes i b w)"
proof (cases "ws_state w i = Some OPEN")
  case True
  then show ?thesis by (auto simp: sendBytes_def to_socket_def ws_open intro!: logs_one)
qed (auto simp: sendBytes_def)

lemma bytes_sendString: "logs (to_socket w i) w (sendString i d w)"
  unfolding sendString_def by (rule bytes_sendBytes)

lemma bytes_onData: "logs (to_socket w i) w (onData i d w)"
  by (auto simp: onData_def bytes_sendString)

lemma bytes_onBinary: "logs (to_socket w i) w (onBinary i d w)"
  unfolding onBinary_def by (rule bytes_sendBytes)

lemma bytes_compositionend: "logs (to_socket w i) w (compositionend i d w)"
proof -
  let ?w = "set_inst i (\<lambda>n. n\<lparr>composing := False\<rparr>) w"
  have "to_socket ?w i = to_socket w i" by (rule to_socket_core) (simp add: same_core_set core_def)
  then have "logs (to_socket w i) ?w (sendString i d ?w)"
    using bytes_sendString [of ?w i d] by simp
  then show ?thesis by (auto simp: compositionend_def Let_def logs_def)
qed

lemma bytes_onKey: "logs (to_socket w i) w (snd (onKey i k w))"
  by (auto simp: onKey_def bytes_sendString split: prod.split option.split)

lemma bytes_each:
  assumes "\<And>w. logs (to_socket w i) w (f w)" and "\<And>w. same_core w (f w)"
  shows "logs (to_socket w i) w (each_listener i f w)"
proof -
  have "logs (to_socket w i) w ((f ^^ n) w) \<and> same_core w ((f ^^ n) w)" for n
  proof (induction n)
    case (Suc n)
    have "logs (to_socket w i) ((f ^^ n) w) (f ((f ^^ n) w))"
      using assms(1) [of "(f ^^ n) w"] to_socket_core [of w "(f ^^ n) w"] Suc by simp
    with Suc show ?case using logs_trans assms(2) same_core_trans by auto
  qed auto
  then show ?thesis by (simp add: each_listener_def)
qed

section \<open>Sizes go to the open socket of an attached instance\<close>

definition size_sent :: "term_world \<Rightarrow> term_world \<Rightarrow> nat \<Rightarrow> term_eff \<Rightarrow> bool" where
  "size_sent w w' i x \<longleftrightarrow> (\<exists>s c r. x = SendText s (resize_json c r) \<and> ti_ws (heap w i) = Some s
     \<and> sock_state (socks w s) = OPEN \<and> attached (heap w' i) \<and> 0 < c \<and> 0 < r
     \<and> lastSentCols (heap w' i) = Some c \<and> lastSentRows (heap w' i) = Some r)"

text \<open>The instance for which an event sends, if it sends.\<close>

fun sender :: "term_world \<Rightarrow> term_event \<Rightarrow> nat option" where
  "sender w (Data i d) = Some i"
| "sender w (CompEnd i d) = Some i"
| "sender w (Binary i d) = Some i"
| "sender w (Key i k) = Some i"
| "sender w (SendCall sid d) = instances w sid"
| "sender w (SockText s p d) = Some (sock_inst (socks w s))"
| "sender w (TimerFires t d) =
     (case timer_lookup (tqueue w) t of Some (due, CbResize i sid) \<Rightarrow> instances w sid | _ \<Rightarrow> None)"
| "sender w e = None"

definition send_ok :: "term_world \<Rightarrow> term_world \<Rightarrow> nat option \<Rightarrow> term_eff \<Rightarrow> bool" where
  "send_ok w w' j x \<longleftrightarrow> is_send x \<longrightarrow> (\<exists>i. j = Some i \<and> (to_socket w i x \<or> size_sent w w' i x))"

lemma quiet_send_ok: "quiet w w' \<Longrightarrow> logs (send_ok w w' j) w w'"
  by (auto simp: logs_def send_ok_def)

lemma bytes_send_ok: "logs (to_socket w i) w w' \<Longrightarrow> logs (send_ok w w' (Some i)) w w'"
  by (auto simp: logs_def send_ok_def)

lemma sends_attached: "logs (send_ok w (onattached i msg d w) (Some i)) w (onattached i msg d w)"
proof -
  let ?w = "set_inst i (\<lambda>n. n\<lparr>attached := True\<rparr>) w"
  have ws: "ws_state ?w i = ws_state w i" by (simp add: ws_state_def)
  define w1 where "w1 = (case d of Some (c, r) \<Rightarrow>
      if 0 < c \<and> 0 < r \<and> ws_state ?w i = Some OPEN then send_dims i c r ?w else ?w | None \<Rightarrow> ?w)"
  have w': "onattached i msg d w = w1 \<or> onattached i msg d w = log_eff (WritelnTerm i LOST_NOTICE) w1"
    by (auto simp: onattached_def Let_def w1_def split: sum.split)
  have "w1 = ?w \<or> (\<exists>c r s. w1 = send_dims i c r ?w \<and> 0 < c \<and> 0 < r \<and> ti_ws (heap w i) = Some s
      \<and> sock_state (socks w s) = OPEN)"
    unfolding w1_def ws by (auto simp: ws_open split: option.split)
  then show ?thesis
  proof (elim disjE exE conjE)
    assume "w1 = ?w"
    then have "quiet w (onattached i msg d w)" using w' by (auto simp: logs_def)
    then show ?thesis by (rule quiet_send_ok)
  next
    fix c r s
    assume w1: "w1 = send_dims i c r ?w" "0 < c" "0 < r" "ti_ws (heap w i) = Some s"
      "sock_state (socks w s) = OPEN"
    have "heap (onattached i msg d w) = heap w1" using w' by auto
    then have "send_ok w (onattached i msg d w) (Some i) (SendText s (resize_json c r))"
      using w1 unfolding send_ok_def size_sent_def by (auto simp: send_dims_def)
    moreover have "tlog w1 = tlog w @ [SendText s (resize_json c r)]"
      using w1 by (simp add: send_dims_def)
    ultimately show ?thesis using w' by (auto simp: logs_def send_ok_def)
  qed
qed

lemma sends_resize: "logs (send_ok w (resize_callback sid d w) (instances w sid)) w (resize_callback sid d w)"
proof (cases "\<exists>i. instances w sid = Some i \<and> usable d \<and> \<not> already_sent d (heap w i) \<and> attached (heap w i)
      \<and> ws_state w i = Some OPEN")
  case True
  then obtain i s where i: "instances w sid = Some i" "usable d" "\<not> already_sent d (heap w i)"
    "attached (heap w i)" "ti_ws (heap w i) = Some s" "sock_state (socks w s) = OPEN"
    by (auto simp: ws_open)
  from i(2) obtain c r where d: "d = Some (c, r)" "0 < c" "0 < r" by (auto simp: usable_def split: option.splits)
  have "ws_state (log_eff (FitTerm i) w) i = Some OPEN" using i by (simp add: ws_state_def)
  then have w': "resize_callback sid d w = send_dims i c r (log_eff (FitTerm i) w)"
    using i d by (simp add: resize_callback_def map_get_def)
  have "send_ok w (resize_callback sid d w) (instances w sid) (SendText s (resize_json c r))"
    using i d unfolding send_ok_def size_sent_def w' by (auto simp: send_dims_def)
  then show ?thesis using i unfolding w' by (auto simp: logs_def send_dims_def send_ok_def)
next
  case False
  then have "quiet w (resize_callback sid d w)"
    by (auto simp: resize_callback_def map_get_def ws_state_def Let_def logs_def split: option.split)
  then show ?thesis by (rule quiet_send_ok)
qed

lemma step_sends:
  assumes "term_step w e w'"
  shows "logs (send_ok w w' (sender w e)) w w'"
proof -
  have w': "w' = texec e w" using assms by (simp add: term_step_iff)
  show ?thesis
  proof (cases e)
    case (SockText s p d)
    have "w' = w \<or> (\<exists>msg. w' = onattached (sock_inst (socks w s)) msg d w)"
      by (auto simp: w' SockText onmessage_text_def split: option.split sum.split)
    then show ?thesis using sends_attached SockText by (auto intro: quiet_send_ok)
  next
    case (TimerFires t d)
    show ?thesis
    proof (cases "timer_lookup (tqueue w) t")
      case (Some q)
      let ?u = "w\<lparr>tqueue := clear_timeout (Some t) (tqueue w)\<rparr>"
      show ?thesis
      proof (cases "snd q")
        case (CbReconnect i sid)
        then have "quiet w w'" using Some
          by (cases q) (auto simp: w' TimerFires timer_fires_def reconnect_callback_def Let_def)
        then show ?thesis by (rule quiet_send_ok)
      next
        case (CbResize i sid)
        then have "w' = resize_callback sid d ?u" using Some
          by (cases q) (simp add: w' TimerFires timer_fires_def Let_def)
        moreover have "sender w e = instances ?u sid" using Some CbResize by (cases q) (simp add: TimerFires)
        ultimately show ?thesis using sends_resize [of ?u sid d]
          by (simp add: logs_def send_ok_def size_sent_def to_socket_def)
      qed
    qed (auto simp: w' TimerFires timer_fires_def intro: quiet_send_ok)
  next
    case (SockClosed s f r)
    have "quiet w w'" unfolding w' SockClosed closed_eq by auto
    then show ?thesis by (rule quiet_send_ok)
  next
    case (CompStart i)
    have "tlog (compositionstart i w) = tlog w" for w by (simp add: compositionstart_def)
    then have "tlog ((compositionstart i ^^ n) w) = tlog w" for n by (induction n) simp_all
    then have "quiet w w'" unfolding w' CompStart by (auto simp: each_listener_def)
    then show ?thesis by (rule quiet_send_ok)
  next
    case (SendCall sid d)
    have "w' = w \<or> (\<exists>i. instances w sid = Some i \<and> w' = sendString i d w)"
      by (auto simp: w' SendCall sendToTerminal_def sendString_def sendBytes_def map_get_def split: option.split)
    then show ?thesis using bytes_send_ok [OF bytes_sendString] SendCall by (auto intro: quiet_send_ok)
  next
    case (SockOpen s)
    have "quiet w w'" by (auto simp: w' SockOpen onopen_def Let_def intro: logs_one)
    then show ?thesis by (rule quiet_send_ok)
  next
    case (SockBinary s b)
    have "quiet w w'" by (auto simp: w' SockBinary onmessage_binary_def intro!: logs_eff)
    then show ?thesis by (rule quiet_send_ok)
  next
    case (PasteCall sid t)
    have "quiet w w'" by (auto simp: w' PasteCall pasteToTerminal_def intro: logs_one split: option.split)
    then show ?thesis by (rule quiet_send_ok)
  qed (auto simp: w' intro: quiet_send_ok quiet_useTerminal quiet_ticket quiet_dispose quiet_contextLost
      bytes_send_ok bytes_each bytes_onData bytes_onBinary bytes_compositionend bytes_onKey
      same_core_input)
qed

lemma sender_known:
  assumes "term_inv w" and "tenabled e w" and "sender w e = Some i"
  shows "i < next_inst w"
proof -
  have "i < next_inst w" if "instances w sid = Some i" for sid
    using fits_cached [OF assms(1) that] by (simp add: fits_def)
  then show ?thesis
    using assms(2,3) by (cases e)
      (auto simp: xterm_live_def sock_in_def sock_inst_less [OF assms(1)] split: option.splits term_cb.splits)
qed

text \<open>
  C19: In every state the hook can be in, a step sends for one instance only: the one whose input,
  socket or resize timer the event belongs to, or the one in the cache for the named session. What it
  sends goes to the socket that this instance holds and that was created for it, and only while that
  socket is open. It is either bytes or a size, and a size is sent only when the instance is attached,
  with positive dimensions, which are then recorded as the last ones sent. An instance that is no
  longer in the cache can still send, as long as its socket is open.
\<close>
theorem sends_only_when_open:
  assumes "reach term_start term_step w" and "term_step w e w'"
  shows "\<exists>xs. tlog w' = tlog w @ xs \<and> (\<forall>x \<in> set xs. is_send x \<longrightarrow>
    (\<exists>i s. sender w e = Some i \<and> ti_ws (heap w i) = Some s \<and> s < next_sock w
      \<and> sock_inst (socks w s) = i \<and> sock_state (socks w s) = OPEN
      \<and> ((\<exists>b. x = SendBytes s b)
        \<or> (\<exists>c r. x = SendText s (resize_json c r) \<and> attached (heap w' i) \<and> 0 < c \<and> 0 < r
             \<and> lastSentCols (heap w' i) = Some c \<and> lastSentRows (heap w' i) = Some r))))"
proof -
  have inv: "term_inv w" by (rule trm.reach_inv [OF assms(1)])
  have "s < next_sock w \<and> sock_inst (socks w s) = i"
    if "sender w e = Some i" "ti_ws (heap w i) = Some s" for i s
    using sender_known [OF inv _ that(1)] that(2) assms(2) inv
    by (auto simp: term_step_iff inv_but_def ws_ok_def)
  moreover obtain xs where "tlog w' = tlog w @ xs" "\<forall>x \<in> set xs. send_ok w w' (sender w e) x"
    using step_sends [OF assms(2)] by (auto simp: logs_def)
  ultimately show ?thesis unfolding send_ok_def to_socket_def size_sent_def by blast
qed

theorem sends_only_when_open_witness:
  "\<exists>xs. tlog (texec (SockText 0 (Some attached_msg) (Some (80, 24))) (after_term open_events))
      = tlog (after_term open_events) @ xs
    \<and> (\<forall>x \<in> set xs. is_send x \<longrightarrow> (\<exists>b. x = SendBytes 0 b) \<or> (\<exists>c r. x = SendText 0 (resize_json c r)))
    \<and> xs = [SendText 0 (resize_json 80 24)]"
proof -
  let ?w = "after_term open_events"
  let ?e = "SockText 0 (Some attached_msg) (Some (80, 24))"
  have run: "run_term open_events term_sample \<noteq> None" by code_simp
  have "tenabled ?e ?w" by code_simp
  then have step: "term_step ?w ?e (texec ?e ?w)" by (rule tstep)
  have "sender ?w ?e = Some 0" "ti_ws (heap ?w 0) = Some 0" by code_simp+
  then have sock: "sender ?w ?e = Some i \<Longrightarrow> ti_ws (heap ?w i) = Some s \<Longrightarrow> s = 0" for i s by simp
  from sends_only_when_open [OF reach_after_term [OF run] step] obtain xs where
    xs: "tlog (texec ?e ?w) = tlog ?w @ xs" and
    all: "\<forall>x \<in> set xs. is_send x \<longrightarrow> (\<exists>i s. sender ?w ?e = Some i \<and> ti_ws (heap ?w i) = Some s
      \<and> ((\<exists>b. x = SendBytes s b) \<or> (\<exists>c r. x = SendText s (resize_json c r))))"
    by blast
  have "\<forall>x \<in> set xs. is_send x \<longrightarrow> (\<exists>b. x = SendBytes 0 b) \<or> (\<exists>c r. x = SendText 0 (resize_json c r))"
    using all sock by blast
  note xs = xs this
  have "tlog (texec ?e ?w) = tlog ?w @ [SendText 0 (resize_json 80 24)]" by code_simp
  with xs show ?thesis by (intro exI [of _ xs]) simp
qed

section \<open>Listeners and composition\<close>

text \<open>An opened terminal has its listeners registered once, an unopened one not at all.\<close>

definition bound_once :: "term_inst \<Rightarrow> bool" where
  "bound_once n \<longleftrightarrow> (if ti_opened n then listenersBound n \<and> ti_listeners n = 1
     else \<not> listenersBound n \<and> ti_listeners n = 0)"

definition listen_inv :: "term_world \<Rightarrow> bool" where
  "listen_inv w \<longleftrightarrow> (\<forall>i < next_inst w. bound_once (heap w i))"

text \<open>Operations that keep the listeners of every instance, and the table of instances' size.\<close>

definition same_listen :: "term_world \<Rightarrow> term_world \<Rightarrow> bool" where
  "same_listen w w' \<longleftrightarrow> next_inst w' = next_inst w
     \<and> (\<forall>i. ti_opened (heap w' i) = ti_opened (heap w i) \<and> listenersBound (heap w' i) = listenersBound (heap w i)
          \<and> ti_listeners (heap w' i) = ti_listeners (heap w i))"

lemma same_listen_inv: "same_listen w w' \<Longrightarrow> listen_inv w \<Longrightarrow> listen_inv w'"
  by (simp add: same_listen_def listen_inv_def bound_once_def)

lemma same_listen_trans: "same_listen w w1 \<Longrightarrow> same_listen w1 w2 \<Longrightarrow> same_listen w w2"
  by (simp add: same_listen_def)

lemma same_listen_refl [simp]: "same_listen w w"
  by (simp add: same_listen_def)

lemma same_listen_send: "same_listen w (sendBytes i b w)" "same_listen w (sendString i d w)"
  by (simp_all add: sendBytes_def sendString_def same_listen_def)

lemma same_listen_ops:
  "same_listen w (compositionstart i w)" "same_listen w (compositionend i d w)"
  "same_listen w (onData i d w)" "same_listen w (onBinary i d w)" "same_listen w (snd (onKey i k w))"
  "same_listen w (loadWebgl i ok w)" "same_listen w (contextLost i ok w)"
  "same_listen w (detachFromContainer sid c w)" "same_listen w (theme_effect s th w)"
  "same_listen w (send_dims i m n w)" "same_listen w (connectWebSocket i sid w)"
  "same_listen w (scheduleReconnect i sid r w)" "same_listen w (set_sock u st w)"
  "same_listen w (onopen u w)" "same_listen w (new_socket i sid tk w)" "same_listen w (observed dm w)"
  "same_listen w (disposeTerminal sid w)" "same_listen w (effect_cleanup w)"
  by (auto simp: same_listen_def compositionstart_def compositionend_def onData_def onBinary_def onKey_def
      sendBytes_def sendString_def loadWebgl_def contextLost_def detachFromContainer_def theme_effect_def
      send_dims_def connectWebSocket_def scheduleReconnect_def onopen_def new_socket_def observed_def
      disposeTerminal_def close_socket_def effect_cleanup_def set_sock_def Let_def
      split: option.split prod.split)

lemma same_listen_each: "(\<And>w. same_listen w (f w)) \<Longrightarrow> same_listen w (each_listener i f w)"
proof -
  assume f: "\<And>w. same_listen w (f w)"
  have "same_listen w ((f ^^ n) w)" for n
    by (induction n) (auto intro: same_listen_trans f)
  then show ?thesis by (simp add: each_listener_def)
qed

lemma listen_get: "listen_inv w \<Longrightarrow> get_instance sid th w = (i, w') \<Longrightarrow> listen_inv w'"
  by (auto simp: listen_inv_def bound_once_def createInstance_def less_Suc_eq elim!: get_instance_cases)

lemma listen_place:
  assumes "listen_inv w"
  shows "listen_inv (snd (place_terminal i c ok w))"
proof (cases "ti_opened (heap w i)")
  case True
  then show ?thesis using assms by (simp add: place_terminal_def listen_inv_def bound_once_def)
next
  case False
  let ?w1 = "set_inst i (\<lambda>n. n\<lparr>ti_opened := True, ti_parent := Some c\<rparr>) w"
  have eq: "snd (place_terminal i c ok w) = bindInputListeners i (loadWebgl i ok ?w1)"
    using False by (simp add: place_terminal_def)
  have sl: "same_listen ?w1 (loadWebgl i ok ?w1)" by (rule same_listen_ops)
  have "bound_once (heap (bindInputListeners i (loadWebgl i ok ?w1)) j)" if "j < next_inst w" for j
  proof -
    have "bound_once (heap w j)" using assms that by (simp add: listen_inv_def)
    then show ?thesis
      using sl False by (auto simp: bindInputListeners_def same_listen_def bound_once_def split: if_splits)
  qed
  moreover have "next_inst (bindInputListeners i (loadWebgl i ok ?w1)) = next_inst w"
    using sl by (simp add: bindInputListeners_def same_listen_def)
  ultimately show ?thesis unfolding eq listen_inv_def by simp
qed

lemma mount_effect_eq:
  assumes "container = Some c" and "truthy s"
  obtains w1 i w2 did w3 w4 where
    "w1 = (if truthy (previousSessionId w) \<and> previousSessionId w \<noteq> s
           then detachFromContainer (the (previousSessionId w)) c w else w)"
    and "get_instance (the s) th w1 = (i, w2)" and "place_terminal i c gl w2 = (did, w3)"
    and "w4 = (if did then log_eff (RefreshTerm i) (log_eff (FitTerm i) w3) else log_eff (FitTerm i) w3)"
    and "mount_effect s container th gl w =
      (if ws_state w4 i = None \<or> ws_state w4 i = Some CLOSED then connectWebSocket i (the s) w4 else w4)
        \<lparr>previousSessionId := Some (the s), observing := Some (the s, i)\<rparr>"
proof -
  define w1 where "w1 = (if truthy (previousSessionId w) \<and> previousSessionId w \<noteq> s
      then detachFromContainer (the (previousSessionId w)) c w else w)"
  obtain i w2 where g: "get_instance (the s) th w1 = (i, w2)" by fastforce
  obtain did w3 where pl: "place_terminal i c gl w2 = (did, w3)" by fastforce
  define w4 where "w4 = (if did then log_eff (RefreshTerm i) (log_eff (FitTerm i) w3) else log_eff (FitTerm i) w3)"
  have "mount_effect s container th gl w =
      (if ws_state w4 i = None \<or> ws_state w4 i = Some CLOSED then connectWebSocket i (the s) w4 else w4)
        \<lparr>previousSessionId := Some (the s), observing := Some (the s, i)\<rparr>"
    unfolding mount_effect_def assms(1) option.case Let_def w1_def [symmetric]
    using assms(2) by (simp add: g pl w4_def [symmetric])
  then show ?thesis using that w1_def g pl w4_def by blast
qed

lemma listen_mount:
  assumes "listen_inv w"
  shows "listen_inv (mount_effect s container th gl w)"
proof -
  have dt: "listen_inv (detachFromContainer x c w)" for x c
    using assms same_listen_inv [OF same_listen_ops(8)] by blast
  show ?thesis
  proof (cases "container = None \<or> \<not> truthy s")
    case True
    then show ?thesis using assms dt by (auto simp: mount_effect_def Let_def listen_inv_def split: option.split)
  next
    case False
    then obtain c where c: "container = Some c" and s: "truthy s" by auto
    show ?thesis
    proof (rule mount_effect_eq [OF c s, of w th gl])
      fix w1 i w2 did w3 w4
      assume w1: "w1 = (if truthy (previousSessionId w) \<and> previousSessionId w \<noteq> s
           then detachFromContainer (the (previousSessionId w)) c w else w)"
        and g: "get_instance (the s) th w1 = (i, w2)" and pl: "place_terminal i c gl w2 = (did, w3)"
        and w4: "w4 = (if did then log_eff (RefreshTerm i) (log_eff (FitTerm i) w3) else log_eff (FitTerm i) w3)"
        and eq: "mount_effect s container th gl w =
          (if ws_state w4 i = None \<or> ws_state w4 i = Some CLOSED then connectWebSocket i (the s) w4 else w4)
            \<lparr>previousSessionId := Some (the s), observing := Some (the s, i)\<rparr>"
      have "listen_inv w1" using w1 assms dt by simp
      then have "listen_inv w2" using g by (rule listen_get)
      then have "listen_inv w3" using listen_place [of w2 i c gl] pl by simp
      then have "listen_inv w4" by (simp add: w4 listen_inv_def)
      then have "listen_inv (if ws_state w4 i = None \<or> ws_state w4 i = Some CLOSED
          then connectWebSocket i (the s) w4 else w4)"
        using same_listen_inv [OF same_listen_ops(11)] by simp
      then show ?thesis unfolding eq by (simp add: listen_inv_def)
    qed
  qed
qed

lemma same_listen_callbacks:
  "same_listen w (onattached i msg d w)" "same_listen w (resize_callback sid d w)"
  "same_listen w (connect_ticket i sid res r w)" "same_listen w (timer_fires t d w)"
  "same_listen w (ticket_reply n res r w)"
  by (auto simp: same_listen_def onattached_def resize_callback_def send_dims_def connect_ticket_def
      new_socket_def scheduleReconnect_def timer_fires_def reconnect_callback_def connectWebSocket_def
      ticket_reply_def Let_def split: option.split sum.split prod.split term_cb.split)

lemma listen_step: "listen_inv w \<Longrightarrow> term_step w e w' \<Longrightarrow> listen_inv w'"
proof -
  assume inv: "listen_inv w" and "term_step w e w'"
  then have w': "w' = texec e w" by (simp add: term_step_iff)
  show ?thesis
  proof (cases e)
    case (Render s c th gl)
    have "listen_inv (effect_cleanup w)" using inv by (rule same_listen_inv [OF same_listen_ops(18)])
    then show ?thesis
      unfolding w' Render texec.simps useTerminal_def Let_def
      by (rule same_listen_inv [OF same_listen_ops(9) listen_mount])
  next
    case (SockOpen s)
    show ?thesis unfolding w' SockOpen texec.simps
      by (rule same_listen_inv [OF same_listen_trans [OF same_listen_ops(13,14)] inv])
  next
    case (SockClosed s f r)
    have "same_listen w (scheduleReconnect i x r (set_inst i (\<lambda>n. n\<lparr>connecting := False\<rparr>) (set_sock s CLOSED w)))"
      for i x
      by (rule same_listen_trans [OF _ same_listen_ops(12)]) (simp add: same_listen_def)
    then show ?thesis unfolding w' SockClosed closed_eq using inv same_listen_inv by blast
  next
    case (SockText s p d)
    have "same_listen w w'"
      by (auto simp: w' SockText onmessage_text_def same_listen_callbacks split: option.split sum.split)
    then show ?thesis using inv by (rule same_listen_inv)
  qed (auto simp: w' intro!: same_listen_inv [OF _ inv] same_listen_ops same_listen_each
      same_listen_callbacks simp: onmessage_binary_def pasteToTerminal_def sendToTerminal_def
      same_listen_def split: option.split)
qed

lemma listen_start: "term_start w \<Longrightarrow> listen_inv w"
  by (simp add: term_start_def listen_inv_def)

interpretation lst: invariant_machine term_start term_step listen_inv
  by unfold_locales (rule listen_start listen_step; assumption)+

lemma one_listener:
  "reach term_start term_step w \<Longrightarrow> xterm_live i w \<Longrightarrow> ti_listeners (heap w i) = 1"
  using lst.reach_inv by (auto simp: listen_inv_def xterm_live_def bound_once_def)

lemma iterate_once: "ti_listeners (heap w i) = 1 \<Longrightarrow> each_listener i f w = f w"
  by (simp add: each_listener_def)

text \<open>
  \<open>sendToTerminal\<close> says whether it sent: true exactly if the session is in the cache and its socket is
  open, and then the text's UTF-8 bytes are the only effect; otherwise nothing happens at all.
\<close>
lemma send_reports_delivery:
  "sendToTerminal sid d w =
    (case instances w sid of
       Some i \<Rightarrow> if ws_state w i = Some OPEN
                 then (True, log_eff (SendBytes (the (ti_ws (heap w i))) (TextEncoder_encode d)) w)
                 else (False, w)
     | None \<Rightarrow> (False, w))
   \<and> (fst (sendToTerminal sid d w) \<longleftrightarrow>
        (\<exists>i s. instances w sid = Some i \<and> ti_ws (heap w i) = Some s \<and> sock_state (socks w s) = OPEN))
   \<and> length (tlog (snd (sendToTerminal sid d w))) =
        length (tlog w) + (if fst (sendToTerminal sid d w) then 1 else 0)"
  by (auto simp: sendToTerminal_def map_get_def ws_open split: option.split)

section \<open>Sizes\<close>



text \<open>
  C25: A text typed into a terminal with an open socket is sent as one binary frame of valid UTF-8. It
  decodes to the code points of the text, U+FFFD for each lone surrogate, and a text without lone
  surrogates is recovered from it unit by unit.
\<close>
theorem typed_text_reads_back:
  assumes "ws_state w i = Some OPEN"
  shows "\<exists>b. sendString i d w = log_eff (SendBytes (the (ti_ws (heap w i))) b) w
    \<and> utf8_decode b = Some (code_points d)
    \<and> (paired d \<longrightarrow> concat (map utf16_char (the (utf8_decode b))) = d)"
  using assms encode_decode [of d] by (auto simp: sendString_def sendBytes_def)

theorem typed_text_reads_back_witness:
  "\<exists>b. concat (map utf16_char (the (utf8_decode b))) = [0xD55C, 0xD83D, 0xDE00, 0x41]
     \<and> sendString 0 [0xD55C, 0xD83D, 0xDE00, 0x41] (after_term open_events)
       = log_eff (SendBytes 0 b) (after_term open_events)"
proof -
  have "ws_state (after_term open_events) 0 = Some OPEN" by code_simp
  moreover have "the (ti_ws (heap (after_term open_events) 0)) = 0" by code_simp
  moreover have "paired [0xD55C, 0xD83D, 0xDE00, 0x41]" by (simp add: is_high_def is_low_def)
  ultimately show ?thesis
    using typed_text_reads_back [of "after_term open_events" 0 "[0xD55C, 0xD83D, 0xDE00, 0x41]"] by metis
qed

end
