(* ===== verification/TermShow.thy ===== *)
theory TermShow
  imports TermIO
begin

text \<open>
  Showing sessions: one terminal at a time is in the container, and what a session that reconnects
  out of sight does not learn when it is shown again.
\<close>

section \<open>Mounting keeps the recorded sizes\<close>

definition same_size :: "term_world \<Rightarrow> term_world \<Rightarrow> bool" where
  "same_size w w' \<longleftrightarrow> (\<forall>i. i < next_inst w \<longrightarrow> attached (heap w' i) = attached (heap w i)
     \<and> lastSentCols (heap w' i) = lastSentCols (heap w i)
     \<and> lastSentRows (heap w' i) = lastSentRows (heap w i)) \<and> next_inst w \<le> next_inst w'"

lemma same_size_trans: "same_size w w1 \<Longrightarrow> same_size w1 w2 \<Longrightarrow> same_size w w2"
  by (auto simp: same_size_def)

lemma same_size_fields [simp]:
  "same_size w (w'\<lparr>previousSessionId := p, observing := ob\<rparr>) = same_size w w'"
  by (simp add: same_size_def)

lemma same_size_ops:
  "same_size w (effect_cleanup w)" "same_size w (theme_effect s th w)" "same_size w (detachFromContainer x c w)"
  "same_size w (connectWebSocket i sid w)" "same_size w (snd (place_terminal i c gl w))"
  by (auto simp: same_size_def effect_cleanup_def theme_effect_def detachFromContainer_def
      connectWebSocket_def place_terminal_def bindInputListeners_def loadWebgl_def
      split: option.split prod.split)

lemma same_size_get: "get_instance sid th w = (i, w') \<Longrightarrow> same_size w w'"
  by (auto simp: same_size_def elim!: get_instance_cases)

lemma same_size_mount:
  assumes "sid \<noteq> []" and "instances w sid = Some i"
  shows "same_size w (mount_effect (Some sid) (Some c) th gl w)
    \<and> observing (mount_effect (Some sid) (Some c) th gl w) = Some (sid, i)"
proof (rule mount_effect_eq [of "Some c" c "Some sid" w th gl])
  fix w1 j w2 did w3 w4
  assume w1: "w1 = (if truthy (previousSessionId w) \<and> previousSessionId w \<noteq> Some sid
       then detachFromContainer (the (previousSessionId w)) c w else w)"
    and g: "get_instance (the (Some sid)) th w1 = (j, w2)" and pl: "place_terminal j c gl w2 = (did, w3)"
    and w4: "w4 = (if did then log_eff (RefreshTerm j) (log_eff (FitTerm j) w3) else log_eff (FitTerm j) w3)"
    and eq: "mount_effect (Some sid) (Some c) th gl w =
      (if ws_state w4 j = None \<or> ws_state w4 j = Some CLOSED then connectWebSocket j (the (Some sid)) w4 else w4)
        \<lparr>previousSessionId := Some (the (Some sid)), observing := Some (the (Some sid), j)\<rparr>"
  have "instances w1 = instances w"
    unfolding w1 using same_core_world [OF same_core_mounting(4)] by simp
  then have j: "j = i" using g assms(2) by (auto elim!: get_instance_cases)
  have "same_size w w" by (simp add: same_size_def)
  then have "same_size w w1" unfolding w1 using same_size_ops(3) by simp
  then have "same_size w w2" using same_size_trans same_size_get [OF g] by blast
  then have "same_size w w3" using same_size_trans same_size_ops(5) [of w2 j c gl] pl by fastforce
  then have s4: "same_size w w4" by (simp add: w4 same_size_def)
  have "same_size w (connectWebSocket j sid w4)" by (rule same_size_trans [OF s4 same_size_ops(4)])
  with s4 show ?thesis unfolding eq by (simp add: j)
qed (use assms in simp_all)

text \<open>
  C23: A session that reconnects while its terminal is not on the screen is left with the server's
  default size: the dimensions sent on the earlier connection are still recorded, so when the terminal
  is shown again and the observer sees the same dimensions, it arms no timer, and nothing has told the
  new connection its size.
\<close>
theorem hidden_reattach_keeps_old_size:
  assumes "sock_in s CONNECTING w" and "sock_inst (socks w s) = i" and "i < next_inst w"
    and "lastSentCols (heap w i) = Some c" and "lastSentRows (heap w i) = Some r"
    and "instances w sid = Some i" and "sid \<noteq> []"
    and "w1 = onattached i msg None (texec (SockOpen s) w)"
    and "w2 = useTerminal (Some sid) (Some k) th gl w1"
  shows "attached (heap w2 i) \<and> observed (Some (c, r)) w2 = w2
    \<and> (\<forall>x \<in> set (drop (length (tlog w)) (tlog w2)). \<not> is_send x)"
proof -
  have h: "attached (heap w1 i)" "lastSentCols (heap w1 i) = Some c" "lastSentRows (heap w1 i) = Some r"
    "instances w1 sid = Some i" "next_inst w1 = next_inst w"
    using assms(2-6) unfolding assms(8)
    by (simp_all add: onattached_def onopen_def Let_def split: sum.split)
  let ?th = "case th of Some t \<Rightarrow> t | None \<Rightarrow> darkTerminalTheme"
  let ?u = "mount_effect (Some sid) (Some k) ?th gl (effect_cleanup w1)"
  have cl: "instances (effect_cleanup w1) sid = Some i" using h(4) by simp
  have m: "same_size (effect_cleanup w1) ?u" "observing ?u = Some (sid, i)"
    using same_size_mount [OF assms(7) cl] by blast+
  have "same_size w1 ?u" by (rule same_size_trans [OF same_size_ops(1) m(1)])
  then have "same_size w1 w2"
    unfolding assms(9) useTerminal_def Let_def by (rule same_size_trans) (rule same_size_ops)
  then have z: "attached (heap w2 i)" "lastSentCols (heap w2 i) = Some c" "lastSentRows (heap w2 i) = Some r"
    using h assms(3) by (simp_all add: same_size_def)
  have "instances w2 sid = Some i"
    using useTerminal_frame [of w1 "Some sid" "Some k" th gl] h(4) unfolding assms(9) by simp
  moreover have "observing w2 = Some (sid, i)"
    using m(2) unfolding assms(9) useTerminal_def Let_def by (simp add: same_core_world [OF same_core_mounting(5)])
  ultimately have "observed (Some (c, r)) w2 = w2"
    using z by (simp add: observed_def map_get_def already_sent_def)
  moreover have "quiet w w1"
    unfolding assms(8) using assms(2) by (auto simp: onattached_def onopen_def Let_def logs_def split: sum.split)
  then have "quiet w w2" unfolding assms(9) by (rule logs_trans [OF _ quiet_useTerminal])
  then have "\<forall>x \<in> set (drop (length (tlog w)) (tlog w2)). \<not> is_send x" by (auto simp: logs_def)
  ultimately show ?thesis using z(1) by blast
qed

definition hidden_events :: "term_event list" where
  "hidden_events = open_events @ [SockText 0 (Some attached_msg) (Some (80, 24)), show_session ''s2'',
     SockClosed 0 True 0, TermTick 400, TimerFires 1 None, TicketReply 2 ticket_ok 0]"

theorem hidden_reattach_keeps_old_size_witness:
  "observed (Some (80, 24)) (useTerminal (Some ''s1'') (Some 0) None True
      (onattached 0 attached_msg None (texec (SockOpen 1) (after_term hidden_events))))
    = useTerminal (Some ''s1'') (Some 0) None True
      (onattached 0 attached_msg None (texec (SockOpen 1) (after_term hidden_events)))"
proof -
  let ?w = "after_term hidden_events"
  have 1: "sock_in 1 CONNECTING ?w" and 2: "sock_inst (socks ?w 1) = 0" and 3: "0 < next_inst ?w"
    and 4: "lastSentCols (heap ?w 0) = Some 80" and 5: "lastSentRows (heap ?w 0) = Some 24"
    and 6: "instances ?w ''s1'' = Some 0"
    by code_simp+
  from hidden_reattach_keeps_old_size [OF 1 2 3 4 5 6 _ refl refl] show ?thesis by simp
qed

section \<open>One terminal at a time\<close>

definition in_container :: "nat \<Rightarrow> term_world \<Rightarrow> string \<Rightarrow> bool" where
  "in_container c w sid \<longleftrightarrow> (\<exists>i. instances w sid = Some i \<and> ti_parent (heap w i) = Some c)"

text \<open>Runs in which the component keeps its container.\<close>

definition fixed_step :: "nat \<Rightarrow> term_world \<Rightarrow> term_event \<Rightarrow> term_world \<Rightarrow> bool" where
  "fixed_step c w e w' \<longleftrightarrow> term_step w e w' \<and> (\<forall>s d th gl. e = Render s d th gl \<longrightarrow> d = None \<or> d = Some c)"

definition shown_inv :: "nat \<Rightarrow> term_world \<Rightarrow> bool" where
  "shown_inv c w \<longleftrightarrow> (\<forall>sid. in_container c w sid \<longrightarrow> previousSessionId w = Some sid)
     \<and> previousSessionId w \<noteq> Some []
     \<and> (\<forall>sid i. instances w sid = Some i \<longrightarrow> ti_parent (heap w i) \<noteq> None \<longrightarrow> ti_opened (heap w i))"

definition same_place :: "term_world \<Rightarrow> term_world \<Rightarrow> bool" where
  "same_place w w' \<longleftrightarrow> previousSessionId w' = previousSessionId w
     \<and> (\<forall>sid i. instances w' sid = Some i \<longrightarrow> instances w sid = Some i)
     \<and> (\<forall>i. (ti_parent (heap w' i) = ti_parent (heap w i) \<or> ti_parent (heap w' i) = None)
            \<and> ti_opened (heap w' i) = ti_opened (heap w i))"

lemma same_place_inv:
  assumes "same_place w w'" and "shown_inv c w"
  shows "shown_inv c w'"
proof -
  have "in_container c w sid" if "in_container c w' sid" for sid
    using that assms(1) unfolding in_container_def same_place_def by (metis option.distinct(1))
  moreover have "ti_opened (heap w' i)" if "instances w' sid = Some i" "ti_parent (heap w' i) \<noteq> None" for sid i
    using that assms unfolding shown_inv_def same_place_def by metis
  ultimately show ?thesis using assms unfolding shown_inv_def same_place_def by metis
qed

lemma same_place_trans: "same_place w w1 \<Longrightarrow> same_place w1 w2 \<Longrightarrow> same_place w w2"
  unfolding same_place_def by metis

lemma same_place_refl [simp]: "same_place w w"
  by (simp add: same_place_def)

lemma same_place_ops:
  "same_place w (compositionstart i w)" "same_place w (compositionend i d w)"
  "same_place w (onData i d w)" "same_place w (onBinary i d w)" "same_place w (snd (onKey i k w))"
  "same_place w (loadWebgl i ok w)" "same_place w (contextLost i ok w)"
  "same_place w (theme_effect s th w)" "same_place w (detachFromContainer x c w)"
  "same_place w (connectWebSocket i sid w)" "same_place w (scheduleReconnect i sid r w)"
  "same_place w (set_sock u st w)" "same_place w (onopen u w)" "same_place w (observed dm w)"
  "same_place w (disposeTerminal sid w)" "same_place w (effect_cleanup w)"
  "same_place w (onattached i msg dm w)" "same_place w (timer_fires t dm w)"
  "same_place w (ticket_reply n res r w)" "same_place w (bindInputListeners i w)"
  by (auto simp: same_place_def compositionstart_def compositionend_def onData_def onBinary_def onKey_def
      sendBytes_def sendString_def loadWebgl_def contextLost_def detachFromContainer_def theme_effect_def
      send_dims_def connectWebSocket_def scheduleReconnect_def onopen_def new_socket_def observed_def
      disposeTerminal_def close_socket_def effect_cleanup_def set_sock_def onattached_def timer_fires_def
      ticket_reply_def connect_ticket_def reconnect_callback_def resize_callback_def map_del_def
      bindInputListeners_def Let_def
      split: option.splits prod.splits sum.splits term_cb.splits if_splits)

lemma same_place_each: "(\<And>w. same_place w (f w)) \<Longrightarrow> same_place w (each_listener i f w)"
proof -
  assume f: "\<And>w. same_place w (f w)"
  have "same_place w ((f ^^ n) w)" for n
    by (induction n) (auto intro: same_place_trans f)
  then show ?thesis by (simp add: each_listener_def)
qed

lemma detached_none:
  assumes "shown_inv c w" and "previousSessionId w = Some p"
  shows "\<not> in_container c (detachFromContainer p c w) sid"
proof
  assume "in_container c (detachFromContainer p c w) sid"
  then obtain i where i: "instances w sid = Some i" "ti_parent (heap (detachFromContainer p c w) i) = Some c"
    by (auto simp: in_container_def same_core_world [OF same_core_mounting(4)])
  have par: "ti_parent (heap w i) = Some c"
    using i(2) same_place_ops(9) [of w p c] unfolding same_place_def by (metis option.distinct(1))
  with i(1) assms have "sid = p" "ti_opened (heap w i)"
    unfolding shown_inv_def in_container_def by force+
  with i par show False by (simp add: detachFromContainer_def map_get_def)
qed

lemma mount_shows:
  assumes inv: "term_inv w" and sh: "shown_inv c w" and sid: "sid \<noteq> []"
  shows "shown_inv c (mount_effect (Some sid) (Some c) th gl w)
    \<and> in_container c (mount_effect (Some sid) (Some c) th gl w) sid"
proof (rule mount_effect_eq [of "Some c" c "Some sid" w th gl])
  fix w1 i w2 did w3 w4
  assume w1: "w1 = (if truthy (previousSessionId w) \<and> previousSessionId w \<noteq> Some sid
       then detachFromContainer (the (previousSessionId w)) c w else w)"
    and g: "get_instance (the (Some sid)) th w1 = (i, w2)" and pl: "place_terminal i c gl w2 = (did, w3)"
    and w4: "w4 = (if did then log_eff (RefreshTerm i) (log_eff (FitTerm i) w3) else log_eff (FitTerm i) w3)"
    and eq: "mount_effect (Some sid) (Some c) th gl w =
      (if ws_state w4 i = None \<or> ws_state w4 i = Some CLOSED then connectWebSocket i (the (Some sid)) w4 else w4)
        \<lparr>previousSessionId := Some (the (Some sid)), observing := Some (the (Some sid), i)\<rparr>"
  have sh1: "shown_inv c w1"
    unfolding w1 using sh same_place_inv [OF same_place_ops(9) sh] by simp
  have c1: "same_core w w1" unfolding w1 by (simp add: same_core_mounting)
  have only1: "x = sid" if x: "in_container c w1 x" for x
  proof (cases "truthy (previousSessionId w) \<and> previousSessionId w \<noteq> Some sid")
    case True
    then obtain p where "previousSessionId w = Some p" by (auto elim: truthyE)
    with True x detached_none [OF sh] show ?thesis by (simp add: w1)
  next
    case False
    with x have "in_container c w x" by (simp add: w1)
    with sh have "previousSessionId w = Some x" "previousSessionId w \<noteq> Some []"
      unfolding shown_inv_def by blast+
    with False show ?thesis by (cases x) simp_all
  qed
  have inv1: "term_inv w1" using inv by (simp add: same_core_inv [OF c1])
  have "pairs_ok w2" and i2: "instances w2 sid = Some i"
    using inv_get_instance [OF inv1 g [unfolded option.sel]] by (auto simp: inv_but_def)
  then have uniq: "x = sid" if "instances w2 x = Some i" for x
    using that pairs_unique pairsI(1) by metis
  have only2: "x = sid" if "in_container c w2 x" for x
    using g that only1 by (auto simp: in_container_def createInstance_def split: if_splits elim!: get_instance_cases)
  have op2: "ti_opened (heap w2 j)" if "instances w2 x = Some j" "ti_parent (heap w2 j) \<noteq> None" for x j
    using g that sh1 by (auto simp: shown_inv_def createInstance_def split: if_splits elim!: get_instance_cases)
  have pl3: "instances w3 = instances w2" "ti_parent (heap w3 i) = Some c" "ti_opened (heap w3 i)"
    "j \<noteq> i \<Longrightarrow> ti_parent (heap w3 j) = ti_parent (heap w2 j) \<and> ti_opened (heap w3 j) = ti_opened (heap w2 j)" for j
    using pl by (auto simp: place_terminal_def bindInputListeners_def loadWebgl_def split: if_splits)
  let ?w5 = "mount_effect (Some sid) (Some c) th gl w"
  have f5: "instances ?w5 = instances w2" "ti_parent (heap ?w5 j) = ti_parent (heap w3 j)"
    "ti_opened (heap ?w5 j) = ti_opened (heap w3 j)" "previousSessionId ?w5 = Some sid" for j
    unfolding eq w4 by (simp_all add: connectWebSocket_def pl3)
  have "x = sid" if "in_container c ?w5 x" for x
  proof -
    obtain j where j: "instances w2 x = Some j" "ti_parent (heap w3 j) = Some c"
      using \<open>in_container c ?w5 x\<close> unfolding in_container_def f5 by blast
    show ?thesis
    proof (cases "j = i")
      case True
      with j uniq show ?thesis by simp
    next
      case False
      with j pl3(4) only2 show ?thesis by (auto simp: in_container_def)
    qed
  qed
  moreover have "ti_opened (heap ?w5 j)" if "instances ?w5 x = Some j" "ti_parent (heap ?w5 j) \<noteq> None" for x j
    using that pl3 op2 by (cases "j = i") (auto simp: f5)
  moreover have "in_container c ?w5 sid" using i2 pl3(2) by (auto simp: in_container_def f5)
  ultimately show ?thesis unfolding shown_inv_def using sid f5(4) by auto
qed (use sid in simp_all)

lemma mount_hides:
  assumes sh: "shown_inv c w" and s: "\<not> truthy s"
  shows "shown_inv c (mount_effect s (Some c) th gl w)"
proof -
  let ?p = "previousSessionId w"
  define w1 where "w1 = (if truthy ?p \<and> ?p \<noteq> s then detachFromContainer (the ?p) c w else w)"
  have eq: "mount_effect s (Some c) th gl w = w1\<lparr>previousSessionId := None\<rparr>"
    using s by (simp add: mount_effect_def w1_def Let_def)
  have sh1: "shown_inv c w1" unfolding w1_def using sh same_place_inv [OF same_place_ops(9) sh] by simp
  have "\<not> in_container c w1 x" for x
  proof (cases ?p)
    case None
    then have "w1 = w" by (simp add: w1_def)
    then show ?thesis using sh None by (auto simp: shown_inv_def)
  next
    case (Some p)
    then have "p \<noteq> []" "?p \<noteq> s" using sh s by (auto simp: shown_inv_def)
    then show ?thesis using detached_none [OF sh Some] Some by (simp add: w1_def)
  qed
  then show ?thesis using sh1 unfolding eq by (auto simp: shown_inv_def in_container_def)
qed

lemma shown_useTerminal:
  assumes inv: "term_inv w" and sh: "shown_inv c w" and d: "d = None \<or> d = Some c"
  shows "shown_inv c (useTerminal s d th gl w)
    \<and> (\<forall>sid. s = Some sid \<longrightarrow> sid \<noteq> [] \<longrightarrow> d = Some c \<longrightarrow> in_container c (useTerminal s d th gl w) sid)"
proof -
  let ?th = "case th of Some t \<Rightarrow> t | None \<Rightarrow> darkTerminalTheme"
  let ?w1 = "effect_cleanup w"
  have inv1: "term_inv ?w1" by (rule inv_cleanup [OF inv])
  have sh1: "shown_inv c ?w1" by (rule same_place_inv [OF same_place_ops(16) sh])
  have m: "shown_inv c (mount_effect s d ?th gl ?w1)
      \<and> (\<forall>sid. s = Some sid \<longrightarrow> sid \<noteq> [] \<longrightarrow> d = Some c \<longrightarrow> in_container c (mount_effect s d ?th gl ?w1) sid)"
  proof (cases "d = None")
    case True
    then show ?thesis using sh1 by (simp add: mount_effect_def)
  next
    case False
    with d have d': "d = Some c" by simp
    show ?thesis
    proof (cases "truthy s")
      case True
      then obtain sid where "s = Some sid" "sid \<noteq> []" by (auto elim: truthyE)
      then show ?thesis using mount_shows [OF inv1 sh1, of sid ?th gl] d' by simp
    next
      case False
      then show ?thesis using mount_hides [OF sh1 False, of ?th gl] d' by auto
    qed
  qed
  have par: "ti_parent (heap (theme_effect s ?th u) i) = ti_parent (heap u i)" for u i
    by (auto simp: theme_effect_def split: option.split)
  have "in_container c (theme_effect s ?th u) x = in_container c u x" for u x
    by (simp add: in_container_def par same_core_world [OF same_core_mounting(5)])
  then have "in_container c (useTerminal s d th gl w) x = in_container c (mount_effect s d ?th gl ?w1) x" for x
    unfolding useTerminal_def Let_def .
  moreover have "shown_inv c (useTerminal s d th gl w)"
    unfolding useTerminal_def Let_def by (rule same_place_inv [OF same_place_ops(8)]) (use m in blast)
  ultimately show ?thesis using m by blast
qed

lemma shown_unique: "shown_inv c w \<Longrightarrow> in_container c w x \<Longrightarrow> in_container c w y \<Longrightarrow> x = y"
  unfolding shown_inv_def by (metis option.inject)

lemma useTerminal_hides:
  assumes "term_inv w" and "shown_inv c w" and "\<not> truthy s"
  shows "\<not> in_container c (useTerminal s (Some c) th gl w) x"
proof -
  let ?th = "case th of Some t \<Rightarrow> t | None \<Rightarrow> darkTerminalTheme"
  let ?w1 = "effect_cleanup w"
  have sh1: "shown_inv c ?w1" by (rule same_place_inv [OF same_place_ops(16) assms(2)])
  have "previousSessionId (mount_effect s (Some c) ?th gl ?w1) = None"
    using assms(3) by (simp add: mount_effect_def Let_def)
  moreover have "previousSessionId (useTerminal s (Some c) th gl w) = previousSessionId (mount_effect s (Some c) ?th gl ?w1)"
    by (simp add: useTerminal_def Let_def theme_effect_def split: option.split)
  moreover have "shown_inv c (useTerminal s (Some c) th gl w)"
    using shown_useTerminal [OF assms(1,2)] by blast
  ultimately show ?thesis unfolding shown_inv_def by force
qed

text \<open>The observed terminal is the one in the container, unless it was disposed in the meantime.\<close>

definition observed_inv :: "nat \<Rightarrow> term_world \<Rightarrow> bool" where
  "observed_inv c w \<longleftrightarrow> (\<forall>sid i. observing w = Some (sid, i) \<longrightarrow>
     instances w sid = None \<or> (instances w sid = Some i \<and> ti_parent (heap w i) = Some c))"

definition same_view :: "term_world \<Rightarrow> term_world \<Rightarrow> bool" where
  "same_view w w' \<longleftrightarrow> (observing w' = observing w \<or> observing w' = None) \<and> instances w' = instances w
     \<and> (\<forall>i. ti_parent (heap w' i) = ti_parent (heap w i))"

lemma same_view_inv: "same_view w w' \<Longrightarrow> observed_inv c w \<Longrightarrow> observed_inv c w'"
  by (auto simp: same_view_def observed_inv_def)

lemma same_view_trans: "same_view w w1 \<Longrightarrow> same_view w1 w2 \<Longrightarrow> same_view w w2"
  by (auto simp: same_view_def)

lemma same_view_ops:
  "same_view w w"
  "same_view w (compositionstart i w)" "same_view w (compositionend i d w)"
  "same_view w (onData i d w)" "same_view w (onBinary i d w)" "same_view w (snd (onKey i k w))"
  "same_view w (contextLost i ok w)" "same_view w (theme_effect s th w)"
  "same_view w (scheduleReconnect i sid r w)"
  "same_view w (set_sock u st w)" "same_view w (onopen u w)" "same_view w (observed dm w)"
  "same_view w (effect_cleanup w)"
  "same_view w (onattached i msg dm w)" "same_view w (timer_fires t dm w)"
  "same_view w (ticket_reply n res r w)"
  by (auto simp: same_view_def compositionstart_def compositionend_def onData_def onBinary_def onKey_def
      sendBytes_def sendString_def loadWebgl_def contextLost_def theme_effect_def
      send_dims_def connectWebSocket_def scheduleReconnect_def onopen_def new_socket_def observed_def
      effect_cleanup_def set_sock_def onattached_def timer_fires_def
      ticket_reply_def connect_ticket_def reconnect_callback_def resize_callback_def Let_def
      split: option.splits prod.splits sum.splits term_cb.splits if_splits)

lemma same_view_each: "(\<And>w. same_view w (f w)) \<Longrightarrow> same_view w (each_listener i f w)"
proof -
  assume f: "\<And>w. same_view w (f w)"
  have "same_view w ((f ^^ n) w)" for n
    by (induction n) (auto intro: same_view_trans f same_view_ops(1))
  then show ?thesis by (simp add: each_listener_def)
qed

lemma observed_dispose:
  assumes "term_inv w" and "observed_inv c w"
  shows "observed_inv c (disposeTerminal sid w)"
proof (cases "instances w sid")
  case (Some i)
  have other: "ti_parent (heap (disposeTerminal sid w) j) = ti_parent (heap w j)" if "j \<noteq> i" for j
    using that Some by (simp add: disposeTerminal_def map_get_def Let_def close_socket_def split: option.split)
  have "observing (disposeTerminal sid w) = observing w"
    by (simp add: disposeTerminal_def Let_def close_socket_def split: option.split)
  moreover have "j \<noteq> i" if "instances w x = Some j" "x \<noteq> sid" for x j
    using pairs_unique [of w i x sid] pairsI(1) Some that assms(1) by (auto simp: inv_but_def)
  ultimately show ?thesis
    using assms(2) other unfolding observed_inv_def dispose_frame by (metis fun_upd_apply option.distinct(1))
qed (use assms in \<open>simp add: disposeTerminal_def map_get_def\<close>)

text \<open>What a render with the container observes and shows.\<close>

lemma observing_useTerminal:
  assumes "term_inv w" and "shown_inv c w" and "d = None \<or> d = Some c" and "w' = useTerminal s d th gl w"
  shows "(d = None \<or> \<not> truthy s) \<and> observing w' = None
    \<or> d = Some c \<and> (\<exists>sid i. s = Some sid \<and> sid \<noteq> [] \<and> observing w' = Some (sid, i) \<and> instances w' sid = Some i
        \<and> ti_parent (heap w' i) = Some c)"
proof -
  define th' where "th' = (case th of Some t \<Rightarrow> t | None \<Rightarrow> darkTerminalTheme)"
  let ?w1 = "effect_cleanup w"
  have w': "w' = theme_effect s th' (mount_effect s d th' gl ?w1)"
    by (simp add: assms(4) useTerminal_def th'_def Let_def)
  have keeps: "observing (theme_effect s th' u) = observing u" "instances (theme_effect s th' u) = instances u"
    "ti_parent (heap (theme_effect s th' u) i) = ti_parent (heap u i)" for s u i
    by (simp_all add: theme_effect_def split: option.split)
  have none: "observing ?w1 = None" by (simp add: effect_cleanup_def split: option.split)
  show ?thesis
  proof (cases "d = Some c \<and> truthy s")
    case False
    then consider "d = None" | "d = Some c" "\<not> truthy s" using assms(3) by blast
    then show ?thesis
    proof cases
      case 1
      then show ?thesis by (simp add: w' keeps none mount_effect_def)
    next
      case 2
      have "observing (detachFromContainer x c ?w1) = None" for x
        using none by (simp add: same_core_world [OF same_core_mounting(4)])
      with 2 none show ?thesis by (simp add: w' keeps mount_effect_def Let_def)
    qed
  next
    case True
    then obtain sid where s: "s = Some sid" "sid \<noteq> []" by (auto elim: truthyE)
    have inv1: "term_inv ?w1" by (rule inv_cleanup [OF assms(1)])
    have sh1: "shown_inv c ?w1" by (rule same_place_inv [OF same_place_ops(16) assms(2)])
    obtain i where i: "instances (mount_effect (Some sid) (Some c) th' gl ?w1) sid = Some i"
      "ti_parent (heap (mount_effect (Some sid) (Some c) th' gl ?w1) i) = Some c"
      using mount_shows [OF inv1 sh1 s(2), of th' gl] by (auto simp: in_container_def)
    moreover have "observing (mount_effect (Some sid) (Some c) th' gl ?w1) = Some (sid, i)"
    proof (rule mount_effect_eq [of "Some c" c "Some sid" ?w1 th' gl])
      fix w1 j w2 did w3 w4
      assume g: "get_instance (the (Some sid)) th' w1 = (j, w2)" and pl: "place_terminal j c gl w2 = (did, w3)"
        and w4: "w4 = (if did then log_eff (RefreshTerm j) (log_eff (FitTerm j) w3) else log_eff (FitTerm j) w3)"
        and eq: "mount_effect (Some sid) (Some c) th' gl ?w1 =
          (if ws_state w4 j = None \<or> ws_state w4 j = Some CLOSED then connectWebSocket j (the (Some sid)) w4 else w4)
            \<lparr>previousSessionId := Some (the (Some sid)), observing := Some (the (Some sid), j)\<rparr>"
      have "instances w2 sid = Some j" using g by (auto elim!: get_instance_cases)
      moreover have "instances w3 = instances w2"
        using pl by (auto simp: place_terminal_def bindInputListeners_def loadWebgl_def split: if_splits)
      ultimately show ?thesis using i(1) unfolding eq by (simp add: w4 split: if_splits)
    qed (use s in simp_all)
    ultimately show ?thesis using True s by (simp add: w' keeps)
  qed
qed

definition show_inv :: "nat \<Rightarrow> term_world \<Rightarrow> bool" where
  "show_inv c w \<longleftrightarrow> term_inv w \<and> shown_inv c w \<and> observed_inv c w"

lemma observed_step:
  assumes "show_inv c w" and "fixed_step c w e w'"
  shows "observed_inv c w'"
proof -
  have inv: "term_inv w" and sh: "shown_inv c w" and ob: "observed_inv c w" and st: "term_step w e w'"
    using assms by (auto simp: show_inv_def fixed_step_def)
  then have w': "w' = texec e w" by (simp add: term_step_iff)
  show ?thesis
  proof (cases e)
    case (Render s d th gl)
    then have "d = None \<or> d = Some c" using assms(2) by (simp add: fixed_step_def)
    from observing_useTerminal [OF inv sh this refl, of s th gl] show ?thesis
      by (auto simp: w' Render observed_inv_def)
  next
    case (DisposeCall sid)
    then show ?thesis using observed_dispose [OF inv ob] by (simp add: w')
  next
    case (SockOpen s)
    show ?thesis unfolding w' SockOpen texec.simps
      by (rule same_view_inv [OF same_view_trans [OF same_view_ops(10,11)] ob])
  next
    case (SockClosed s f r)
    have "same_view w (scheduleReconnect i x r (set_inst i (\<lambda>n. n\<lparr>connecting := False\<rparr>) (set_sock s CLOSED w)))"
      for i x
      by (rule same_view_trans [OF _ same_view_ops(9)]) (simp add: same_view_def)
    then show ?thesis unfolding w' SockClosed closed_eq using ob same_view_inv by blast
  next
    case (SockText s p d)
    have "same_view w w'"
      by (auto simp: w' SockText onmessage_text_def same_view_ops split: option.split sum.split)
    then show ?thesis using ob by (rule same_view_inv)
  qed (auto simp: w' intro!: same_view_inv [OF _ ob] same_view_ops same_view_each
      simp: onmessage_binary_def pasteToTerminal_def sendToTerminal_def same_view_def split: option.split)
qed

lemma show_inv_step:
  assumes "show_inv c w" and "fixed_step c w e w'"
  shows "show_inv c w'"
proof -
  have inv: "term_inv w" and sh: "shown_inv c w" and st: "term_step w e w'"
    using assms by (auto simp: show_inv_def fixed_step_def)
  then have w': "w' = texec e w" by (simp add: term_step_iff)
  have "shown_inv c w'"
  proof (cases e)
    case (Render s d th gl)
    then have "d = None \<or> d = Some c" using assms(2) by (simp add: fixed_step_def)
    from shown_useTerminal [OF inv sh this, of s th gl] show ?thesis by (simp add: w' Render)
  next
    case (SockOpen s)
    show ?thesis unfolding w' SockOpen texec.simps
      by (rule same_place_inv [OF same_place_trans [OF same_place_ops(12,13)] sh])
  next
    case (SockClosed s f r)
    have "same_place w (scheduleReconnect i x r (set_inst i (\<lambda>n. n\<lparr>connecting := False\<rparr>) (set_sock s CLOSED w)))"
      for i x
      by (rule same_place_trans [OF _ same_place_ops(11)]) (simp add: same_place_def set_sock_def)
    then show ?thesis unfolding w' SockClosed closed_eq using sh same_place_inv by blast
  next
    case (SockText s p d)
    have "same_place w w'"
      by (auto simp: w' SockText onmessage_text_def same_place_ops split: option.split sum.split)
    then show ?thesis using sh by (rule same_place_inv)
  qed (auto simp: w' intro!: same_place_inv [OF _ sh] same_place_ops same_place_each
      simp: onmessage_binary_def pasteToTerminal_def sendToTerminal_def same_place_def split: option.split)
  moreover have "term_inv w'" by (rule term_inv_step [OF inv st])
  moreover have "observed_inv c w'" by (rule observed_step [OF assms])
  ultimately show ?thesis by (simp add: show_inv_def)
qed

lemma show_inv_start: "term_start w \<Longrightarrow> show_inv c w"
  using term_inv_start
  by (auto simp: show_inv_def shown_inv_def observed_inv_def in_container_def term_start_def)

interpretation shw: invariant_machine term_start "fixed_step c" "show_inv c" for c
  by unfold_locales (rule show_inv_start show_inv_step; assumption)+

text \<open>
  C22: The pane of the component never holds two terminals. In every state the component can be in, at
  most one cached session has its terminal in the container, and the terminal whose size is observed is
  the one in the container (or was disposed since). A render that shows a session leaves exactly that
  session's terminal in the container and observes it; a render without a session empties the container
  and observes nothing.
\<close>
theorem one_terminal_shown:
  assumes "reach term_start (fixed_step c) w"
  shows "(\<forall>x y. in_container c w x \<longrightarrow> in_container c w y \<longrightarrow> x = y)
    \<and> (\<forall>sid i. observing w = Some (sid, i) \<longrightarrow>
         instances w sid = None \<or> (instances w sid = Some i \<and> in_container c w sid))
    \<and> (\<forall>sid th gl. sid \<noteq> [] \<longrightarrow> (let w' = useTerminal (Some sid) (Some c) th gl w in
         {x. in_container c w' x} = {sid} \<and> (\<exists>i. instances w' sid = Some i \<and> observing w' = Some (sid, i))))
    \<and> (\<forall>s th gl. \<not> truthy s \<longrightarrow> (let w' = useTerminal s (Some c) th gl w in
         {x. in_container c w' x} = {} \<and> observing w' = None))"
proof (intro conjI allI impI)
  have "show_inv c w" using assms(1) by (rule shw.reach_inv)
  then have inv: "term_inv w" and sh: "shown_inv c w" and ob: "observed_inv c w" by (simp_all add: show_inv_def)
  show "x = y" if "in_container c w x" "in_container c w y" for x y
    by (rule shown_unique [OF sh that])
  show "instances w sid = None \<or> (instances w sid = Some i \<and> in_container c w sid)"
    if "observing w = Some (sid, i)" for sid i
    using ob that unfolding observed_inv_def in_container_def by blast
  show "let w' = useTerminal (Some sid) (Some c) th gl w in
      {x. in_container c w' x} = {sid} \<and> (\<exists>i. instances w' sid = Some i \<and> observing w' = Some (sid, i))"
    if "sid \<noteq> []" for sid th gl
  proof -
    have "shown_inv c (useTerminal (Some sid) (Some c) th gl w)"
      "in_container c (useTerminal (Some sid) (Some c) th gl w) sid"
      using shown_useTerminal [OF inv sh, of "Some c" "Some sid" th gl] that by simp_all
    then have "{x. in_container c (useTerminal (Some sid) (Some c) th gl w) x} = {sid}"
      using shown_unique by blast
    moreover have "\<exists>i. instances (useTerminal (Some sid) (Some c) th gl w) sid = Some i
        \<and> observing (useTerminal (Some sid) (Some c) th gl w) = Some (sid, i)"
      using observing_useTerminal [OF inv sh _ refl, of "Some c" "Some sid" th gl] that by auto
    ultimately show ?thesis by (simp add: Let_def)
  qed
  show "let w' = useTerminal s (Some c) th gl w in {x. in_container c w' x} = {} \<and> observing w' = None"
    if "\<not> truthy s" for s th gl
    using useTerminal_hides [OF inv sh that, of th gl]
      observing_useTerminal [OF inv sh _ refl, of "Some c" s th gl] that
    by (auto simp: Let_def)
qed

theorem one_terminal_shown_witness:
  "{x. in_container 0 (useTerminal (Some ''s2'') (Some 0) None True
     (texec (show_session ''s1'') term_sample)) x} = {''s2''}
   \<and> fst (the (observing (texec (show_session ''s1'') term_sample))) = ''s1''"
proof -
  have "term_step term_sample (show_session ''s1'') (texec (show_session ''s1'') term_sample)"
    by (rule tstep) (simp add: show_session_def)
  then have "fixed_step 0 term_sample (show_session ''s1'') (texec (show_session ''s1'') term_sample)"
    by (simp add: fixed_step_def show_session_def)
  from reach_step [of term_start "fixed_step 0", OF reach_start this] term_start_sample
  have r: "reach term_start (fixed_step 0) (texec (show_session ''s1'') term_sample)" by simp
  have "fst (the (observing (texec (show_session ''s1'') term_sample))) = ''s1''" by code_simp
  with one_terminal_shown [OF r] show ?thesis by (simp add: Let_def)
qed

end
