(* ===== verification/TermIme.thy ===== *)
theory TermIme
  imports TermIO
begin

text \<open>
  Composed input: what the terminal hook does with the text of an input method editor, over runs in
  which anything else may happen between the composition events.
\<close>

section \<open>Who changes the composition state\<close>

text \<open>
  \<open>same_ime i\<close> relates states in which instance \<open>i\<close> has the same composition flag and the same end of
  the suppression window.
\<close>

definition same_ime :: "nat \<Rightarrow> term_world \<Rightarrow> term_world \<Rightarrow> bool" where
  "same_ime i w w' \<longleftrightarrow> i < next_inst w \<longrightarrow> i < next_inst w'
     \<and> composing (heap w' i) = composing (heap w i)
     \<and> compositionSuppressUntil (heap w' i) = compositionSuppressUntil (heap w i)"

lemma same_ime_refl [simp]: "same_ime i w w"
  by (simp add: same_ime_def)

lemma same_ime_trans: "same_ime i w w1 \<Longrightarrow> same_ime i w1 w2 \<Longrightarrow> same_ime i w w2"
  by (auto simp: same_ime_def)

lemma same_ime_fields [simp]:
  "same_ime i w (w'\<lparr>previousSessionId := p, observing := ob\<rparr>) = same_ime i w w'"
  "same_ime i w (w'\<lparr>previousSessionId := p\<rparr>) = same_ime i w w'"
  "same_ime i w (log_eff x w') = same_ime i w w'"
  by (simp_all add: same_ime_def)

lemma same_ime_ops:
  "j \<noteq> i \<Longrightarrow> same_ime i w (compositionstart j w)" "j \<noteq> i \<Longrightarrow> same_ime i w (compositionend j d w)"
  "same_ime i w (onData j d w)" "same_ime i w (onBinary j d w)" "same_ime i w (snd (onKey j k w))"
  "same_ime i w (contextLost j ok w)" "same_ime i w (detachFromContainer sid c w)"
  "same_ime i w (theme_effect s th w)" "same_ime i w (connectWebSocket j sid w)"
  "same_ime i w (scheduleReconnect j sid r w)" "same_ime i w (set_sock u st w)"
  "same_ime i w (onopen u w)" "same_ime i w (observed dm w)"
  "same_ime i w (disposeTerminal sid w)" "same_ime i w (effect_cleanup w)"
  "same_ime i w (snd (place_terminal j c ok w))" "same_ime i w (onattached j msg dm w)"
  "same_ime i w (timer_fires t dm w)" "same_ime i w (ticket_reply n res r w)"
  by (auto simp: same_ime_def compositionstart_def compositionend_def onData_def onBinary_def onKey_def
      sendBytes_def sendString_def loadWebgl_def contextLost_def detachFromContainer_def theme_effect_def
      send_dims_def connectWebSocket_def scheduleReconnect_def onopen_def new_socket_def observed_def
      disposeTerminal_def close_socket_def effect_cleanup_def set_sock_def place_terminal_def
      bindInputListeners_def onattached_def timer_fires_def resize_callback_def reconnect_callback_def
      ticket_reply_def connect_ticket_def Let_def
      split: option.splits prod.splits sum.splits term_cb.splits)

lemma same_ime_each: "(\<And>w. same_ime i w (f w)) \<Longrightarrow> same_ime i w (each_listener j f w)"
proof -
  assume f: "\<And>w. same_ime i w (f w)"
  have "same_ime i w ((f ^^ n) w)" for n
    by (induction n) (auto intro: same_ime_trans f)
  then show ?thesis by (simp add: each_listener_def)
qed

lemma same_ime_get: "get_instance sid th w = (j, w') \<Longrightarrow> same_ime i w w'"
  by (auto simp: same_ime_def elim!: get_instance_cases)

lemma same_ime_mount: "same_ime i w (mount_effect s container th gl w)"
proof (cases "container = None \<or> \<not> truthy s")
  case True
  then show ?thesis using same_ime_ops(7) by (auto simp: mount_effect_def Let_def split: option.split)
next
  case False
  then obtain c where c: "container = Some c" and s: "truthy s" by auto
  show ?thesis
  proof (rule mount_effect_eq [OF c s, of w th gl])
    fix w1 j w2 did w3 w4
    assume w1: "w1 = (if truthy (previousSessionId w) \<and> previousSessionId w \<noteq> s
         then detachFromContainer (the (previousSessionId w)) c w else w)"
      and g: "get_instance (the s) th w1 = (j, w2)" and pl: "place_terminal j c gl w2 = (did, w3)"
      and w4: "w4 = (if did then log_eff (RefreshTerm j) (log_eff (FitTerm j) w3) else log_eff (FitTerm j) w3)"
      and eq: "mount_effect s container th gl w =
        (if ws_state w4 j = None \<or> ws_state w4 j = Some CLOSED then connectWebSocket j (the s) w4 else w4)
          \<lparr>previousSessionId := Some (the s), observing := Some (the s, j)\<rparr>"
    have "same_ime i w w1" using w1 same_ime_ops(7) by simp
    then have "same_ime i w w2" using same_ime_get [OF g] by (rule same_ime_trans)
    then have "same_ime i w w3" using same_ime_ops(16) [of i w2 j c gl] pl same_ime_trans by fastforce
    then have w4': "same_ime i w w4" by (simp add: w4)
    then have "same_ime i w (connectWebSocket j (the s) w4)" using same_ime_ops(9) by (rule same_ime_trans)
    with w4' show ?thesis unfolding eq by simp
  qed
qed

lemma same_ime_step:
  assumes "term_step w e w'" and "e \<noteq> CompStart i" and "\<forall>d. e \<noteq> CompEnd i d"
  shows "same_ime i w w'"
proof -
  have w': "w' = texec e w" using assms(1) by (simp add: term_step_iff)
  show ?thesis
  proof (cases e)
    case (Render s c th gl)
    show ?thesis unfolding w' Render texec.simps useTerminal_def Let_def
      by (rule same_ime_trans [OF same_ime_trans [OF same_ime_ops(15) same_ime_mount] same_ime_ops(8)])
  next
    case (SockOpen s)
    show ?thesis unfolding w' SockOpen texec.simps by (rule same_ime_trans [OF same_ime_ops(11,12)])
  next
    case (SockClosed s f r)
    have "same_ime i w (scheduleReconnect j x r (set_inst j (\<lambda>n. n\<lparr>connecting := False\<rparr>) (set_sock s CLOSED w)))"
      for j x
      by (rule same_ime_trans [OF _ same_ime_ops(10)]) (simp add: same_ime_def)
    then show ?thesis unfolding w' SockClosed closed_eq .
  next
    case (SockText s p d)
    then show ?thesis
      by (auto simp: w' onmessage_text_def same_ime_ops split: option.split sum.split)
  next
    case (TermTick d)
    then show ?thesis by (simp add: w' same_ime_def)
  qed (use assms(2,3) in \<open>auto simp: w' onmessage_binary_def pasteToTerminal_def sendToTerminal_def
        intro!: same_ime_ops same_ime_each split: option.split\<close>)
qed

section \<open>Runs around a composition\<close>

lemma same_ime_run:
  assumes "run_path term_step w es w'" and "\<forall>t. CompStart i \<notin> set es \<and> CompEnd i t \<notin> set es"
  shows "same_ime i w w'"
  using assms
proof (induction rule: run_path.induct)
  case (run_cons s e t es u)
  have "same_ime i s t" using run_cons.hyps(1) by (rule same_ime_step) (use run_cons.prems in auto)
  moreover have "same_ime i t u" using run_cons.IH run_cons.prems by auto
  ultimately show ?case by (rule same_ime_trans)
qed simp

lemma live_known: "xterm_live i w \<Longrightarrow> i < next_inst w"
  by (simp add: xterm_live_def)

lemma composing_run:
  assumes "run_path term_step w es w'" and "\<forall>t. CompEnd i t \<notin> set es"
    and "i < next_inst w" and "composing (heap w i)" and "reach term_start term_step w"
  shows "composing (heap w' i)"
  using assms
proof (induction rule: run_path.induct)
  case (run_cons s e t es u)
  have reach: "reach term_start term_step t" using run_cons.prems(4) run_cons.hyps(1) by (rule reach_step)
  have "i < next_inst t \<and> composing (heap t i)"
  proof (cases "e = CompStart i")
    case True
    then have "t = each_listener i (compositionstart i) s" "xterm_live i s"
      using run_cons.hyps(1) by (simp_all add: term_step_iff)
    then have "t = compositionstart i s" using one_listener [OF run_cons.prems(4)] iterate_once by simp
    then show ?thesis using run_cons.prems(2) by (simp add: compositionstart_def)
  next
    case False
    have "same_ime i s t"
      using run_cons.hyps(1) False by (rule same_ime_step) (use run_cons.prems(1) in auto)
    then show ?thesis using run_cons.prems(2,3) by (simp add: same_ime_def)
  qed
  then show ?case using run_cons.IH run_cons.prems(1) reach by simp
qed simp

text \<open>What a text sent for an instance adds to the log.\<close>

definition text_sent :: "term_world \<Rightarrow> nat \<Rightarrow> ustring \<Rightarrow> term_eff list" where
  "text_sent w i d =
     (if ws_state w i = Some OPEN then [SendBytes (the (ti_ws (heap w i))) (TextEncoder_encode d)] else [])"

lemma sendString_log: "tlog (sendString i d w) = tlog w @ text_sent w i d"
  by (simp add: sendString_def sendBytes_def text_sent_def)

lemma text_sent_set_inst:
  "(\<And>n. ti_ws (f n) = ti_ws n) \<Longrightarrow> text_sent (set_inst j f w) i d = text_sent w i d"
  by (simp add: text_sent_def ws_state_def)

lemma compositionend_effect:
  "tlog (compositionend i d w) = tlog w @ (if d = [] then [] else text_sent w i d)"
  "composing (heap (compositionend i d w) i) = False"
  "compositionSuppressUntil (heap (compositionend i d w) i) = tclock w + 50"
  "tclock (compositionend i d w) = tclock w" "next_inst (compositionend i d w) = next_inst w"
  by (simp_all add: compositionend_def Let_def sendString_log text_sent_set_inst)
    (simp_all add: sendString_def sendBytes_def)

lemma each_id: "f w = w \<Longrightarrow> each_listener i f w = w"
proof -
  assume f: "f w = w"
  have "(f ^^ n) w = w" for n by (induction n) (simp_all add: f)
  then show ?thesis by (simp add: each_listener_def)
qed

text \<open>
  C20: A composed text is sent exactly once. From the start of a composition in a terminal to its end,
  whatever else happens, the text that xterm reports as data changes nothing. The end sends the
  composed text, if there is one and the socket is open, in one frame. After it, until the next
  composition of the terminal, the data that xterm reports within 50 ms changes nothing, however many
  reports come, and data reported 50 ms later or more is sent as one frame if the socket is open then.
  Binary reports and Shift+Enter are not held back.
\<close>
theorem composition_sent_once:
  assumes "reach term_start term_step w" and "term_step w (CompStart i) w1"
    and "run_path term_step w1 es w2" and "\<forall>t. CompEnd i t \<notin> set es"
    and "term_step w2 (CompEnd i d) w3"
    and "run_path term_step w3 fs w4" and "\<forall>t. CompStart i \<notin> set fs \<and> CompEnd i t \<notin> set fs"
  shows "(\<forall>x. texec (Data i x) w2 = w2)
    \<and> tlog w3 = tlog w2 @ (if d = [] then [] else text_sent w2 i d)
    \<and> (\<forall>x w5. term_step w4 (Data i x) w5 \<longrightarrow>
         (if tclock w4 < tclock w3 + 50 then w5 = w4 else tlog w5 = tlog w4 @ text_sent w4 i x))"
proof (intro conjI allI impI)
  have r1: "reach term_start term_step w1" using assms(1,2) by (rule reach_step)
  have r2: "reach term_start term_step w2" by (rule run_path_reach [OF assms(3) r1])
  have r4: "reach term_start term_step w4"
    by (rule run_path_reach [OF assms(6) reach_step [OF r2 assms(5)]])
  have "xterm_live i w" and w1: "w1 = each_listener i (compositionstart i) w"
    using assms(2) by (simp_all add: term_step_iff)
  then have "w1 = compositionstart i w" using one_listener [OF assms(1)] iterate_once by simp
  then have c1: "composing (heap w1 i)" and n1: "i < next_inst w1"
    using live_known [OF \<open>xterm_live i w\<close>] by (simp_all add: compositionstart_def)
  have "composing (heap w2 i)" by (rule composing_run [OF assms(3,4) n1 c1 r1])
  then show "texec (Data i x) w2 = w2" for x by (simp add: each_id onData_def)
  have live2: "xterm_live i w2" using assms(5) by (simp add: term_step_iff)
  have w3: "w3 = compositionend i d w2"
    using assms(5) one_listener [OF r2 live2] by (simp add: term_step_iff iterate_once)
  show "tlog w3 = tlog w2 @ (if d = [] then [] else text_sent w2 i d)"
    unfolding w3 by (rule compositionend_effect)
  have ime: "composing (heap w4 i) = False" "compositionSuppressUntil (heap w4 i) = tclock w3 + 50"
    using same_ime_run [OF assms(6,7)] live_known [OF live2]
    by (simp_all add: same_ime_def w3 compositionend_effect)
  show "if tclock w4 < tclock w3 + 50 then w5 = w4 else tlog w5 = tlog w4 @ text_sent w4 i x"
    if "term_step w4 (Data i x) w5" for x w5
  proof -
    have "w5 = onData i x w4"
      using that one_listener [OF r4] by (auto simp: term_step_iff iterate_once)
    then show ?thesis using ime by (simp add: onData_def sendString_log)
  qed
qed

theorem composition_sent_once_witness:
  "\<exists>w'. run_path term_step (after_term open_events)
      [CompStart 0, Data 0 [0x314E], CompEnd 0 [0xD55C], TermTick 49, Data 0 [0xD55C]] w'
    \<and> tlog w' = tlog (after_term open_events) @ [SendBytes 0 (TextEncoder_encode [0xD55C])]"
proof -
  let ?w = "after_term open_events"
  have run: "run_term open_events term_sample \<noteq> None" by code_simp
  have w: "ws_state ?w 0 = Some OPEN" "ti_ws (heap ?w 0) = Some 0" "xterm_live 0 ?w" by code_simp+
  note r = reach_after_term [OF run]
  have l: "ti_listeners (heap ?w 0) = 1" by (rule one_listener [OF r w(3)])
  let ?w1 = "compositionstart 0 ?w"
  let ?w3 = "compositionend 0 [0xD55C] ?w1"
  let ?w4 = "texec (TermTick 49) ?w3"
  let ?w5 = "texec (Data 0 [0xD55C]) ?w4"
  have live: "xterm_live 0 ?w1" "xterm_live 0 ?w4" and l1: "ti_listeners (heap ?w1 0) = 1"
    using w(3) l by (simp_all add: xterm_live_def compositionstart_def compositionend_def Let_def sendString_def sendBytes_def)
  have s1: "term_step ?w (CompStart 0) ?w1"
    using w(3) by (simp add: term_step_iff iterate_once [OF l])
  have d: "texec (Data 0 [0x314E]) ?w1 = ?w1" by (simp add: each_id onData_def compositionstart_def)
  have s2: "term_step ?w1 (Data 0 [0x314E]) ?w1" using tstep [of "Data 0 [0x314E]" ?w1] live(1) d by simp
  have s3: "term_step ?w1 (CompEnd 0 [0xD55C]) ?w3" using live(1) by (simp add: term_step_iff iterate_once [OF l1])
  have s4: "term_step ?w3 (TermTick 49) ?w4" by (rule tstep) simp
  have s5: "term_step ?w4 (Data 0 [0xD55C]) ?w5" by (rule tstep) (use live in simp)
  have sent: "text_sent ?w1 0 [0xD55C] = [SendBytes 0 (TextEncoder_encode [0xD55C])]" "tlog ?w1 = tlog ?w"
    using w(1,2) by (simp_all add: text_sent_def compositionstart_def ws_state_def)
  have p2: "run_path term_step ?w1 [Data 0 [0x314E]] ?w1" and p4: "run_path term_step ?w3 [TermTick 49] ?w4"
    using s2 s4 by (simp_all add: run_path_Cons)
  from composition_sent_once [OF r s1 p2 _ s3 p4]
  have "tlog ?w3 = tlog ?w @ [SendBytes 0 (TextEncoder_encode [0xD55C])]" and "?w5 = ?w4"
    using s5 sent by simp_all
  moreover have "run_path term_step ?w [CompStart 0, Data 0 [0x314E], CompEnd 0 [0xD55C], TermTick 49, Data 0 [0xD55C]] ?w5"
    using s1 s2 s3 s4 s5 by (auto simp: run_path_Cons simp del: texec.simps)
  ultimately show ?thesis by (intro exI [of _ ?w5]) simp
qed

end
