(* ===== verification/TermSilent.thy ===== *)
theory TermSilent
  imports TermIO
begin

text \<open>
  After \<open>disposeTerminal\<close>: the disposed instance never gets a live socket again and nothing is sent for
  it, whatever was under way, as long as its session is not shown again.
\<close>

section \<open>Who an instance belongs to never changes\<close>

lemma lookup_cleared: "timer_lookup (clear_timeout n q) t = Some p \<Longrightarrow> timer_lookup q t = Some p"
  by (simp add: tmr.look_cancel split: if_splits)

lemma lookup_armed:
  "set_timeout now d c q = (n, q') \<Longrightarrow> timer_lookup q' t = Some (d', cb) \<Longrightarrow>
   cb = c \<or> timer_lookup q t = Some (d', cb)"
  by (auto simp: set_timeout_def timer_lookup_def map_add_def split: option.splits if_splits)

lemma pairs_subset_iff: "pairs w \<subseteq> S \<longleftrightarrow>
    (\<forall>sid i. instances w sid = Some i \<longrightarrow> (i, sid) \<in> S)
  \<and> (\<forall>n i sid. (n, i, sid) \<in> set (tickets w) \<longrightarrow> (i, sid) \<in> S)
  \<and> (\<forall>t d cb. timer_lookup (tqueue w) t = Some (d, cb) \<longrightarrow> cb_inst cb \<in> S)
  \<and> (\<forall>s < next_sock w. (sock_inst (socks w s), sock_sid (socks w s)) \<in> S)
  \<and> (\<forall>sid i. observing w = Some (sid, i) \<longrightarrow> (i, sid) \<in> S)"
proof -
  have 1: "{(i, sid). instances w sid = Some i} \<subseteq> S \<longleftrightarrow> (\<forall>sid i. instances w sid = Some i \<longrightarrow> (i, sid) \<in> S)"
    and 2: "snd ` set (tickets w) \<subseteq> S \<longleftrightarrow> (\<forall>n i sid. (n, i, sid) \<in> set (tickets w) \<longrightarrow> (i, sid) \<in> S)"
    and 3: "{cb_inst cb | t d cb. timer_lookup (tqueue w) t = Some (d, cb)} \<subseteq> S
      \<longleftrightarrow> (\<forall>t d cb. timer_lookup (tqueue w) t = Some (d, cb) \<longrightarrow> cb_inst cb \<in> S)"
    and 4: "{(sock_inst (socks w s), sock_sid (socks w s)) | s. s < next_sock w} \<subseteq> S
      \<longleftrightarrow> (\<forall>s < next_sock w. (sock_inst (socks w s), sock_sid (socks w s)) \<in> S)"
    and 5: "{(i, sid). observing w = Some (sid, i)} \<subseteq> S \<longleftrightarrow> (\<forall>sid i. observing w = Some (sid, i) \<longrightarrow> (i, sid) \<in> S)"
    by (blast, force, blast, blast, blast)
  show ?thesis unfolding pairs_def Un_subset_iff 1 2 3 4 5 by (simp only: conj_assoc)
qed

lemma pairs_core: "same_core w w' \<Longrightarrow> pairs w' = pairs w"
  by (simp add: pairs_def same_core_world)

lemma pairs_schedule: "pairs w \<subseteq> S \<Longrightarrow> (i, sid) \<in> S \<Longrightarrow> pairs (scheduleReconnect i sid r w) \<subseteq> S"
  by (auto simp: pairs_subset_iff scheduleReconnect_def Let_def
      dest!: lookup_armed lookup_cleared split: prod.splits)

lemma pairs_connect: "pairs w \<subseteq> S \<Longrightarrow> (i, sid) \<in> S \<Longrightarrow> pairs (connectWebSocket i sid w) \<subseteq> S"
  by (auto simp: pairs_subset_iff connectWebSocket_def)

lemma pairs_observed: "pairs w \<subseteq> S \<Longrightarrow> pairs (observed d w) \<subseteq> S"
  by (auto simp: pairs_subset_iff observed_def Let_def map_get_def
      dest!: lookup_armed lookup_cleared split: prod.splits option.splits)

lemma pairs_set_sock: "pairs w \<subseteq> S \<Longrightarrow> pairs (set_sock s st w) \<subseteq> S"
  by (auto simp: pairs_subset_iff set_sock_def)

lemma pairs_dispose: "pairs w \<subseteq> S \<Longrightarrow> pairs (disposeTerminal sid w) \<subseteq> S"
  by (auto simp: pairs_subset_iff disposeTerminal_def Let_def map_get_def map_del_def close_socket_def
      set_sock_def dest!: lookup_cleared split: option.splits if_splits)

lemma pairs_cleanup: "pairs w \<subseteq> S \<Longrightarrow> pairs (effect_cleanup w) \<subseteq> S"
  by (auto simp: pairs_subset_iff effect_cleanup_def dest!: lookup_cleared split: option.splits)

lemma pairs_mount:
  assumes "pairs w \<subseteq> S" and "\<And>x. (next_inst w, x) \<in> S"
  shows "pairs (mount_effect s c th gl w) \<subseteq> S"
proof (cases rule: mount_effect_cases [of c s th gl w])
  case (2 c' w1)
  have "pairs (w1\<lparr>previousSessionId := None\<rparr>) = pairs w1" by (simp add: pairs_def)
  then show ?thesis unfolding 2(4) using pairs_core [OF 2(3)] assms(1) by simp
next
  case (3 c' sid w1 i w2 w3)
  have "pairs w1 \<subseteq> S" "next_inst w1 = next_inst w"
    using pairs_core [OF 3(4)] same_core_world [OF 3(4)] assms(1) by simp_all
  then have "pairs w2 \<subseteq> S \<and> (i, sid) \<in> S"
    using 3(5) assms(2) by (auto simp: pairs_subset_iff elim!: get_instance_cases split: if_splits)
  then have w3: "pairs w3 \<subseteq> S" "(i, sid) \<in> S" using pairs_core [OF 3(6)] by simp_all
  have "pairs (u\<lparr>previousSessionId := Some sid, observing := Some (sid, i)\<rparr>) \<subseteq> S" if "pairs u \<subseteq> S" for u
    using that w3(2) by (simp add: pairs_subset_iff)
  then show ?thesis unfolding 3(7) using w3 pairs_connect by simp
qed (use assms in simp)

lemma pairs_ticket: "pairs w \<subseteq> S \<Longrightarrow> pairs (ticket_reply n res r w) \<subseteq> S"
proof (cases "map_of (tickets w) n")
  case (Some p)
  assume S: "pairs w \<subseteq> S"
  let ?u = "w\<lparr>tickets := filter (\<lambda>p. fst p \<noteq> n) (tickets w)\<rparr>"
  obtain i sid where p: "p = (i, sid)" by fastforce
  have u: "pairs ?u \<subseteq> S" using S by (auto simp: pairs_subset_iff)
  have isid: "(i, sid) \<in> S" using map_of_SomeD [OF Some] S p by (auto simp: pairs_subset_iff)
  have "pairs (scheduleReconnect i sid r (log_eff x (set_inst i f ?u))) \<subseteq> S" for x f
    by (rule pairs_schedule [OF _ isid]) (simp add: u)
  moreover have "pairs (new_socket i sid tk ?u) \<subseteq> S" for tk
    using u isid by (auto simp: pairs_subset_iff new_socket_def Let_def)
  ultimately show ?thesis
    using Some p u by (simp add: ticket_reply_def connect_ticket_def split: sum.split)
qed (simp add: ticket_reply_def)

lemma pairs_timer: "pairs w \<subseteq> S \<Longrightarrow> pairs (timer_fires t d w) \<subseteq> S"
proof (cases "timer_lookup (tqueue w) t")
  case (Some q)
  assume S: "pairs w \<subseteq> S"
  let ?u = "w\<lparr>tqueue := clear_timeout (Some t) (tqueue w)\<rparr>"
  have u: "pairs ?u \<subseteq> S" using S by (auto simp: pairs_subset_iff dest!: lookup_cleared)
  have cb: "cb_inst (snd q) \<in> S" using Some S by (cases q) (auto simp: pairs_subset_iff)
  show ?thesis
  proof (cases "snd q")
    case (CbReconnect i sid)
    then show ?thesis
      using Some cb u pairs_connect [OF u] by (cases q) (simp add: timer_fires_def reconnect_callback_def Let_def)
  next
    case (CbResize i sid)
    then show ?thesis
      using Some u pairs_core [OF same_core_messages(3)] by (cases q) (simp add: timer_fires_def Let_def)
  qed
qed (simp add: timer_fires_def)

lemma pairs_step:
  assumes "term_step w e w'" and S: "pairs w \<subseteq> S" and new: "\<And>x. (next_inst w, x) \<in> S"
  shows "pairs w' \<subseteq> S"
proof -
  have w': "w' = texec e w" using assms(1) by (simp add: term_step_iff)
  show ?thesis
  proof (cases "cosmetic e")
    case True
    then show ?thesis using S w' pairs_core [OF cosmetic_same_core] by simp
  next
    case False
    then show ?thesis
    proof (cases e)
      case (Render s c th gl)
      have "next_inst (effect_cleanup w) = next_inst w" by (simp add: effect_cleanup_def split: option.split)
      then have "pairs (mount_effect s c th' gl (effect_cleanup w)) \<subseteq> S" for th'
        using pairs_mount [OF pairs_cleanup [OF S]] new by simp
      then show ?thesis
        unfolding w' Render texec.simps useTerminal_def Let_def
        by (simp add: pairs_core [OF same_core_mounting(5)])
    next
      case (SockOpen s)
      have "pairs (onopen s u) = pairs u" for u by (simp add: onopen_def Let_def)
      then show ?thesis using pairs_set_sock [OF S] by (simp add: w' SockOpen)
    next
      case (SockClosed s f r)
      have "(sock_inst (socks w s), sock_sid (socks w s)) \<in> S"
        using S assms(1) by (auto simp: term_step_iff SockClosed pairs_subset_iff)
      then show ?thesis unfolding w' SockClosed closed_eq
        by (rule pairs_schedule [rotated]) (simp add: pairs_set_sock S)
    qed (use S w' in \<open>simp_all add: pairs_cleanup pairs_set_sock pairs_ticket pairs_timer pairs_observed
          pairs_dispose\<close>)
  qed
qed

section \<open>The socket of an instance\<close>

text \<open>An instance gets another socket only by the answer to its own ticket request for a cached session.\<close>

lemma keep_ws:
  "ti_ws (heap (effect_cleanup w) j) = ti_ws (heap w j)" "next_inst (effect_cleanup w) = next_inst w"
  "ti_ws (heap (onopen s w) j) = ti_ws (heap w j)" "next_inst (onopen s w) = next_inst w"
  "ti_ws (heap (observed d w) j) = ti_ws (heap w j)" "next_inst (observed d w) = next_inst w"
  "ti_ws (heap (disposeTerminal sid w) j) = ti_ws (heap w j)" "next_inst (disposeTerminal sid w) = next_inst w"
  "ti_ws (heap (connectWebSocket i sid w) j) = ti_ws (heap w j)" "next_inst (connectWebSocket i sid w) = next_inst w"
  "ti_ws (heap (scheduleReconnect i sid r w) j) = ti_ws (heap w j)" "next_inst (scheduleReconnect i sid r w) = next_inst w"
  by (simp_all add: effect_cleanup_def onopen_def observed_def disposeTerminal_def close_socket_def
      connectWebSocket_def scheduleReconnect_def Let_def split: option.split prod.split)

lemma step_ws:
  assumes "term_step w e w'" and "j < next_inst w"
    and "\<And>n sid. (n, j, sid) \<in> set (tickets w) \<Longrightarrow> instances w sid = None"
  shows "ti_ws (heap w' j) = ti_ws (heap w j) \<and> j < next_inst w'"
proof -
  have w': "w' = texec e w" using assms(1) by (simp add: term_step_iff)
  show ?thesis
  proof (cases "cosmetic e")
    case True
    then show ?thesis using assms(2) w' same_core_world [OF cosmetic_same_core] same_core_heap [OF cosmetic_same_core]
      by simp
  next
    case False
    then show ?thesis
    proof (cases e)
      case (Render s c th gl)
      let ?u = "effect_cleanup w"
      have u: "heap ?u = heap w" "next_inst ?u = next_inst w"
        by (simp_all add: effect_cleanup_def split: option.split)
      have "ti_ws (heap (mount_effect s c th' gl ?u) j) = ti_ws (heap w j)
          \<and> j < next_inst (mount_effect s c th' gl ?u)" for th'
      proof (cases rule: mount_effect_cases [of c s th' gl ?u])
        case (2 c' w1)
        then show ?thesis using same_core_heap [OF 2(3)] same_core_world [OF 2(3)] u assms(2) by simp
      next
        case (3 c' sid w1 i w2 w3)
        have "ti_ws (heap w2 j) = ti_ws (heap w j) \<and> j < next_inst w2"
          using 3(5) same_core_heap [OF 3(4)] same_core_world [OF 3(4)] u assms(2)
          by (auto elim!: get_instance_cases)
        then show ?thesis
          unfolding 3(7) using keep_ws(9,10) [of i sid w3] same_core_heap [OF 3(6)] same_core_world [OF 3(6)] by simp
      qed (use u assms(2) in simp)
      then show ?thesis
        unfolding w' Render texec.simps useTerminal_def Let_def
        by (simp add: same_core_heap [OF same_core_mounting(5)] same_core_world [OF same_core_mounting(5)])
    next
      case (TicketReply n res r)
      have "map_of (tickets w) n = Some (j, sid) \<Longrightarrow> instances w sid = None" for sid
        using assms(3) map_of_SomeD by metis
      then show ?thesis using assms(2)
        by (auto simp: w' TicketReply ticket_reply_def connect_ticket_def new_socket_def map_get_def Let_def
            keep_ws split: option.split sum.split prod.split)
    next
      case (SockClosed s f r)
      show ?thesis unfolding w' SockClosed closed_eq keep_ws using assms(2) by simp
    next
      case (TimerFires t d)
      have "ti_ws (heap (timer_fires t d w) j) = ti_ws (heap w j) \<and> next_inst (timer_fires t d w) = next_inst w"
        by (auto simp: timer_fires_def reconnect_callback_def keep_ws Let_def
            same_core_heap [OF same_core_messages(3)] same_core_world [OF same_core_messages(3)]
            split: option.split prod.split term_cb.split)
      then show ?thesis using assms(2) by (simp add: w' TimerFires)
    qed (use assms(2) w' keep_ws in simp_all)
  qed
qed

section \<open>A disposed instance\<close>

definition silenced :: "string \<Rightarrow> nat \<Rightarrow> term_world \<Rightarrow> bool" where
  "silenced sid i w \<longleftrightarrow> instances w sid = None \<and> fits w i sid
     \<and> ws_state w i \<noteq> Some CONNECTING \<and> ws_state w i \<noteq> Some OPEN"

lemma silenced_dispose:
  assumes "term_inv w" and "instances w sid = Some i"
  shows "silenced sid i (disposeTerminal sid w)"
proof -
  have f: "fits w i sid" by (rule fits_cached [OF assms])
  have "pairs (disposeTerminal sid w) \<subseteq> pairs w" by (rule pairs_dispose) simp
  moreover have "next_inst (disposeTerminal sid w) = next_inst w"
    by (simp add: disposeTerminal_def Let_def close_socket_def split: option.split)
  ultimately have "fits (disposeTerminal sid w) i sid" using fits_sub [OF f] by blast
  moreover have "ws_state (disposeTerminal sid w) i \<noteq> Some CONNECTING
      \<and> ws_state (disposeTerminal sid w) i \<noteq> Some OPEN"
    using assms(2) by (auto simp: disposeTerminal_def map_get_def Let_def close_socket_def set_sock_def
        ws_state_def split: option.split)
  ultimately show ?thesis by (simp add: silenced_def dispose_frame)
qed

lemma silenced_step:
  assumes "reach term_start term_step w" and "silenced sid i w" and "term_step w e w'"
    and "\<forall>c th gl. e \<noteq> Render (Some sid) c th gl"
  shows "silenced sid i w'"
proof -
  have inv: "term_inv w" by (rule trm.reach_inv [OF assms(1)])
  have out: "instances w sid = None" and fit: "fits w i sid" using assms(2) by (simp_all add: silenced_def)
  have "instances w x = None" if "(n, i, x) \<in> set (tickets w)" for n x
    using fit pairsI(2) [OF that] out by (auto simp: fits_def)
  then have ws: "ti_ws (heap w' i) = ti_ws (heap w i)" and i: "i < next_inst w'"
    using step_ws [OF assms(3), of i] fit by (auto simp: fits_def)
  have "pairs w' \<subseteq> {(j, x). j = i \<longrightarrow> x = sid}"
    by (rule pairs_step [OF assms(3)]) (use fit in \<open>auto simp: fits_def\<close>)
  then have "fits w' i sid" using i by (auto simp: fits_def)
  moreover have "instances w' sid = None" using step_stays_out [OF assms(3,4) out] by simp
  moreover have "ws_state w' i \<noteq> Some CONNECTING \<and> ws_state w' i \<noteq> Some OPEN"
  proof (cases "ti_ws (heap w i)")
    case (Some s)
    then have "s < next_sock w" using inv fit by (auto simp: inv_but_def ws_ok_def fits_def)
    from ready_state_monotone [OF assms(1,3) this] assms(2) Some show ?thesis
      by (cases "sock_state (socks w s)") (auto simp: silenced_def ws_state_def ws less_eq_ready_state_def)
  qed (simp add: ws_state_def ws)
  ultimately show ?thesis by (simp add: silenced_def)
qed

text \<open>The socket on which a message is sent.\<close>

fun sent_on :: "term_eff \<Rightarrow> nat option" where
  "sent_on (SendBytes s b) = Some s"
| "sent_on (SendText s t) = Some s"
| "sent_on x = None"

definition socks_of :: "nat \<Rightarrow> term_world \<Rightarrow> nat set" where
  "socks_of i w = {s. s < next_sock w \<and> sock_inst (socks w s) = i}"

lemma silent_step:
  assumes "reach term_start term_step w" and "silenced sid i w" and "term_step w e w'"
  shows "logs (\<lambda>x. \<forall>s \<in> socks_of i w. sent_on x \<noteq> Some s) w w'"
proof -
  have inv: "term_inv w" by (rule trm.reach_inv [OF assms(1)])
  have "s \<notin> socks_of i w" if x: "send_ok w w' (sender w e) x" and s: "sent_on x = Some s" for x s
  proof -
    have "is_send x" using s by (cases x) simp_all
    then obtain j where j: "sender w e = Some j" "ti_ws (heap w j) = Some s" "sock_state (socks w s) = OPEN"
      using x s by (auto simp: send_ok_def to_socket_def size_sent_def)
    have "j < next_inst w" using sender_known [OF inv _ j(1)] assms(3) by (simp add: term_step_iff)
    with inv j(2) have "sock_inst (socks w s) = j" by (auto simp: inv_but_def ws_ok_def)
    moreover have "j \<noteq> i" using assms(2) j(2,3) by (auto simp: silenced_def ws_state_def)
    ultimately show ?thesis by (simp add: socks_of_def)
  qed
  with step_sends [OF assms(3)] show ?thesis unfolding logs_def by blast
qed

lemma socks_of_step:
  assumes "reach term_start term_step w" and "silenced sid i w" and "term_step w e w'"
    and "\<forall>c th gl. e \<noteq> Render (Some sid) c th gl"
  shows "socks_of i w' = socks_of i w"
proof -
  have keep: "s < next_sock w' \<and> sock_inst (socks w' s) = sock_inst (socks w s)" if "s < next_sock w" for s
    using ready_state_monotone [OF assms(1,3) that] by simp
  have sil: "silenced sid i w'" by (rule silenced_step [OF assms])
  have out: "{s. s < next_sock w' \<and> sock_sid (socks w' s) = sid} \<subseteq> {s. s < next_sock w \<and> sock_sid (socks w s) = sid}"
    using step_stays_out [OF assms(3,4)] assms(2) by (simp add: silenced_def)
  have old: "s < next_sock w" if "s \<in> socks_of i w'" for s
  proof -
    have "sock_sid (socks w' s) = sid"
      using that pairsI(5) [of s w'] sil by (auto simp: socks_of_def silenced_def fits_def)
    then show ?thesis using that out by (auto simp: socks_of_def)
  qed
  show ?thesis
  proof (intro set_eqI iffI)
    fix s assume s: "s \<in> socks_of i w'"
    from keep [OF old [OF s]] old [OF s] s show "s \<in> socks_of i w" by (simp add: socks_of_def)
  next
    fix s assume s: "s \<in> socks_of i w"
    then have "s < next_sock w" by (simp add: socks_of_def)
    from keep [OF this] s show "s \<in> socks_of i w'" by (simp add: socks_of_def)
  qed
qed

lemma silenced_run:
  assumes "run_path term_step w es w'" and "reach term_start term_step w" and "silenced sid i w"
    and "\<forall>c th gl. Render (Some sid) c th gl \<notin> set es"
  shows "silenced sid i w' \<and> socks_of i w' = socks_of i w
    \<and> logs (\<lambda>x. \<forall>s \<in> socks_of i w. sent_on x \<noteq> Some s) w w'
    \<and> {s. s < next_sock w' \<and> sock_sid (socks w' s) = sid} \<subseteq> {s. s < next_sock w \<and> sock_sid (socks w s) = sid}"
  using assms
proof (induction rule: run_path.induct)
  case (run_cons u e t es v)
  have ev: "\<forall>c th gl. e \<noteq> Render (Some sid) c th gl" using run_cons.prems(3) by auto
  note step = run_cons.prems(1,2) run_cons.hyps(1)
  have rt: "reach term_start term_step t" using step(1,3) by (rule reach_step)
  have socks: "socks_of i t = socks_of i u" by (rule socks_of_step [OF step ev])
  have IH: "silenced sid i v \<and> socks_of i v = socks_of i t
    \<and> logs (\<lambda>x. \<forall>s \<in> socks_of i t. sent_on x \<noteq> Some s) t v
    \<and> {s. s < next_sock v \<and> sock_sid (socks v s) = sid} \<subseteq> {s. s < next_sock t \<and> sock_sid (socks t s) = sid}"
    by (rule run_cons.IH [OF rt silenced_step [OF step ev]]) (use run_cons.prems(3) in auto)
  have sends: "logs (\<lambda>x. \<forall>s \<in> socks_of i u. sent_on x \<noteq> Some s) u v"
    by (rule logs_trans [OF silent_step [OF step]]) (use IH socks in simp)
  have "{s. s < next_sock t \<and> sock_sid (socks t s) = sid} \<subseteq> {s. s < next_sock u \<and> sock_sid (socks u s) = sid}"
    using step_stays_out [OF step(3) ev] step(2) by (simp add: silenced_def)
  then have "{s. s < next_sock v \<and> sock_sid (socks v s) = sid} \<subseteq> {s. s < next_sock u \<and> sock_sid (socks u s) = sid}"
    using IH by (elim conjE) (rule subset_trans)
  with sends IH socks show ?case by (elim conjE) (intro conjI; simp only:)
qed auto

text \<open>
  C17: After a session is disposed, and as long as it is not shown again, whatever ticket requests,
  timers and sockets were under way, in any run: it stays out of the cache, no socket is ever created
  for it, the disposed instance is left without a connecting or open socket, and nothing is sent on any
  socket of that instance.
\<close>
theorem disposed_stays_silent:
  assumes "reach term_start term_step w" and "instances w sid = Some i"
    and "w0 = disposeTerminal sid w" and "run_path term_step w0 es w'"
    and "\<forall>c th gl. Render (Some sid) c th gl \<notin> set es"
  shows "instances w' sid = None
    \<and> {s. s < next_sock w' \<and> sock_sid (socks w' s) = sid} \<subseteq> {s. s < next_sock w \<and> sock_sid (socks w s) = sid}
    \<and> ws_state w' i \<noteq> Some CONNECTING \<and> ws_state w' i \<noteq> Some OPEN
    \<and> (\<exists>xs. tlog w' = tlog w0 @ xs
         \<and> (\<forall>x \<in> set xs. \<forall>s. sent_on x = Some s \<longrightarrow> \<not> (s < next_sock w' \<and> sock_inst (socks w' s) = i)))"
proof -
  have "term_step w (DisposeCall sid) w0" using assms(3) tstep [of "DisposeCall sid" w] by simp
  with assms(1) have r0: "reach term_start term_step w0" by (rule reach_step)
  have s0: "silenced sid i w0"
    using silenced_dispose [OF trm.reach_inv [OF assms(1)] assms(2)] assms(3) by simp
  have socks0: "next_sock w0 = next_sock w" "\<And>s. sock_sid (socks w0 s) = sock_sid (socks w s)"
    by (simp_all add: assms(3) dispose_frame)
  from silenced_run [OF assms(4) r0 s0 assms(5)]
  have run: "silenced sid i w'" "socks_of i w' = socks_of i w0"
    "logs (\<lambda>x. \<forall>s \<in> socks_of i w0. sent_on x \<noteq> Some s) w0 w'"
    "{s. s < next_sock w' \<and> sock_sid (socks w' s) = sid} \<subseteq> {s. s < next_sock w \<and> sock_sid (socks w s) = sid}"
    by (simp_all add: socks0)
  from run(3) have "\<exists>xs. tlog w' = tlog w0 @ xs \<and> (\<forall>x \<in> set xs. \<forall>s. sent_on x = Some s \<longrightarrow> s \<notin> socks_of i w')"
    unfolding logs_def run(2) by blast
  with run(1,4) show ?thesis unfolding silenced_def socks_of_def by blast
qed

theorem disposed_stays_silent_witness:
  "ws_state (texec (SockClosed 0 False 0) (disposeTerminal ''s1'' (after_term open_events))) 0 = Some CLOSED
   \<and> instances (texec (SockClosed 0 False 0) (disposeTerminal ''s1'' (after_term open_events))) ''s1'' = None"
proof -
  let ?w = "disposeTerminal ''s1'' (after_term open_events)"
  have run: "run_term open_events term_sample \<noteq> None" by code_simp
  have i: "instances (after_term open_events) ''s1'' = Some 0" by code_simp
  have "0 < next_sock ?w" and "sock_state (socks ?w 0) \<noteq> CLOSED" by code_simp+
  then have "run_path term_step ?w [SockClosed 0 False 0] (texec (SockClosed 0 False 0) ?w)"
    by (simp add: run_path_Cons term_step_iff)
  from disposed_stays_silent [OF reach_after_term [OF run] i refl this]
  have "instances (texec (SockClosed 0 False 0) ?w) ''s1'' = None" by simp
  moreover have "ws_state (texec (SockClosed 0 False 0) ?w) 0 = Some CLOSED" by code_simp
  ultimately show ?thesis by simp
qed

end
