(* ===== verification/JsText.thy ===== *)
theory JsText
  imports Prelude "HOL-Library.Word"
begin

text \<open>
  What the code uses of the string functions of JavaScript: \<open>trim\<close>, and \<open>parseInt\<close> with radix 16. Strings
  hold units below 256, so the white space is that of Latin-1.
\<close>

unbundle bit_operations_syntax

definition js_space :: "char \<Rightarrow> bool" where
  "js_space c \<longleftrightarrow> List.member [9, 10, 11, 12, 13, 32, 160] (of_char c :: nat)"

definition trim :: "string \<Rightarrow> string" where
  "trim s = rev (dropWhile js_space (rev (dropWhile js_space s)))"

text \<open>The hexadecimal digits, upper and lower case.\<close>

definition hex_val :: "char \<Rightarrow> nat option" where
  "hex_val c =
     (let n = (of_char c :: nat) in
      if 48 \<le> n \<and> n < 58 then Some (n - 48)
      else if 97 \<le> n \<and> n < 103 then Some (n - 87)
      else if 65 \<le> n \<and> n < 71 then Some (n - 55) else None)"

text \<open>\<open>parse_hex acc s\<close> reads the longest prefix of digits of \<open>s\<close>.\<close>

fun parse_hex :: "int \<Rightarrow> string \<Rightarrow> int" where
  "parse_hex acc [] = acc"
| "parse_hex acc (c # cs) =
     (case hex_val c of None \<Rightarrow> acc | Some d \<Rightarrow> parse_hex (16 * acc + int d) cs)"

definition strip_0x :: "string \<Rightarrow> string" where
  "strip_0x s = (case s of a # b # cs \<Rightarrow> if a = CHR ''0'' \<and> (b = CHR ''x'' \<or> b = CHR ''X'') then cs else s | _ \<Rightarrow> s)"

text \<open>\<open>parseInt(s, 16)\<close>, \<open>None\<close> for \<open>NaN\<close>. Numbers of \<open>2\<^sup>5\<^sup>3\<close> and more are not rounded here.\<close>

definition parseInt16 :: "string \<Rightarrow> int option" where
  "parseInt16 s0 =
     (let s1 = dropWhile js_space s0;
          neg = (s1 \<noteq> [] \<and> hd s1 = CHR ''-'');
          s2 = (if s1 \<noteq> [] \<and> (hd s1 = CHR ''-'' \<or> hd s1 = CHR ''+'') then tl s1 else s1);
          s3 = strip_0x s2
      in if s3 = [] \<or> hex_val (hd s3) = None then None
         else Some (if neg then - parse_hex 0 s3 else parse_hex 0 s3))"

text \<open>The bit operators convert their operands to 32 bits, \<open>NaN\<close> to 0.\<close>

definition toInt32 :: "int option \<Rightarrow> 32 word" where
  "toInt32 n = (case n of None \<Rightarrow> 0 | Some k \<Rightarrow> word_of_int k)"

section \<open>Trimming\<close>

lemma dropWhile_stop: "\<not> P x \<Longrightarrow> dropWhile P (ys @ [x]) = dropWhile P ys @ [x]"
  by (induction ys) auto

lemma trim_cases:
  obtains "trim s = []" | x ys where "\<not> js_space x" and "trim s = x # rev (dropWhile js_space ys)"
proof (cases "dropWhile js_space s")
  case Nil
  then have "trim s = []" by (simp only: trim_def rev.simps dropWhile.simps)
  then show ?thesis by (rule that)
next
  case (Cons x xs)
  then have "\<not> js_space x" by (simp add: dropWhile_eq_Cons_conv)
  moreover from this have "trim s = x # rev (dropWhile js_space (rev xs))"
    by (simp add: trim_def Cons dropWhile_stop)
  ultimately show ?thesis by (rule that)
qed

lemma trim_ends:
  assumes "trim s \<noteq> []"
  shows "\<not> js_space (hd (trim s))" and "\<not> js_space (last (trim s))"
proof -
  show "\<not> js_space (hd (trim s))" using assms by (cases rule: trim_cases [of s]) auto
  show "\<not> js_space (last (trim s))" using assms by (simp add: trim_def last_rev hd_dropWhile)
qed

lemma trim_trim [simp]: "trim (trim s) = trim s"
proof (cases "trim s = []")
  case False
  have keep: "dropWhile P xs = xs" if "xs \<noteq> []" "\<not> P (hd xs)" for P and xs :: string
    using that by (cases xs) auto
  from trim_ends [OF False] False have "dropWhile js_space (trim s) = trim s"
    and "dropWhile js_space (rev (trim s)) = rev (trim s)"
    by (simp_all add: keep hd_rev)
  then show ?thesis unfolding trim_def [of "trim s"] by simp
next
  case True
  then show ?thesis by (simp only: trim_def [of "[]"] rev.simps dropWhile.simps)
qed

end
