(* ===== verification/Contrast.thy ===== *)
theory Contrast
  imports Complex_Main JsText Theme
begin

text \<open>
  The colour arithmetic of \<open>frontend/src/lib/contrast.ts\<close>, over the reals, and what it says about the
  palettes of \<open>theme.ts\<close>. The real power is bounded by rational certificates: \<open>k\<close> is below \<open>x\<close> to the
  power 12/5 exactly if \<open>k\<^sup>5\<close> is below the twelfth power of \<open>x\<close>.
\<close>

unbundle bit_operations_syntax

definition hexToRgb :: "string \<Rightarrow> nat \<times> nat \<times> nat" where
  "hexToRgb hex =
     (let h = remove1 (CHR ''#'') hex;
          v = (if length h = 3 then concat (map (\<lambda>c. [c, c]) h) else h);
          num = toInt32 (parseInt16 v)
      in (unat (signed_drop_bit 16 num AND 0xff), unat (signed_drop_bit 8 num AND 0xff), unat (num AND 0xff)))"

definition channelLuminance :: "nat \<Rightarrow> real" where
  "channelLuminance c =
     (let s = real c / 255 in
      if s \<le> 0.03928 then s / 12.92 else ((s + 0.055) / 1.055) powr 2.4)"

definition relativeLuminance :: "string \<Rightarrow> real" where
  "relativeLuminance hex =
     (case hexToRgb hex of (r, g, b) \<Rightarrow>
        0.2126 * channelLuminance r + 0.7152 * channelLuminance g + 0.0722 * channelLuminance b)"

definition contrastRatio :: "string \<Rightarrow> string \<Rightarrow> real" where
  "contrastRatio hexA hexB =
     (let la = relativeLuminance hexA; lb = relativeLuminance hexB;
          lighter = max la lb; darker = min la lb
      in (lighter + 0.05) / (darker + 0.05))"

section \<open>Six digits\<close>

text \<open>A colour of six digits is read digit pair by digit pair.\<close>

lemma byte_of:
  assumes "m + 8 \<le> 32"
  shows "unat (signed_drop_bit m (w :: 32 word) AND 0xff) = unat w div 2 ^ m mod 256"
proof -
  have "signed_drop_bit m w AND 0xff = take_bit 8 (drop_bit m w)"
  proof (rule bit_word_eqI)
    fix n assume "n < LENGTH(32)"
    have "0xff = (mask 8 :: 32 word)" by (simp add: mask_eq_exp_minus_1)
    moreover have "bit (mask 8 :: 32 word) n \<longleftrightarrow> n < 8" by (auto simp: bit_mask_iff)
    ultimately have "bit (0xff :: 32 word) n \<longleftrightarrow> n < 8" by metis
    then show "bit (signed_drop_bit m w AND 0xff) n = bit (take_bit 8 (drop_bit m w)) n"
      using assms by (auto simp: bit_and_iff bit_signed_drop_bit_iff bit_take_bit_iff bit_drop_bit_eq)
  qed
  then have "unat (signed_drop_bit m w AND 0xff) = take_bit 8 (drop_bit m (unat w))"
    using take_bit_nat_eq_self [OF unsigned_less [of w, where 'a = nat]]
    by (simp only: unsigned_take_bit_eq unsigned_drop_bit_eq len_num1 len_bit0 len_bit1)
  then show ?thesis by (simp add: take_bit_eq_mod drop_bit_eq_div)
qed

lemma hex_val_less: "hex_val c = Some n \<Longrightarrow> n < 16"
  by (auto simp: hex_val_def Let_def split: if_splits)

lemma hex_val_char:
  "hex_val c = Some n \<Longrightarrow>
     c \<noteq> CHR ''#'' \<and> c \<noteq> CHR ''-'' \<and> c \<noteq> CHR ''+'' \<and> c \<noteq> CHR ''x'' \<and> c \<noteq> CHR ''X'' \<and> \<not> js_space c"
  by (auto simp: hex_val_def Let_def js_space_def split: if_splits)

lemma unat_toInt32: "unat (toInt32 (Some (int n))) = n mod 2 ^ 32"
  by (simp add: toInt32_def unsigned_of_nat take_bit_eq_mod)

lemma parse_hex6:
  assumes "hex_val a = Some a'" "hex_val b = Some b'" "hex_val c = Some c'" "hex_val d = Some d'"
    "hex_val e = Some e'" "hex_val f = Some f'"
  shows "parseInt16 [a, b, c, d, e, f]
    = Some (int ((16 * a' + b') * 65536 + (16 * c' + d') * 256 + (16 * e' + f')))"
  using hex_val_char [OF assms(1)] hex_val_char [OF assms(2)] assms
  by (simp add: parseInt16_def strip_0x_def)

lemma three_bytes:
  assumes "r < 256" and "g < 256" and "b < 256" and "w = toInt32 (Some (int (r * 65536 + g * 256 + b)))"
  shows "unat (signed_drop_bit 16 w AND 0xff) = r" "unat (signed_drop_bit 8 w AND 0xff) = g" "unat (w AND 0xff) = b"
proof -
  let ?n = "r * 65536 + g * 256 + b"
  have w: "unat w = ?n" using assms(1-3) by (simp only: assms(4) unat_toInt32) simp
  have "?n div 256 = r * 256 + g" "?n div 65536 = r" using assms(1-3) by linarith+
  moreover have "?n = b + (r * 256 + g) * 256" by simp
  then have "?n mod 256 = b" using assms(3) by (simp only: mod_mult_self1) simp
  ultimately show "unat (signed_drop_bit 16 w AND 0xff) = r" "unat (signed_drop_bit 8 w AND 0xff) = g"
      "unat (w AND 0xff) = b"
    using byte_of [of 16 w] byte_of [of 8 w] byte_of [of 0 w] assms(1-3) by (simp_all add: w)
qed

lemma hexToRgb6:
  assumes "hex_val a = Some a'" "hex_val b = Some b'" "hex_val c = Some c'" "hex_val d = Some d'"
    "hex_val e = Some e'" "hex_val f = Some f'"
  shows "hexToRgb [CHR ''#'', a, b, c, d, e, f] = (16 * a' + b', 16 * c' + d', 16 * e' + f')"
proof -
  have "16 * a' + b' < 256" "16 * c' + d' < 256" "16 * e' + f' < 256" using assms [THEN hex_val_less] by auto
  note three_bytes [OF this refl]
  with parse_hex6 [OF assms] show ?thesis by (simp only: hexToRgb_def remove1.simps list.size Let_def) simp
qed

lemma hex_vals:
  "hex_val (CHR ''0'') = Some 0" "hex_val (CHR ''1'') = Some 1" "hex_val (CHR ''2'') = Some 2"
  "hex_val (CHR ''3'') = Some 3" "hex_val (CHR ''4'') = Some 4" "hex_val (CHR ''5'') = Some 5"
  "hex_val (CHR ''6'') = Some 6" "hex_val (CHR ''7'') = Some 7" "hex_val (CHR ''8'') = Some 8"
  "hex_val (CHR ''9'') = Some 9" "hex_val (CHR ''a'') = Some 10" "hex_val (CHR ''b'') = Some 11"
  "hex_val (CHR ''c'') = Some 12" "hex_val (CHR ''d'') = Some 13" "hex_val (CHR ''e'') = Some 14"
  "hex_val (CHR ''f'') = Some 15"
  by (simp_all add: hex_val_def)

section \<open>The range of the ratio\<close>

lemma and_ff: "unat ((x :: 32 word) AND 0xff) \<le> 255"
proof -
  have "x AND 0xff \<le> 0xff" by (rule word_and_le1)
  then show ?thesis by (simp add: word_le_nat_alt)
qed

lemma hexToRgb_bound: "hexToRgb h = (r, g, b) \<Longrightarrow> r \<le> 255 \<and> g \<le> 255 \<and> b \<le> 255"
  using and_ff by (auto simp: hexToRgb_def Let_def)

lemma channel_range:
  assumes "c \<le> 255"
  shows "0 \<le> channelLuminance c \<and> channelLuminance c \<le> 1"
proof (cases "real c / 255 \<le> 0.03928")
  case False
  define x where "x = (real c / 255 + 0.055) / 1.055"
  have "0 \<le> x" "x \<le> 1" using assms by (auto simp: x_def)
  then have "x powr 2.4 \<le> 1" using powr_le1 [of "2.4" x] by simp
  with False show ?thesis by (simp add: channelLuminance_def x_def)
qed (simp add: channelLuminance_def)

lemma luminance_range: "0 \<le> relativeLuminance h \<and> relativeLuminance h \<le> 1"
proof -
  obtain r g b where h: "hexToRgb h = (r, g, b)" by (metis prod_cases3)
  from hexToRgb_bound [OF h] channel_range [of r] channel_range [of g] channel_range [of b]
  show ?thesis by (simp add: relativeLuminance_def h)
qed

section \<open>Certificates\<close>

text \<open>The channel \<open>n\<close> has the base \<open>(40 n + 561) / 10761\<close>; \<open>k\<close> counts thousandths.\<close>

definition low_cert :: "nat \<Rightarrow> nat \<Rightarrow> bool" where
  "low_cert n k \<longleftrightarrow> 10 < n \<and> k ^ 5 * 10761 ^ 12 \<le> (40 * n + 561) ^ 12 * 1000 ^ 5"

definition high_cert :: "nat \<Rightarrow> nat \<Rightarrow> bool" where
  "high_cert n k \<longleftrightarrow> 10 < n \<and> (40 * n + 561) ^ 12 * 1000 ^ 5 \<le> k ^ 5 * 10761 ^ 12"

lemma channel_powr:
  assumes "10 < n"
  shows "channelLuminance n ^ 5 = (real (40 * n + 561) / 10761) ^ 12" and "0 \<le> channelLuminance n"
proof -
  define x where "x = real (40 * n + 561) / 10761"
  have b: "(real n / 255 + 0.055) / 1.055 = x" by (simp add: x_def field_simps)
  have c: "\<not> real n / 255 \<le> 0.03928" using assms by (simp add: field_simps)
  have x: "0 < x" by (simp add: x_def)
  have l: "channelLuminance n = x powr 2.4"
    using c b by (simp add: channelLuminance_def Let_def)
  have "(x powr 2.4) ^ 5 = x powr (2.4 * 5)" by (simp add: powr_powr flip: powr_numeral)
  also have "\<dots> = x ^ 12" using x by (simp flip: powr_numeral)
  finally show "channelLuminance n ^ 5 = (real (40 * n + 561) / 10761) ^ 12" by (simp add: l x_def)
  show "0 \<le> channelLuminance n" by (simp add: l)
qed

lemma low_cert:
  assumes "low_cert n k"
  shows "real k / 1000 \<le> channelLuminance n"
proof -
  have n: "10 < n" and c: "k ^ 5 * 10761 ^ 12 \<le> (40 * n + 561) ^ 12 * 1000 ^ 5"
    using assms by (simp_all add: low_cert_def)
  have "real k ^ 5 * 10761 ^ 12 \<le> real (40 * n + 561) ^ 12 * 1000 ^ 5"
    using c [THEN of_nat_mono [where 'a = real]] by simp
  then have "(real k / 1000) ^ 5 \<le> (real (40 * n + 561) / 10761) ^ 12"
    by (simp add: power_divide divide_le_eq pos_le_divide_eq mult.commute field_simps)
  then have "(real k / 1000) ^ 5 \<le> channelLuminance n ^ 5" by (simp only: channel_powr [OF n])
  then show ?thesis by (rule power_le_imp_le_base [of _ 4, simplified]) (rule channel_powr [OF n])
qed

lemma high_cert:
  assumes "high_cert n k"
  shows "channelLuminance n \<le> real k / 1000"
proof -
  have n: "10 < n" and c: "(40 * n + 561) ^ 12 * 1000 ^ 5 \<le> k ^ 5 * 10761 ^ 12"
    using assms by (simp_all add: high_cert_def)
  have "real (40 * n + 561) ^ 12 * 1000 ^ 5 \<le> real k ^ 5 * 10761 ^ 12"
    using c [THEN of_nat_mono [where 'a = real]] by simp
  then have "(real (40 * n + 561) / 10761) ^ 12 \<le> (real k / 1000) ^ 5"
    by (simp add: power_divide divide_le_eq pos_le_divide_eq mult.commute field_simps)
  then have "channelLuminance n ^ 5 \<le> (real k / 1000) ^ 5" by (simp only: channel_powr [OF n])
  then show ?thesis by (rule power_le_imp_le_base [of _ 4, simplified]) simp
qed

text \<open>Bounds of the channels that the palettes use.\<close>

definition low_table :: "(nat \<times> nat) list" where
  "low_table = [
    (34, 15), (57, 40), (63, 49), (65, 52), (80, 80), (86, 93), (88, 97), (100, 127), (114, 168),
    (121, 191), (123, 198), (125, 205), (133, 234), (139, 258), (140, 262), (144, 278), (148, 296),
    (152, 313), (153, 318), (157, 337), (158, 341), (161, 356), (166, 381), (167, 386), (168, 391),
    (179, 450), (182, 467), (185, 485), (188, 502), (192, 527), (201, 584), (209, 637), (210, 644),
    (211, 651), (212, 658), (217, 693), (221, 723), (227, 768), (240, 871), (246, 921), (248, 938),
    (250, 955), (252, 973), (255, 1000)]"

definition high_table :: "(nat \<times> nat) list" where
  "high_table = [
    (13, 5), (14, 5), (17, 6), (22, 9), (23, 9), (27, 11), (31, 14), (32, 15), (34, 16), (35, 17),
    (36, 18), (38, 20), (40, 22), (41, 23), (42, 24), (46, 28), (47, 29), (48, 30), (57, 41),
    (60, 46), (61, 47), (68, 58), (77, 75), (78, 77), (79, 79), (80, 81), (81, 83), (87, 96),
    (89, 100), (93, 110), (96, 117), (99, 125), (102, 133), (103, 136), (105, 142), (106, 145),
    (110, 156), (114, 169), (120, 188), (125, 206), (145, 284), (164, 372), (174, 424), (186, 492),
    (207, 624), (218, 702)]"

lemma low_table_ok: "list_all (\<lambda>(n, k). low_cert n k) low_table"
  by (simp add: low_table_def low_cert_def)

lemma high_table_ok: "list_all (\<lambda>(n, k). high_cert n k) high_table"
  by (simp add: high_table_def high_cert_def)

definition chan_low :: "nat \<Rightarrow> nat" where
  "chan_low n = (case map_of low_table n of Some k \<Rightarrow> k | None \<Rightarrow> 0)"

definition chan_high :: "nat \<Rightarrow> nat" where
  "chan_high n = (if n \<le> 10 then 4 else case map_of high_table n of Some k \<Rightarrow> k | None \<Rightarrow> 1000)"

lemma chan_low:
  assumes "n \<le> 255"
  shows "real (chan_low n) / 1000 \<le> channelLuminance n"
proof (cases "map_of low_table n")
  case (Some k)
  then have "low_cert n k" using low_table_ok by (auto simp: list_all_iff dest: map_of_SomeD)
  with Some show ?thesis by (simp add: chan_low_def low_cert del: divide_le_eq_numeral1)
qed (simp add: chan_low_def channel_range [OF assms])

lemma chan_high:
  assumes "n \<le> 255"
  shows "channelLuminance n \<le> real (chan_high n) / 1000"
proof (cases "n \<le> 10")
  case True
  then have "real n / 255 \<le> 0.03928" by simp
  with True show ?thesis by (simp add: chan_high_def channelLuminance_def)
next
  case False
  show ?thesis
  proof (cases "map_of high_table n")
    case (Some k)
    then have "high_cert n k" using high_table_ok by (auto simp: list_all_iff dest: map_of_SomeD)
    with Some False show ?thesis by (simp add: chan_high_def high_cert del: le_divide_eq_numeral1)
  qed (simp add: chan_high_def False channel_range [OF assms])
qed

definition low_lum :: "string \<Rightarrow> nat" where
  "low_lum h = (case hexToRgb h of (r, g, b) \<Rightarrow> 2126 * chan_low r + 7152 * chan_low g + 722 * chan_low b)"

definition high_lum :: "string \<Rightarrow> nat" where
  "high_lum h = (case hexToRgb h of (r, g, b) \<Rightarrow> 2126 * chan_high r + 7152 * chan_high g + 722 * chan_high b)"

lemma lum_bounds:
  "real (low_lum h) / 10000000 \<le> relativeLuminance h" "relativeLuminance h \<le> real (high_lum h) / 10000000"
proof -
  obtain r g b where h: "hexToRgb h = (r, g, b)" by (metis prod_cases3)
  note n = hexToRgb_bound [OF h]
  show "real (low_lum h) / 10000000 \<le> relativeLuminance h"
    using chan_low [of r] chan_low [of g] chan_low [of b] n
    by (simp add: low_lum_def relativeLuminance_def h)
  show "relativeLuminance h \<le> real (high_lum h) / 10000000"
    using chan_high [of r] chan_high [of g] chan_high [of b] n
    by (simp add: high_lum_def relativeLuminance_def h)
qed

text \<open>\<open>clearly m a b\<close>: \<open>a\<close> is lighter than \<open>b\<close> by a ratio of at least \<open>m\<close> tenths.\<close>

definition clearly :: "nat \<Rightarrow> string \<Rightarrow> string \<Rightarrow> bool" where
  "clearly m a b \<longleftrightarrow> m * (high_lum b + 500000) \<le> 10 * (low_lum a + 500000)"

lemma contrast_commute: "contrastRatio a b = contrastRatio b a"
  by (simp add: contrastRatio_def Let_def max.commute min.commute)

lemma contrast_ge: "(relativeLuminance a + 0.05) / (relativeLuminance b + 0.05) \<le> contrastRatio a b"
  using luminance_range [of a] luminance_range [of b]
  by (auto simp: contrastRatio_def Let_def max_def min_def intro!: divide_mono frac_le)

lemma clearly_ratio:
  assumes "clearly m a b"
  shows "real m / 10 \<le> contrastRatio a b" and "real m / 10 \<le> contrastRatio b a"
proof -
  have "real (m * (high_lum b + 500000)) \<le> real (10 * (low_lum a + 500000))"
    using assms unfolding clearly_def by (rule of_nat_mono)
  then have s: "real m * (real (high_lum b) / 10000000 + 0.05) \<le> 10 * (real (low_lum a) / 10000000 + 0.05)"
    by (simp add: algebra_simps)
  have "real m * (relativeLuminance b + 0.05) \<le> real m * (real (high_lum b) / 10000000 + 0.05)"
    using lum_bounds [of b] by (intro mult_left_mono) auto
  also note s
  also have "10 * (real (low_lum a) / 10000000 + 0.05) \<le> 10 * (relativeLuminance a + 0.05)"
    using lum_bounds [of a] by simp
  finally have "real m * (relativeLuminance b + 0.05) \<le> 10 * (relativeLuminance a + 0.05)" .
  then have "real m / 10 \<le> (relativeLuminance a + 0.05) / (relativeLuminance b + 0.05)"
    using luminance_range [of b] by (simp add: field_simps)
  then show "real m / 10 \<le> contrastRatio a b" using contrast_ge [of a b] by linarith
  then show "real m / 10 \<le> contrastRatio b a" by (simp add: contrast_commute)
qed

section \<open>The palettes\<close>

definition ansi_colours :: "term_theme \<Rightarrow> string list" where
  "ansi_colours t =
     [tt_foreground t, tt_cursor t, tt_black t, tt_red t, tt_green t, tt_yellow t, tt_blue t, tt_magenta t,
      tt_cyan t, tt_white t, tt_brightBlack t, tt_brightRed t, tt_brightGreen t, tt_brightYellow t,
      tt_brightBlue t, tt_brightMagenta t, tt_brightCyan t, tt_brightWhite t]"

text \<open>The pairs of a text colour and the background it is shown on in the components.\<close>

definition ui_pairs :: "ui_colors \<Rightarrow> (string \<times> string) list" where
  "ui_pairs u =
     [(ui_textPrimary u, ui_appBg u), (ui_textSecondary u, ui_appBg u), (ui_textSecondary u, ui_tabBarBg u),
      (ui_textPrimary u, ui_sidebarBg u), (ui_textSecondary u, ui_sidebarBg u),
      (ui_textPrimary u, ui_tabActiveBg u), (ui_textSecondary u, ui_tabActiveBg u),
      (ui_warning u, ui_tabActiveBg u), (ui_danger u, ui_tabActiveBg u), (ui_accent u, ui_tabActiveBg u)]"

text \<open>The equations that evaluate a comparison.\<close>

lemmas colour_eval = clearly_def low_lum_def high_lum_def chan_low_def chan_high_def low_table_def high_table_def hexToRgb6 hex_vals

lemma dark_clear:
  "list_all (\<lambda>c. clearly 45 c (tt_background darkTerminalTheme)) (ansi_colours darkTerminalTheme)"
  "clearly 45 (tt_selectionForeground darkTerminalTheme) (tt_selectionBackground darkTerminalTheme)"
  "list_all (\<lambda>(f, b). clearly 45 f b) (ui_pairs darkUI)"
  by (simp_all add: colour_eval ansi_colours_def ui_pairs_def darkTerminalTheme_def darkUI_def)

lemma light_clear:
  "list_all (\<lambda>c. clearly 45 (tt_background lightTerminalTheme) c) (ansi_colours lightTerminalTheme)"
  "clearly 45 (tt_selectionBackground lightTerminalTheme) (tt_selectionForeground lightTerminalTheme)"
  "list_all (\<lambda>(f, b). clearly 45 b f) (ui_pairs lightUI)"
  by (simp_all add: colour_eval ansi_colours_def ui_pairs_def lightTerminalTheme_def lightUI_def)

section \<open>Properties\<close>

text \<open>
  C26: Both terminal palettes are readable, as the comments of \<open>theme.ts\<close> promise: the foreground, the
  cursor and all sixteen ANSI colours have a contrast of at least 4.5 to the background, and so has
  selected text to the selection.
\<close>
theorem terminal_palette_readable:
  "list_all (\<lambda>c. 4.5 \<le> contrastRatio c (tt_background (terminalThemeFor th))) (ansi_colours (terminalThemeFor th))
   \<and> 4.5 \<le> contrastRatio (tt_selectionForeground (terminalThemeFor th))
             (tt_selectionBackground (terminalThemeFor th))"
  using dark_clear light_clear clearly_ratio [of 45]
  by (cases th) (auto simp: terminalThemeFor_def list_all_iff)

text \<open>
  The texts of the user interface are readable in both palettes: every pair of a text colour and a
  background that the components combine has a contrast of at least 4.5.
\<close>
lemma ui_palette_readable:
  "list_all (\<lambda>(f, b). 4.5 \<le> contrastRatio f b) (ui_pairs (uiFor th))"
  using dark_clear light_clear clearly_ratio [of 45]
  by (cases th) (auto simp: uiFor_def list_all_iff split_def)

text \<open>
  The contrast ratio lies between 1 and 21, whatever the strings, does not depend on the order of the
  colours, and is 1 for two strings of the same luminance.
\<close>
lemma contrast_ratio_range:
  "1 \<le> contrastRatio a b \<and> contrastRatio a b \<le> 21 \<and> contrastRatio a b = contrastRatio b a
   \<and> (contrastRatio a b = 1 \<longleftrightarrow> relativeLuminance a = relativeLuminance b)"
proof -
  let ?a = "relativeLuminance a" and ?b = "relativeLuminance b"
  define x y where "x = max ?a ?b" and "y = min ?a ?b"
  have "0 \<le> y" "x \<le> 1" "y \<le> x"
    using luminance_range [of a] luminance_range [of b] by (auto simp: x_def y_def)
  moreover have "contrastRatio a b = (x + 0.05) / (y + 0.05)" by (simp add: contrastRatio_def Let_def x_def y_def)
  ultimately have "1 \<le> contrastRatio a b" "contrastRatio a b \<le> 21" "contrastRatio a b = 1 \<longleftrightarrow> x = y"
    by (simp_all add: le_divide_eq divide_le_eq divide_eq_eq)
  then show ?thesis unfolding x_def y_def by (auto simp: contrast_commute max_def min_def split: if_splits)
qed

end
