(* ===== verification/SidebarDrag.thy ===== *)
theory SidebarDrag
  imports Prelude
begin

text \<open>
  Resizing the sidebar with the mouse (\<open>handleMouseMove\<close> and \<open>onMouseDown\<close> of \<open>frontend/src/App.tsx\<close>):
  mouse moves are collected into one animation frame, whose callback sets the width from the position
  last seen. Listeners are a set in the browser: the move listener is one function for the component's
  life, so adding it twice registers it once, and each mouse-down adds its own mouse-up listener.
\<close>

record drag_state =
  dragging :: bool
  rafId :: "nat option"
  latestX :: rat
  sidebarWidth :: rat
  moveBound :: bool
  upListeners :: nat
  frames :: "nat list"
  next_frame :: nat

definition drag_init :: drag_state where
  "drag_init = \<lparr>dragging = False, rafId = None, latestX = 0, sidebarWidth = 220, moveBound = False,
     upListeners = 0, frames = [], next_frame = 1\<rparr>"

definition handleMouseMove :: "rat \<Rightarrow> drag_state \<Rightarrow> drag_state" where
  "handleMouseMove x s0 =
     (if \<not> dragging s0 then s0
      else
        let s = s0\<lparr>latestX := x\<rparr> in
        if rafId s = None
        then s\<lparr>frames := frames s @ [next_frame s], rafId := Some (next_frame s), next_frame := Suc (next_frame s)\<rparr>
        else s)"

definition frame_callback :: "drag_state \<Rightarrow> drag_state" where
  "frame_callback s = s\<lparr>sidebarWidth := max 140 (min 400 (latestX s)), rafId := None\<rparr>"

definition onMouseDown :: "drag_state \<Rightarrow> drag_state" where
  "onMouseDown s = s\<lparr>dragging := True, moveBound := True, upListeners := Suc (upListeners s)\<rparr>"

text \<open>One mouse-up listener; the browser runs all of them, and each removes itself.\<close>

definition onMouseUp :: "drag_state \<Rightarrow> drag_state" where
  "onMouseUp s0 =
     (let s = s0\<lparr>dragging := False\<rparr>;
          s1 = (case rafId s of
                  None \<Rightarrow> s
                | Some n \<Rightarrow> s\<lparr>frames := filter (\<lambda>k. k \<noteq> n) (frames s), rafId := None\<rparr>)
      in s1\<lparr>moveBound := False, upListeners := upListeners s1 - 1\<rparr>)"

datatype drag_event = DragDown | DragMove rat | DragUp | DragFrame nat

fun drag_enabled :: "drag_event \<Rightarrow> drag_state \<Rightarrow> bool" where
  "drag_enabled (DragFrame n) s = (n \<in> set (frames s))"
| "drag_enabled _ s = True"

fun drag_exec :: "drag_event \<Rightarrow> drag_state \<Rightarrow> drag_state" where
  "drag_exec DragDown s = onMouseDown s"
| "drag_exec (DragMove x) s = (if moveBound s then handleMouseMove x s else s)"
| "drag_exec DragUp s = (onMouseUp ^^ upListeners s) s"
| "drag_exec (DragFrame n) s = frame_callback (s\<lparr>frames := filter (\<lambda>k. k \<noteq> n) (frames s)\<rparr>)"

definition drag_start :: "drag_state \<Rightarrow> bool" where
  "drag_start s \<longleftrightarrow> s = drag_init"

definition drag_step :: "drag_state \<Rightarrow> drag_event \<Rightarrow> drag_state \<Rightarrow> bool" where
  "drag_step s e s' \<longleftrightarrow> drag_enabled e s \<and> s' = drag_exec e s"

section \<open>The invariant\<close>

text \<open>The width is within its bounds, and a frame is requested only while the button is down, one at a time.\<close>

definition drag_inv :: "drag_state \<Rightarrow> bool" where
  "drag_inv s \<longleftrightarrow> 140 \<le> sidebarWidth s \<and> sidebarWidth s \<le> 400
     \<and> frames s = (case rafId s of None \<Rightarrow> [] | Some n \<Rightarrow> [n])
     \<and> (dragging s \<longleftrightarrow> 0 < upListeners s) \<and> (moveBound s \<longleftrightarrow> dragging s) \<and> (rafId s \<noteq> None \<longrightarrow> dragging s)"

lemma onMouseUp_pow:
  "(onMouseUp ^^ Suc n) s = s\<lparr>dragging := False, moveBound := False, upListeners := upListeners s - Suc n,
     frames := (case rafId s of None \<Rightarrow> frames s | Some k \<Rightarrow> filter (\<lambda>j. j \<noteq> k) (frames s)), rafId := None\<rparr>"
proof (induction n)
  case 0
  show ?case by (cases s) (simp add: onMouseUp_def Let_def split: option.split)
next
  case (Suc n)
  have "(onMouseUp ^^ Suc (Suc n)) s = onMouseUp ((onMouseUp ^^ Suc n) s)" by simp
  also have "\<dots> = s\<lparr>dragging := False, moveBound := False, upListeners := upListeners s - Suc (Suc n),
     frames := (case rafId s of None \<Rightarrow> frames s | Some k \<Rightarrow> filter (\<lambda>j. j \<noteq> k) (frames s)), rafId := None\<rparr>"
    unfolding Suc.IH by (cases s) (simp add: onMouseUp_def Let_def)
  finally show ?case .
qed

lemma drag_inv_step: "drag_inv s \<Longrightarrow> drag_step s e t \<Longrightarrow> drag_inv t"
proof (cases e)
  case DragUp
  assume "drag_inv s" "drag_step s e t"
  then show "drag_inv t"
    using DragUp onMouseUp_pow [of "upListeners s - 1" s]
    by (cases "upListeners s") (auto simp: drag_inv_def drag_step_def split: option.splits)
qed (auto simp: drag_inv_def drag_step_def onMouseDown_def handleMouseMove_def frame_callback_def Let_def
      split: option.splits if_splits)

lemma drag_inv_start: "drag_start s \<Longrightarrow> drag_inv s"
  by (simp add: drag_start_def drag_init_def drag_inv_def)

interpretation drg: invariant_machine drag_start drag_step drag_inv
  by unfold_locales (rule drag_inv_start drag_inv_step; assumption)+

lemma drag_step_move: "drag_step s (DragMove x) u \<longleftrightarrow> u = drag_exec (DragMove x) s"
  by (simp add: drag_step_def)

text \<open>Moves between two frames: only the last position counts.\<close>

lemma moves_pending:
  assumes "drag_inv s" and "dragging s" and "xs \<noteq> []"
    and "run_path drag_step s (map DragMove xs) t"
  shows "latestX t = last xs \<and> drag_inv t \<and> dragging t \<and> rafId t \<noteq> None \<and> sidebarWidth t = sidebarWidth s"
  using assms(4,1,2,3)
proof (induction xs arbitrary: s)
  case (Cons x xs)
  obtain u where u: "u = drag_exec (DragMove x) s" and r: "run_path drag_step u (map DragMove xs) t"
    using Cons.prems(1) by (auto simp: run_path_Cons drag_step_move)
  have i: "drag_inv u" using drag_inv_step [OF Cons.prems(2), of "DragMove x" u] u by (simp only: drag_step_move)
  have d: "dragging u" "latestX u = x" "rafId u \<noteq> None" "sidebarWidth u = sidebarWidth s"
    using Cons.prems u by (auto simp: drag_inv_def handleMouseMove_def Let_def)
  show ?case
  proof (cases xs)
    case Nil
    with r i d show ?thesis by simp
  next
    case (Cons y ys)
    with Cons.IH [OF r i d(1)] d(4) show ?thesis by simp
  qed
qed simp

section \<open>Properties\<close>

text \<open>
  C30: Whatever the mouse does, the width of the sidebar stays between 140 and 400, at most one animation
  frame is requested at any moment, and none is once the button is released.
\<close>
theorem sidebar_width_bounds:
  assumes "reach drag_start drag_step s"
  shows "140 \<le> sidebarWidth s \<and> sidebarWidth s \<le> 400 \<and> length (frames s) \<le> 1
    \<and> (dragging s \<or> frames s = [] \<and> \<not> moveBound s \<and> upListeners s = 0)"
  using drg.reach_inv [OF assms] by (auto simp: drag_inv_def split: option.splits)

theorem sidebar_width_bounds_witness:
  "sidebarWidth (fold drag_exec [DragDown, DragMove 1000, DragMove 900, DragFrame 1] drag_init) \<le> 400"
proof -
  let ?es = "[DragDown, DragMove 1000, DragMove 900, DragFrame 1]"
  have "run_path drag_step drag_init ?es (fold drag_exec ?es drag_init)"
    by (simp add: run_path_Cons drag_step_def drag_init_def onMouseDown_def handleMouseMove_def
        frame_callback_def Let_def)
  then have "reach drag_start drag_step (fold drag_exec ?es drag_init)"
    by (rule run_path_reach) (rule reach_start, simp add: drag_start_def)
  from sidebar_width_bounds [OF this] show ?thesis by simp
qed

text \<open>
  While the button is down, the next frame gives the sidebar the width of the last position since the
  frame before, cut to the bounds, however many moves there were; but releasing the button first discards
  the frame, and the width stays what it was.
\<close>
lemma drag_follows_pointer:
  assumes "reach drag_start drag_step s" and "dragging s" and "xs \<noteq> []"
    and "run_path drag_step s (map DragMove xs) t"
  shows "\<exists>n. frames t = [n] \<and> sidebarWidth (drag_exec (DragFrame n) t) = max 140 (min 400 (last xs))
    \<and> sidebarWidth (drag_exec DragUp t) = sidebarWidth s \<and> frames (drag_exec DragUp t) = []"
proof -
  have inv: "drag_inv s" using drg.reach_inv [OF assms(1)] .
  from moves_pending [OF this assms(2-4)]
  have t: "latestX t = last xs" "drag_inv t" "dragging t" "sidebarWidth t = sidebarWidth s"
    and "rafId t \<noteq> None" by auto
  then obtain n where n: "rafId t = Some n" "frames t = [n]" by (auto simp: drag_inv_def)
  have "upListeners t = Suc (upListeners t - 1)" using t(2,3) by (simp add: drag_inv_def)
  then have up: "drag_exec DragUp t = (onMouseUp ^^ Suc (upListeners t - 1)) t" by simp
  show ?thesis unfolding up onMouseUp_pow using t n by (simp add: frame_callback_def)
qed

end
