(* ===== verification/AppShell.thy ===== *)
theory AppShell
  imports AppOps Theme SidebarDrag
begin

text \<open>
  The root component (\<open>frontend/src/App.tsx\<close>) and the login form (\<open>components/Auth/LoginForm.tsx\<close>): the
  authentication state with its requests, the permission banner with its flag in \<open>localStorage\<close>, the
  mobile sidebar, the start of the store, and which screen is shown. A request that the component has
  sent and awaits is in \<open>requests\<close>; the reply may be a failed \<open>fetch\<close>, and a body that is not JSON.
\<close>

section \<open>State\<close>

datatype auth_state = AuthLoading | NeedsSetup | NeedsLogin | Authenticated

datatype shell_await = AwCheckAuth | AwProbe | AwHealth | AwLogin

record login_form =
  password :: string
  form_error :: json
  loading :: bool

record shell =
  authState :: auth_state
  permWarning :: "json option"
  permChecking :: bool
  permDismissed :: bool
  shellStorage :: storage
  isMobile :: bool
  mobileSidebarOpen :: bool
  form :: login_form
  drag :: drag_state
  requests :: "(nat \<times> shell_await \<times> http_request) list"
  next_request :: nat
  app :: app_sys

definition store_ready :: "shell \<Rightarrow> bool" where
  "store_ready s = initialized (store (world (app s)))"

definition ask :: "shell_await \<Rightarrow> http_request \<Rightarrow> shell \<Rightarrow> shell" where
  "ask aw q s = s\<lparr>requests := requests s @ [(next_request s, aw, q)], next_request := Suc (next_request s)\<rparr>"

definition get_request :: "string \<Rightarrow> http_request" where
  "get_request url = \<lparr>req_url = url, req_method = ''GET'', req_json_header = False, req_body = NoBody\<rparr>"

section \<open>Permissions\<close>

definition PERM_DISMISS_KEY :: string where
  "PERM_DISMISS_KEY = ''lociterm.permissionBannerDismissed''"

definition load_dismissed :: "storage \<Rightarrow> bool" where
  "load_dismissed st = (case getItem PERM_DISMISS_KEY st of Inl _ \<Rightarrow> False | Inr v \<Rightarrow> v = Some ''1'')"

definition removeItem :: "string \<Rightarrow> storage \<Rightarrow> unit + storage" where
  "removeItem k st = (case st of Storage can_write ob \<Rightarrow> Inr (Storage can_write (obj_del k ob)) | _ \<Rightarrow> Inl ())"

text \<open>\<open>checkPermissions\<close> up to its \<open>await\<close>, and what it does with the outcome.\<close>

definition checkPermissions :: "shell \<Rightarrow> shell" where
  "checkPermissions s = ask AwHealth (get_request ''/api/v1/health'') (s\<lparr>permChecking := True\<rparr>)"

definition health_data :: "json \<Rightarrow> shell \<Rightarrow> shell" where
  "health_data data s =
     (case json_field data ''permissions'' of
        Inl _ \<Rightarrow> s
      | Inr p \<Rightarrow>
          (case json_field data ''permissionMessage'' of
             Inl _ \<Rightarrow> s
           | Inr m \<Rightarrow>
               if p = Some (JBool False) \<and> opt_truthy m then s\<lparr>permWarning := m\<rparr>
               else
                 let st = (case removeItem PERM_DISMISS_KEY (shellStorage s) of
                             Inl _ \<Rightarrow> shellStorage s | Inr st' \<Rightarrow> st')
                 in s\<lparr>permWarning := None, shellStorage := st, permDismissed := False\<rparr>))"

definition health_reply :: "fetch_result \<Rightarrow> shell \<Rightarrow> shell" where
  "health_reply r s =
     (case request_result r of Inl _ \<Rightarrow> s | Inr data \<Rightarrow> health_data data s)\<lparr>permChecking := False\<rparr>"

definition dismissPermBanner :: "shell \<Rightarrow> shell" where
  "dismissPermBanner s =
     (let st = (case setItem PERM_DISMISS_KEY ''1'' (shellStorage s) of
                  Inl _ \<Rightarrow> shellStorage s | Inr st' \<Rightarrow> st')
      in s\<lparr>shellStorage := st, permDismissed := True\<rparr>)"

definition showPermBanner :: "shell \<Rightarrow> bool" where
  "showPermBanner s \<longleftrightarrow> opt_truthy (permWarning s) \<and> \<not> permDismissed s"

section \<open>Authentication\<close>

text \<open>The effect that starts the store: it runs when \<open>authState\<close> or \<open>initialized\<close> has changed.\<close>

definition start_effect :: "shell \<Rightarrow> shell" where
  "start_effect s =
     (if authState s = Authenticated \<and> \<not> store_ready s
      then checkPermissions (s\<lparr>app := perform Init (app s)\<rparr>) else s)"

definition setAuthState :: "auth_state \<Rightarrow> shell \<Rightarrow> shell" where
  "setAuthState a s = (if a = authState s then s else start_effect (s\<lparr>authState := a\<rparr>))"

definition checkAuth :: "shell \<Rightarrow> shell" where
  "checkAuth s = ask AwCheckAuth (get_request ''/api/v1/auth/check'') s"

definition check_reply :: "fetch_result \<Rightarrow> shell \<Rightarrow> shell" where
  "check_reply r s =
     (case request_result r of
        Inl _ \<Rightarrow> s
      | Inr data \<Rightarrow>
          (case json_field data ''needsSetup'' of
             Inl _ \<Rightarrow> s
           | Inr v \<Rightarrow>
               if opt_truthy v then setAuthState NeedsSetup s
               else ask AwProbe (get_request ''/api/v1/workspaces'') s))"

definition probe_reply :: "fetch_result \<Rightarrow> shell \<Rightarrow> shell" where
  "probe_reply r s =
     (case r of
        Inl _ \<Rightarrow> s
      | Inr res \<Rightarrow> setAuthState (if res_status res = 401 then NeedsLogin else Authenticated) s)"

definition login_request :: "bool \<Rightarrow> string \<Rightarrow> http_request" where
  "login_request needsSetup pw =
     \<lparr>req_url = (if needsSetup then ''/api/v1/auth/setup'' else ''/api/v1/auth/login''),
      req_method = ''POST'', req_json_header = True, req_body = JsonBody (JObj [(''password'', JStr pw)])\<rparr>"

definition handleSubmit :: "shell \<Rightarrow> shell" where
  "handleSubmit s =
     (let f = form s in
      if password f = [] then s
      else ask AwLogin (login_request (authState s = NeedsSetup) (password f))
             (s\<lparr>form := f\<lparr>loading := True, form_error := JStr []\<rparr>\<rparr>))"

definition on_form :: "(login_form \<Rightarrow> login_form) \<Rightarrow> shell \<Rightarrow> shell" where
  "on_form g s = s\<lparr>form := g (form s)\<rparr>"

definition login_reply :: "fetch_result \<Rightarrow> shell \<Rightarrow> shell" where
  "login_reply r s =
     (case r of
        Inl _ \<Rightarrow> s
      | Inr res \<Rightarrow>
          if res_ok res then on_form (\<lambda>f. f\<lparr>loading := False\<rparr>) (setAuthState Authenticated s)
          else (case res_json res of
                  Inl _ \<Rightarrow> s
                | Inr data \<Rightarrow>
                    (case json_field data ''error'' of
                       Inl _ \<Rightarrow> s
                     | Inr v \<Rightarrow>
                         on_form (\<lambda>f. f\<lparr>form_error := (if opt_truthy v then the v
                             else JStr ''Authentication failed''), loading := False\<rparr>) s)))"

section \<open>Screens\<close>

datatype screen = StartingScreen | LoginScreen bool | LoadingScreen | MainScreen

definition screen_of :: "shell \<Rightarrow> screen" where
  "screen_of s =
     (if authState s = AuthLoading then StartingScreen
      else if authState s = NeedsSetup \<or> authState s = NeedsLogin then LoginScreen (authState s = NeedsSetup)
      else if \<not> store_ready s then LoadingScreen
      else MainScreen)"

definition sidebarPanelWidth :: "rat \<Rightarrow> shell \<Rightarrow> rat" where
  "sidebarPanelWidth innerWidth s =
     (if isMobile s then min 280 (innerWidth - 56) else sidebarWidth (drag s))"

definition setMobile :: "bool \<Rightarrow> shell \<Rightarrow> shell" where
  "setMobile b s = s\<lparr>isMobile := b, mobileSidebarOpen := (if b then mobileSidebarOpen s else False)\<rparr>"

definition onMenuClick :: "shell \<Rightarrow> shell" where
  "onMenuClick s = s\<lparr>mobileSidebarOpen := True\<rparr>"

definition mount_shell :: "storage \<Rightarrow> bool \<Rightarrow> app_sys \<Rightarrow> shell" where
  "mount_shell st mobile y =
     checkAuth \<lparr>authState = AuthLoading, permWarning = None, permChecking = False,
       permDismissed = load_dismissed st, shellStorage = st, isMobile = mobile, mobileSidebarOpen = False,
       form = \<lparr>password = [], form_error = JStr [], loading = False\<rparr>, drag = drag_init, requests = [],
       next_request = 0, app = y\<rparr>"

section \<open>Events\<close>

datatype shell_event =
    ShellReply nat fetch_result
  | TypePassword string
  | Submit
  | Recheck
  | DismissBanner
  | MenuClick
  | CloseSidebar
  | MobileChange bool
  | Dragged drag_event
  | AppEvent app_event

fun user_action :: "app_event \<Rightarrow> bool" where
  "user_action (Act a) = True"
| "user_action (Select _) = True"
| "user_action (ClearUnread _) = True"
| "user_action (Dismiss _) = True"
| "user_action PollTick = True"
| "user_action (Output _) = True"
| "user_action _ = False"

text \<open>
  What can happen on which screen: the form is on the login screen, and its button is disabled while a
  login is under way or the field is empty; the components that act on the store, the poll and the
  terminals are on the main screen; the store is started by the effect only.
\<close>

fun shell_enabled :: "shell_event \<Rightarrow> shell \<Rightarrow> bool" where
  "shell_enabled (ShellReply n r) s = (map_of (requests s) n \<noteq> None)"
| "shell_enabled (TypePassword p) s = (screen_of s = LoginScreen (authState s = NeedsSetup))"
| "shell_enabled Submit s =
     (screen_of s = LoginScreen (authState s = NeedsSetup) \<and> \<not> loading (form s) \<and> password (form s) \<noteq> [])"
| "shell_enabled Recheck s = (screen_of s = MainScreen \<and> showPermBanner s \<and> \<not> permChecking s)"
| "shell_enabled DismissBanner s = (screen_of s = MainScreen \<and> showPermBanner s)"
| "shell_enabled MenuClick s =
     (screen_of s = MainScreen \<and> isMobile s \<and> truthy (activeWorkspaceId (store (world (app s)))))"
| "shell_enabled CloseSidebar s = (screen_of s = MainScreen \<and> isMobile s \<and> mobileSidebarOpen s)"
| "shell_enabled (MobileChange b) s = True"
| "shell_enabled (Dragged d) s = (drag_enabled d (drag s) \<and> (d = DragDown \<longrightarrow> screen_of s = MainScreen \<and> \<not> isMobile s))"
| "shell_enabled (AppEvent e) s =
     (enabled e (app s) \<and> e \<noteq> Act Init \<and> (user_action e \<longrightarrow> screen_of s = MainScreen))"

definition shell_reply :: "nat \<Rightarrow> fetch_result \<Rightarrow> shell \<Rightarrow> shell" where
  "shell_reply n r s0 =
     (case map_of (requests s0) n of
        None \<Rightarrow> s0
      | Some (aw, _) \<Rightarrow>
          let s = s0\<lparr>requests := filter (\<lambda>q. fst q \<noteq> n) (requests s0)\<rparr> in
          (case aw of
             AwCheckAuth \<Rightarrow> check_reply r s
           | AwProbe \<Rightarrow> probe_reply r s
           | AwHealth \<Rightarrow> health_reply r s
           | AwLogin \<Rightarrow> login_reply r s))"

definition app_happens :: "app_event \<Rightarrow> shell \<Rightarrow> shell" where
  "app_happens e s =
     (let s' = s\<lparr>app := exec_event e (app s)\<rparr> in if store_ready s' = store_ready s then s' else start_effect s')"

fun shell_exec :: "shell_event \<Rightarrow> shell \<Rightarrow> shell" where
  "shell_exec (ShellReply n r) s = shell_reply n r s"
| "shell_exec (TypePassword p) s = on_form (\<lambda>f. f\<lparr>password := p\<rparr>) s"
| "shell_exec Submit s = handleSubmit s"
| "shell_exec Recheck s = checkPermissions s"
| "shell_exec DismissBanner s = dismissPermBanner s"
| "shell_exec MenuClick s = onMenuClick s"
| "shell_exec CloseSidebar s = s\<lparr>mobileSidebarOpen := False\<rparr>"
| "shell_exec (MobileChange b) s = setMobile b s"
| "shell_exec (Dragged d) s = s\<lparr>drag := drag_exec d (drag s)\<rparr>"
| "shell_exec (AppEvent e) s = app_happens e s"

inductive shell_step :: "shell \<Rightarrow> shell_event \<Rightarrow> shell \<Rightarrow> bool" where
  shell_step: "shell_enabled e s \<Longrightarrow> shell_step s e (shell_exec e s)"

inductive_simps shell_step_iff: "shell_step s e s'"

definition shell_start :: "shell \<Rightarrow> bool" where
  "shell_start s \<longleftrightarrow> (\<exists>st mobile y. app_start y \<and> s = mount_shell st mobile y)"

end
