(* ===== verification/ShellInv.thy ===== *)
theory ShellInv
  imports AppShell
begin

text \<open>
  The invariant of the root component: one request at most is under way, of the kind its state waits for;
  the store is untouched until authentication, and started once; the stored flag of the banner is the
  flag in memory. Then the properties of starting up, failing, and of the permission banner.
\<close>

section \<open>The store while it starts\<close>

fun init_await :: "await \<Rightarrow> bool" where
  "init_await AwInitList = True"
| "init_await AwInitCreate = True"
| "init_await (AwInitLists _) = True"
| "init_await (AwInitSession _ _ _ _) = True"
| "init_await _ = False"

abbreviation ready :: "app_world \<Rightarrow> bool" where
  "ready w \<equiv> initialized (store w)"

text \<open>Nothing but the end of \<open>init\<close> writes \<open>initialized\<close>, and it only sets it.\<close>

named_theorems ready_simps

lemma ready_cancel [simp, ready_simps]: "store (cancelIdleTracking sid w) = store w"
  by (simp add: cancelIdleTracking_def)

lemma store_cancel_fold [simp]: "store (fold cancelIdleTracking ids w) = store w"
  by (induction ids arbitrary: w) simp_all

lemma ready_ops [ready_simps]:
  "ready (setActiveSession sid w) = ready w"
  "ready (clearSessionUnread sid w) = ready w"
  "ready (dismissToast tid w) = ready w"
  "ready (markSessionOutput sid w) = ready w"
  "ready (set_workspaces wss w) = ready w"
  "ready (createWorkspace_set ws x w) = ready w"
  "ready (deleteWorkspace_set wid w) = ready w"
  "ready (renameWorkspace_set wid ws w) = ready w"
  "ready (setActiveWorkspace_set wid l w) = ready w"
  "ready (set_sessions wid l w) = ready w"
  "ready (pollActive_set wid l w) = ready w"
  "ready (createSession_set wid x w) = ready w"
  "ready (deleteSession_set sid w) = ready w"
  "ready (renameSession_set sid x w) = ready w"
  by (simp_all add: setActiveSession_def clearSessionUnread_def dismissToast_def markSessionOutput_def
      set_workspaces_def createWorkspace_set_def deleteWorkspace_set_def renameWorkspace_set_def
      setActiveWorkspace_set_def set_sessions_def pollActive_set_def createSession_set_def
      deleteSession_set_def renameSession_set_def Let_def split_def)

lemma ready_follow [ready_simps]: "ready (fold run_follow fs w) = ready w"
proof (induction fs arbitrary: w)
  case (Cons f fs)
  then show ?case by (cases f) (simp_all add: ready_simps)
qed simp

lemma ready_fire [ready_simps]: "ready (fire_idle i w) = ready w"
  by (simp add: fire_idle_def idle_callback_def idle_mark_def Let_def split_def split: option.split prod.split)

lemma ready_visibility [ready_simps]: "ready (onVisibility v w) = ready w"
  by (simp add: onVisibility_def Let_def ready_simps)

lemma ready_switch [ready_simps]: "ready (world (switch_workspace wid fs y)) = ready (world y)"
  by (simp add: switch_workspace_def issue_def ready_simps split: option.split)

lemma ready_perform [ready_simps]: "ready (world (perform a y)) = ready (world y)"
  by (cases a) (simp_all add: issue_def toastClick_def pollActive_def on_world_def Let_def ready_simps)

lemma ready_resume: "ready w \<Longrightarrow> ready (fst (resume aw rs w))"
  by (cases aw) (simp_all add: with_workspaces_def with_workspace_def with_sessions_def with_session_def
      init_lists_def init_set_def ready_simps split_def Let_def split: list.split reply.split)

lemma ready_deliver: "ready (world y) \<Longrightarrow> ready (world (deliver n rs y))"
  using ready_resume [of "world y" _ rs]
  by (auto simp: deliver_def Let_def issue_def ready_simps split_def split: option.split)

lemma ready_exec: "ready (world y) \<Longrightarrow> ready (world (exec_event e y))"
  by (cases e) (simp_all add: ready_deliver ready_simps on_world_def drop_call_def pollTick_def pollActive_def
      issue_def Let_def)

text \<open>The start of the store: nothing but the calls of \<open>init\<close>, one after the other.\<close>

definition init_goes :: "app_world \<times> (await \<times> api_call list) option \<Rightarrow> bool" where
  "init_goes p \<longleftrightarrow> (case snd p of None \<Rightarrow> True | Some (aw, _) \<Rightarrow> init_await aw \<and> \<not> ready (fst p))"

lemma init_resume: "init_await aw \<Longrightarrow> \<not> ready w \<Longrightarrow> init_goes (resume aw rs w)"
  by (cases aw) (auto simp: init_goes_def with_workspaces_def with_workspace_def with_session_def
      init_lists_def Let_def split_def split: list.split reply.split option.split)

definition starting :: "app_sys \<Rightarrow> bool" where
  "starting y \<longleftrightarrow> \<not> ready (world y)
     \<and> (calls y = [] \<or> (\<exists>n aw cs. calls y = [(n, aw, cs, [])] \<and> init_await aw))"

lemma starting_deliver:
  assumes "starting y" and "find_call n y \<noteq> None"
  shows "ready (world (deliver n rs y)) \<or> starting (deliver n rs y)"
proof -
  obtain aw cs where c: "calls y = [(n, aw, cs, [])]" "init_await aw"
    using assms by (auto simp: starting_def find_call_def split: if_splits)
  obtain w k where r: "resume aw rs (world y) = (w, k)" by fastforce
  with init_resume [OF c(2), of "world y" rs] assms(1) have "init_goes (w, k)" by (simp add: starting_def)
  with r c show ?thesis
    by (cases k) (auto simp: deliver_def find_call_def drop_call_def issue_def starting_def init_goes_def)
qed

lemma starting_exec:
  assumes "starting y" and "enabled e y" and "\<not> user_action e"
  shows "ready (world (exec_event e y)) \<or> starting (exec_event e y)"
    and "calls y = [] \<Longrightarrow> calls (exec_event e y) = [] \<and> \<not> ready (world (exec_event e y))"
proof -
  show "ready (world (exec_event e y)) \<or> starting (exec_event e y)"
  proof (cases e)
    case (Reply n rs)
    with assms(2) have "find_call n y \<noteq> None" by (auto split: option.splits)
    from starting_deliver [OF assms(1) this] show ?thesis by (simp add: Reply)
  next
    case (Reject n)
    with assms show ?thesis by (auto simp: starting_def drop_call_def find_call_def split: if_splits)
  qed (use assms in \<open>auto simp: starting_def on_world_def ready_simps\<close>)
  show "calls (exec_event e y) = [] \<and> \<not> ready (world (exec_event e y))" if "calls y = []"
    using assms that
    by (cases e) (auto simp: starting_def on_world_def drop_call_def find_call_def ready_simps)
qed

section \<open>The invariant\<close>

definition waits_ok :: "shell \<Rightarrow> bool" where
  "waits_ok s \<longleftrightarrow>
     (case requests s of
        [] \<Rightarrow> \<not> permChecking s
      | [(n, aw, q)] \<Rightarrow>
          (case aw of
             AwCheckAuth \<Rightarrow> authState s = AuthLoading \<and> \<not> permChecking s
           | AwProbe \<Rightarrow> authState s = AuthLoading \<and> \<not> permChecking s
           | AwLogin \<Rightarrow> (authState s = NeedsSetup \<or> authState s = NeedsLogin) \<and> loading (form s) \<and> \<not> permChecking s
           | AwHealth \<Rightarrow> authState s = Authenticated \<and> permChecking s)
      | _ \<Rightarrow> False)"

definition store_ok :: "shell \<Rightarrow> bool" where
  "store_ok s \<longleftrightarrow>
     (if authState s = Authenticated then store_ready s \<or> starting (app s)
      else starting (app s) \<and> calls (app s) = [])"

definition flag_ok :: "shell \<Rightarrow> bool" where
  "flag_ok s \<longleftrightarrow> (\<forall>ob. shellStorage s = Storage True ob \<longrightarrow> load_dismissed (shellStorage s) = permDismissed s)"

definition shell_inv :: "shell \<Rightarrow> bool" where
  "shell_inv s \<longleftrightarrow> waits_ok s \<and> store_ok s \<and> flag_ok s"

lemmas shell_defs = waits_ok_def store_ok_def flag_ok_def store_ready_def

lemma waits_cong:
  "requests t = requests s \<Longrightarrow> authState t = authState s \<Longrightarrow> permChecking t = permChecking s
   \<Longrightarrow> loading (form t) = loading (form s) \<Longrightarrow> waits_ok t = waits_ok s"
  by (simp add: waits_ok_def split: list.split shell_await.split)

lemma store_cong: "app t = app s \<Longrightarrow> authState t = authState s \<Longrightarrow> store_ok t = store_ok s"
  by (simp add: store_ok_def store_ready_def)

lemma flag_cong: "shellStorage t = shellStorage s \<Longrightarrow> permDismissed t = permDismissed s \<Longrightarrow> flag_ok t = flag_ok s"
  by (simp add: flag_ok_def)

lemma waits_none: "requests s = [] \<Longrightarrow> waits_ok s \<longleftrightarrow> \<not> permChecking s"
  by (simp add: waits_ok_def)

lemma auth_cases: "authState s = Authenticated \<or> authState s = AuthLoading \<or> authState s = NeedsSetup \<or> authState s = NeedsLogin"
  by (cases "authState s") simp_all

lemma start_effect_cases:
  assumes "authState s = Authenticated" and "requests s = []" and "starting (app s)" and "calls (app s) = []"
  shows "start_effect s = ask AwHealth (get_request ''/api/v1/health'')
    (s\<lparr>app := perform Init (app s), permChecking := True\<rparr>)"
  using assms by (simp add: start_effect_def checkPermissions_def starting_def store_ready_def)

lemma init_starting: "starting y \<Longrightarrow> calls y = [] \<Longrightarrow> starting (perform Init y)"
  by (simp add: starting_def issue_def)

lemma set_auth:
  assumes "a \<noteq> authState s" and "store_ok s" and "flag_ok s" and "requests s = []"
    and "authState s \<noteq> Authenticated" and "\<not> permChecking s" and "a \<noteq> AuthLoading"
  shows "shell_inv (setAuthState a s)"
proof (cases "a = Authenticated")
  case True
  have st: "starting (app s)" "calls (app s) = []" using assms(2,5) by (simp_all add: store_ok_def)
  then have "setAuthState a s = ask AwHealth (get_request ''/api/v1/health'')
    (s\<lparr>authState := Authenticated, app := perform Init (app s), permChecking := True\<rparr>)"
    using True assms by (simp add: setAuthState_def start_effect_cases)
  then show ?thesis
    using assms init_starting [OF st] by (simp add: shell_inv_def shell_defs ask_def)
next
  case False
  then have "setAuthState a s = s\<lparr>authState := a\<rparr>"
    using assms by (simp add: setAuthState_def start_effect_def)
  then show ?thesis using False assms by (simp add: shell_inv_def shell_defs)
qed

lemma flag_health: "flag_ok s \<Longrightarrow> flag_ok (health_data data s)"
  by (cases "shellStorage s") (auto simp: flag_ok_def health_data_def load_dismissed_def removeItem_def getItem_def
      Let_def split: sum.splits)

lemma health_keeps [simp]:
  "authState (health_data d s) = authState s" "requests (health_data d s) = requests s"
  "form (health_data d s) = form s" "app (health_data d s) = app s" "permChecking (health_data d s) = permChecking s"
  by (simp_all add: health_data_def Let_def split: sum.split)

lemma inv_health:
  assumes "authState s = Authenticated" and "store_ok s" and "flag_ok s" and "requests s = []"
  shows "shell_inv (health_reply r s)"
proof -
  have f: "flag_ok (t\<lparr>permChecking := b\<rparr>) = flag_ok t" for t b by (simp add: flag_ok_def)
  from assms flag_health [OF assms(3)] show ?thesis
    by (auto simp: health_reply_def shell_inv_def waits_ok_def store_ok_def store_ready_def f split: sum.splits)
qed

lemma inv_login:
  assumes "authState s = NeedsSetup \<or> authState s = NeedsLogin" and "store_ok s" and "flag_ok s"
    and "requests s = []" and "\<not> permChecking s"
  shows "shell_inv (login_reply r s)"
proof -
  have s: "shell_inv s" using assms by (simp add: shell_inv_def waits_ok_def)
  define t where "t = setAuthState Authenticated s"
  have t: "shell_inv t" "authState t = Authenticated"
    using assms set_auth [of Authenticated s]
    by (auto simp: t_def setAuthState_def start_effect_def checkPermissions_def ask_def)
  have "shell_inv (on_form g t)" for g
  proof -
    have "waits_ok (on_form g t) = waits_ok t"
      using t(2) by (simp add: waits_ok_def on_form_def split: list.split shell_await.split)
    then show ?thesis
      using t(1) store_cong [of "on_form g t" t] flag_cong [of "on_form g t" t]
      by (simp add: shell_inv_def on_form_def)
  qed
  moreover have "shell_inv (on_form g s)" for g
    using assms(2-5) store_cong [of "on_form g s" s] flag_cong [of "on_form g s" s]
    by (simp add: shell_inv_def on_form_def waits_none)
  ultimately show ?thesis using s by (auto simp: login_reply_def t_def split: sum.splits)
qed

lemma inv_check:
  assumes "authState s = AuthLoading" and "store_ok s" and "flag_ok s" and "requests s = []" and "\<not> permChecking s"
  shows "shell_inv (check_reply r s)" and "shell_inv (probe_reply r s)"
proof -
  have s: "shell_inv s" using assms by (simp add: shell_inv_def waits_ok_def)
  have a: "shell_inv (ask AwProbe q s)" for q
    using assms by (simp add: shell_inv_def shell_defs ask_def)
  show "shell_inv (check_reply r s)"
    using s a set_auth [of NeedsSetup s] assms by (auto simp: check_reply_def split: sum.splits)
  show "shell_inv (probe_reply r s)"
    using s set_auth [of _ s] assms by (auto simp: probe_reply_def split: sum.splits)
qed

lemma waits_cases:
  assumes "waits_ok s" and "map_of (requests s) n = Some (aw, q)"
  shows "requests s = [(n, aw, q)]"
  using assms by (auto simp: waits_ok_def split: list.splits if_splits)

lemma inv_reply:
  assumes "shell_inv s" and "map_of (requests s) n \<noteq> None"
  shows "shell_inv (shell_reply n r s)"
proof -
  obtain aw q where m: "map_of (requests s) n = Some (aw, q)" using assms(2) by auto
  have w: "waits_ok s" "store_ok s" "flag_ok s" using assms(1) by (simp_all add: shell_inv_def)
  let ?s = "s\<lparr>requests := []\<rparr>"
  have r: "requests s = [(n, aw, q)]" using waits_cases [OF w(1) m] .
  have s: "store_ok ?s" "flag_ok ?s" using w store_cong [of ?s s] flag_cong [of ?s s] by simp_all
  have e: "shell_reply n r s = (case aw of AwCheckAuth \<Rightarrow> check_reply r ?s | AwProbe \<Rightarrow> probe_reply r ?s
      | AwHealth \<Rightarrow> health_reply r ?s | AwLogin \<Rightarrow> login_reply r ?s)"
    using r by (simp add: shell_reply_def Let_def)
  show ?thesis
    unfolding e using w(1) r s
    by (cases aw) (auto simp: waits_ok_def intro: inv_check inv_health inv_login)
qed

lemma flag_dismiss: "flag_ok (dismissPermBanner s)"
  by (cases "shellStorage s") (auto simp: flag_ok_def dismissPermBanner_def load_dismissed_def setItem_def getItem_def Let_def)

lemma app_happens_inv:
  assumes "shell_inv s" and "shell_enabled (AppEvent e) s"
  shows "shell_inv (app_happens e s)" and "authState (app_happens e s) = authState s"
proof -
  let ?y = "exec_event e (app s)"
  have w: "waits_ok s" "store_ok s" "flag_ok s" using assms(1) by (simp_all add: shell_inv_def)
  have u: "user_action e \<Longrightarrow> authState s = Authenticated \<and> store_ready s"
    using assms(2) auth_cases [of s] by (auto simp: screen_of_def split: if_splits)
  have y: "authState s \<noteq> Authenticated \<Longrightarrow> calls ?y = [] \<and> starting ?y"
    using starting_exec [of "app s" e] w(2) u assms(2) by (auto simp: store_ok_def starting_def)
  have y': "authState s = Authenticated \<Longrightarrow> ready (world ?y) \<or> starting ?y"
  proof (cases "store_ready s")
    case True
    then show ?thesis using ready_exec [of "app s" e] by (simp add: store_ready_def)
  next
    case False
    assume "authState s = Authenticated"
    with False w(2) have "starting (app s)" by (simp add: store_ok_def)
    with starting_exec(1) [of "app s" e] False u assms(2) show ?thesis by auto
  qed
  have eff: "app_happens e s = s\<lparr>app := ?y\<rparr>"
    using ready_exec [of "app s" e] y
    by (auto simp: app_happens_def Let_def start_effect_def store_ready_def starting_def)
  then show "authState (app_happens e s) = authState s" by simp
  show "shell_inv (app_happens e s)"
    unfolding eff using w y y' waits_cong [of "s\<lparr>app := ?y\<rparr>" s] flag_cong [of "s\<lparr>app := ?y\<rparr>" s]
    by (auto simp: shell_inv_def store_ok_def store_ready_def)
qed

lemma shell_inv_step: "shell_inv s \<Longrightarrow> shell_step s e t \<Longrightarrow> shell_inv t"
proof -
  assume i: "shell_inv s" and st: "shell_step s e t"
  have en: "shell_enabled e s" and t: "t = shell_exec e s" using st by (auto simp: shell_step_iff)
  have w: "waits_ok s" "store_ok s" "flag_ok s" using i by (simp_all add: shell_inv_def)
  have none: "requests s = []" if "\<not> permChecking s" "authState s = Authenticated \<or> \<not> loading (form s) \<and> authState s \<noteq> AuthLoading"
    using w(1) that by (auto simp: waits_ok_def split: list.splits shell_await.splits)
  show "shell_inv t"
  proof (cases e)
    case (ShellReply n r)
    with i en t inv_reply [of s n r] show ?thesis by simp
  next
    case (TypePassword p)
    with t w show ?thesis using waits_cong [of t s] store_cong [of t s] flag_cong [of t s]
      by (simp add: shell_inv_def on_form_def)
  next
    case Submit
    with en have "authState s = NeedsSetup \<or> authState s = NeedsLogin" "\<not> loading (form s)"
      by (auto simp: screen_of_def split: if_splits)
    moreover from this w(1) have "\<not> permChecking s"
      by (auto simp: waits_ok_def split: list.splits shell_await.splits)
    ultimately show ?thesis
      using none w t Submit by (auto simp: handleSubmit_def Let_def shell_inv_def shell_defs ask_def)
  next
    case Recheck
    with en auth_cases [of s] have "authState s = Authenticated" "\<not> permChecking s"
      by (auto simp: screen_of_def split: if_splits)
    with none w t Recheck show ?thesis
      by (auto simp: checkPermissions_def shell_inv_def shell_defs ask_def)
  next
    case DismissBanner
    with t w flag_dismiss [of s] show ?thesis using waits_cong [of t s] store_cong [of t s]
      by (simp add: shell_inv_def dismissPermBanner_def Let_def)
  next
    case (AppEvent a)
    with app_happens_inv(1) [OF i, of a] en t show ?thesis by simp
  qed (use t w waits_cong [of t s] store_cong [of t s] flag_cong [of t s] in
      \<open>simp_all add: shell_inv_def onMenuClick_def setMobile_def\<close>)
qed

lemma shell_inv_start: "shell_start s \<Longrightarrow> shell_inv s"
  by (auto simp: shell_start_def mount_shell_def checkAuth_def ask_def shell_inv_def shell_defs starting_def
      app_start_def initial_state_def)

interpretation shl: invariant_machine shell_start shell_step shell_inv
  by unfold_locales (rule shell_inv_start shell_inv_step; assumption)+

section \<open>Starting up\<close>



text \<open>What a reply does to the authentication state.\<close>

lemma set_auth_simps [simp]:
  "authState (setAuthState a s) = a" "authState (on_form g s) = authState s" "authState (ask aw q s) = authState s"
  "authState (health_reply r s) = authState s" "store_ready (on_form g s) = store_ready s"
  by (simp_all add: setAuthState_def start_effect_def checkPermissions_def ask_def on_form_def health_reply_def
      store_ready_def split: sum.split)

lemma store_ready_keeps [simp]:
  "store_ready (setAuthState a s) = store_ready s" "store_ready (ask aw q s) = store_ready s"
  "store_ready (health_reply r s) = store_ready s"
  by (simp_all add: setAuthState_def start_effect_def checkPermissions_def ask_def store_ready_def issue_def
      health_reply_def split: sum.split)

lemma reply_auth:
  assumes "waits_ok s" and "map_of (requests s) n \<noteq> None"
  shows "store_ready (shell_reply n r s) = store_ready s"
    and "authState s = Authenticated \<Longrightarrow> authState (shell_reply n r s) = Authenticated"
    and "authState s \<noteq> AuthLoading \<Longrightarrow> authState (shell_reply n r s) = authState s
      \<or> authState (shell_reply n r s) = Authenticated"
    and "authState s \<noteq> Authenticated \<Longrightarrow> authState (shell_reply n r s) = Authenticated \<Longrightarrow>
      (\<exists>res. r = Inr res \<and> (res_ok res \<or> authState s = AuthLoading \<and> res_status res \<noteq> 401))
      \<and> app (shell_reply n r s) = perform Init (app s) \<or> store_ready s"
    and "r = Inl x \<Longrightarrow> authState s \<noteq> Authenticated \<Longrightarrow> shell_reply n r s = s\<lparr>requests := []\<rparr>"
proof -
  obtain aw q where "map_of (requests s) n = Some (aw, q)" using assms(2) by auto
  note r = waits_cases [OF assms(1) this]
  let ?s = "s\<lparr>requests := []\<rparr>"
  have sr: "store_ready ?s = store_ready s" by (simp add: store_ready_def)
  have e: "shell_reply n r s = (case aw of AwCheckAuth \<Rightarrow> check_reply r ?s | AwProbe \<Rightarrow> probe_reply r ?s
      | AwHealth \<Rightarrow> health_reply r ?s | AwLogin \<Rightarrow> login_reply r ?s)"
    using r by (simp add: shell_reply_def Let_def)
  note w = assms(1) [unfolded waits_ok_def r, simplified]
  show "store_ready (shell_reply n r s) = store_ready s"
    by (cases aw) (auto simp: e sr check_reply_def probe_reply_def login_reply_def split: sum.split)
  show "authState s = Authenticated \<Longrightarrow> authState (shell_reply n r s) = Authenticated"
    using w by (cases aw) (auto simp: e)
  show "authState s \<noteq> AuthLoading \<Longrightarrow> authState (shell_reply n r s) = authState s
      \<or> authState (shell_reply n r s) = Authenticated"
    using w by (cases aw) (auto simp: e login_reply_def split: sum.split)
  show "authState s \<noteq> Authenticated \<Longrightarrow> authState (shell_reply n r s) = Authenticated \<Longrightarrow>
      (\<exists>res. r = Inr res \<and> (res_ok res \<or> authState s = AuthLoading \<and> res_status res \<noteq> 401))
      \<and> app (shell_reply n r s) = perform Init (app s) \<or> store_ready s"
    using w by (cases aw) (auto simp: e sr check_reply_def probe_reply_def login_reply_def setAuthState_def
        start_effect_def checkPermissions_def ask_def on_form_def store_ready_def split: sum.splits if_splits)
  show "r = Inl x \<Longrightarrow> authState s \<noteq> Authenticated \<Longrightarrow> shell_reply n r s = s\<lparr>requests := []\<rparr>"
    unfolding e using w by (cases aw) (auto simp: check_reply_def probe_reply_def login_reply_def request_result_def)
qed








section \<open>Failing to start\<close>

text \<open>A state in which nothing is under way that could ever change the screen.\<close>

definition stuck :: "shell \<Rightarrow> bool" where
  "stuck s \<longleftrightarrow> shell_inv s \<and> \<not> store_ready s \<and> calls (app s) = []
     \<and> (authState s \<noteq> Authenticated \<longrightarrow> requests s = [] \<and> (authState s \<noteq> AuthLoading \<longrightarrow> loading (form s)))"

lemma health_only:
  assumes "waits_ok s" and "authState s = Authenticated" and "map_of (requests s) n \<noteq> None"
  shows "shell_reply n r s = health_reply r (s\<lparr>requests := []\<rparr>)"
proof -
  obtain aw q where "map_of (requests s) n = Some (aw, q)" using assms(3) by auto
  note r = waits_cases [OF assms(1) this]
  with assms(1,2) show ?thesis
    by (cases aw) (auto simp: shell_reply_def waits_ok_def Let_def)
qed

lemma app_health [simp]: "app (health_reply r s) = app s" "form (health_reply r s) = form s"
  by (simp_all add: health_reply_def split: sum.split)

lemma stuck_step:
  assumes "stuck s" and "shell_step s e t"
  shows "stuck t \<and> screen_of t = screen_of s"
proof -
  have inv: "shell_inv s" and nr: "\<not> store_ready s" and nc: "calls (app s) = []"
    and pre: "authState s \<noteq> Authenticated \<Longrightarrow> requests s = [] \<and> (authState s \<noteq> AuthLoading \<longrightarrow> loading (form s))"
    using assms(1) by (auto simp: stuck_def)
  have en: "shell_enabled e s" and t: "t = shell_exec e s" using assms(2) by (auto simp: shell_step_iff)
  have it: "shell_inv t" using shl.inv_step [OF inv assms(2)] .
  have sc: "screen_of u = screen_of s" if "authState u = authState s" "store_ready u = store_ready s" for u
    using that by (simp add: screen_of_def)
  have nm: "screen_of s \<noteq> MainScreen" using nr by (simp add: screen_of_def)
  have "authState t = authState s \<and> \<not> store_ready t \<and> calls (app t) = []
    \<and> (authState s \<noteq> Authenticated \<longrightarrow> requests t = [] \<and> (authState s \<noteq> AuthLoading \<longrightarrow> loading (form t)))"
  proof (cases e)
    case (ShellReply n r)
    with en have m: "map_of (requests s) n \<noteq> None" by simp
    with pre have a: "authState s = Authenticated" by (cases "authState s = Authenticated") auto
    have "waits_ok s" using inv by (simp add: shell_inv_def)
    from health_only [OF this a m, of r] t ShellReply a nr nc show ?thesis
      by (simp add: store_ready_def)
  next
    case (AppEvent a)
    with en nm have "enabled a (app s)" "\<not> user_action a" by auto
    moreover have "starting (app s)" using inv nr by (auto simp: shell_inv_def store_ok_def split: if_splits)
    ultimately have ca: "calls (exec_event a (app s)) = []" "\<not> ready (world (exec_event a (app s)))"
      using starting_exec(2) nc by blast+
    then have "t = s\<lparr>app := exec_event a (app s)\<rparr>"
      using t AppEvent nr by (simp add: app_happens_def store_ready_def Let_def)
    with ca pre show ?thesis by (simp add: store_ready_def)
  next
    case Submit
    with en pre have False by (auto simp: screen_of_def split: if_splits)
    then show ?thesis ..
  qed (use t en nm nr nc pre in \<open>simp_all add: on_form_def dismissPermBanner_def onMenuClick_def setMobile_def
      store_ready_def Let_def\<close>)
  with it sc [of t] nr show ?thesis by (auto simp: stuck_def)
qed

lemma stuck_run: "run_path shell_step s es t \<Longrightarrow> stuck s \<Longrightarrow> stuck t \<and> screen_of t = screen_of s"
  by (induction rule: run_path.induct) (auto dest: stuck_step)

text \<open>
  C28: Starting up is tried once. If a request of the authentication fails (the check, the probe or a
  login; a failed \<open>fetch\<close>), the page stays on its screen for ever, and the login form stays disabled; and
  if a call that loads the store fails, the page stays on its loading screen.
\<close>
theorem failed_start_is_final:
  assumes "reach shell_start shell_step s" and "shell_step s e t" and "run_path shell_step t es u"
    and "(\<exists>n x. e = ShellReply n (Inl x)) \<and> authState s \<noteq> Authenticated
      \<or> (\<exists>n. e = AppEvent (Reject n)) \<and> screen_of s = LoadingScreen"
  shows "screen_of u = screen_of s \<and> \<not> shell_enabled Submit u"
proof -
  have inv: "shell_inv s" using shl.reach_inv [OF assms(1)] .
  then have it: "shell_inv t" using shl.inv_step assms(2) by blast
  have w: "waits_ok s" and so: "store_ok s" using inv by (simp_all add: shell_inv_def)
  have en: "shell_enabled e s" and t: "t = shell_exec e s" using assms(2) by (auto simp: shell_step_iff)
  have "stuck t \<and> screen_of t = screen_of s"
    using assms(4)
  proof (elim disjE conjE exE)
    fix n x assume e: "e = ShellReply n (Inl x)" and a: "authState s \<noteq> Authenticated"
    with en have m: "map_of (requests s) n \<noteq> None" by simp
    then obtain aw q where "map_of (requests s) n = Some (aw, q)" by auto
    note r = waits_cases [OF w this]
    have "t = s\<lparr>requests := []\<rparr>" using reply_auth(5) [OF w m refl a] t e by simp
    moreover have "authState s \<noteq> AuthLoading \<Longrightarrow> loading (form s)"
      using w a r by (auto simp: waits_ok_def split: shell_await.splits)
    moreover have "starting (app s)" "calls (app s) = []" using so a by (simp_all add: store_ok_def)
    ultimately show ?thesis
      using it a by (simp add: stuck_def starting_def store_ready_def screen_of_def)
  next
    fix n assume e: "e = AppEvent (Reject n)" and sc: "screen_of s = LoadingScreen"
    then have a: "authState s = Authenticated" "\<not> store_ready s"
      using auth_cases [of s] by (auto simp: screen_of_def split: if_splits)
    with so have st: "starting (app s)" by (simp add: store_ok_def)
    have "find_call n (app s) \<noteq> None" using en e by simp
    with st have "calls (drop_call n (app s)) = []"
      by (auto simp: starting_def drop_call_def find_call_def split: if_splits)
    moreover have "t = s\<lparr>app := drop_call n (app s)\<rparr>"
      using t e a(2) by (simp add: app_happens_def Let_def store_ready_def drop_call_def)
    ultimately show ?thesis using it a
      by (simp add: stuck_def store_ready_def drop_call_def screen_of_def)
  qed
  with stuck_run [OF assms(3)] have u: "stuck u" "screen_of u = screen_of s" by auto
  moreover have "\<not> shell_enabled Submit u"
    using u(1) auth_cases [of u] by (auto simp: stuck_def screen_of_def split: if_splits)
  ultimately show ?thesis by blast
qed

theorem failed_start_is_final_witness:
  "screen_of (shell_exec (ShellReply 0 (Inl ''x'')) (mount_shell NoStorage False sample_start)) = StartingScreen"
proof -
  let ?s = "mount_shell NoStorage False sample_start"
  have "shell_start ?s" using app_start_sample by (auto simp: shell_start_def)
  then have r: "reach shell_start shell_step ?s" by (rule reach_start)
  have "shell_step ?s (ShellReply 0 (Inl ''x'')) (shell_exec (ShellReply 0 (Inl ''x'')) ?s)"
    by (simp add: shell_step_iff mount_shell_def checkAuth_def ask_def)
  from failed_start_is_final [OF r this run_nil] show ?thesis
    by (simp add: screen_of_def mount_shell_def checkAuth_def ask_def)
qed

section \<open>The permission banner\<close>

text \<open>
  C29: The button of the banner never has two checks under way, and in a browser whose storage works the
  stored flag and the flag in memory agree at every moment, so that a reload shows the banner exactly if
  it was not dismissed.
\<close>
theorem banner_flag_stored:
  assumes "reach shell_start shell_step s"
  shows "(\<forall>ob mobile y. shellStorage s = Storage True ob \<longrightarrow>
      permDismissed (mount_shell (shellStorage s) mobile y) = permDismissed s)
    \<and> length (requests s) \<le> 1
    \<and> (permChecking s \<longleftrightarrow> (\<exists>n q. requests s = [(n, AwHealth, q)]))"
  using shl.reach_inv [OF assms]
  by (auto simp: shell_inv_def waits_ok_def flag_ok_def mount_shell_def checkAuth_def ask_def
      split: list.splits shell_await.splits)

theorem banner_flag_stored_witness:
  "permDismissed (mount_shell (Storage True [(PERM_DISMISS_KEY, ''1'')]) False sample_start)"
proof -
  let ?s = "mount_shell (Storage True [(PERM_DISMISS_KEY, ''1'')]) False sample_start"
  have "shell_start ?s" using app_start_sample by (auto simp: shell_start_def)
  then have r: "reach shell_start shell_step ?s" by (rule reach_start)
  from banner_flag_stored [OF this] have "permDismissed (mount_shell (shellStorage ?s) False sample_start) = permDismissed ?s"
    by (simp add: mount_shell_def checkAuth_def ask_def)
  then show ?thesis
    by (simp add: mount_shell_def checkAuth_def ask_def load_dismissed_def getItem_def obj_get_def)
qed

text \<open>
  What a permission check does to the banner. A reported problem is shown unless the banner was
  dismissed; a healthy answer takes the banner away, and forgets the dismissal, also in the storage; a
  failed request, a body that is not JSON and a \<open>null\<close> change nothing. In each case the button is enabled again.
\<close>
lemma permission_check_effect:
  "\<not> permChecking (health_reply r s)
   \<and> (case request_result r of
        Inl _ \<Rightarrow> health_reply r s = s\<lparr>permChecking := False\<rparr>
      | Inr JNull \<Rightarrow> health_reply r s = s\<lparr>permChecking := False\<rparr>
      | Inr data \<Rightarrow>
          (if json_field data ''permissions'' = Inr (Some (JBool False))
              \<and> (\<exists>m. json_field data ''permissionMessage'' = Inr m \<and> opt_truthy m)
           then showPermBanner (health_reply r s) = (\<not> permDismissed s)
              \<and> shellStorage (health_reply r s) = shellStorage s
           else \<not> showPermBanner (health_reply r s) \<and> \<not> permDismissed (health_reply r s)
              \<and> \<not> load_dismissed (shellStorage (health_reply r s))))"
proof (cases "request_result r")
  case (Inl x)
  then show ?thesis by (simp add: health_reply_def)
next
  case (Inr data)
  have del: "\<not> load_dismissed (case removeItem PERM_DISMISS_KEY st of Inl _ \<Rightarrow> st | Inr st' \<Rightarrow> st')" for st
    by (cases st) (simp_all add: removeItem_def load_dismissed_def getItem_def)
  have f: "\<exists>p. json_field data k = Inr p" if "data \<noteq> JNull" for k using that by (cases data) simp_all
  show ?thesis
  proof (cases "data = JNull")
    case True
    with Inr show ?thesis by (simp add: health_reply_def health_data_def)
  next
    case False
    then obtain p m where "json_field data ''permissions'' = Inr p" "json_field data ''permissionMessage'' = Inr m"
      using f by blast
    then show ?thesis
      using Inr False del [of "shellStorage s"]
      by (cases data) (auto simp: health_reply_def health_data_def showPermBanner_def Let_def opt_truthy_def)
  qed
qed

end
