(* ===== verification/View.thy ===== *)
theory View
  imports Utf8
begin

text \<open>
  Rendered elements: what a component's JSX evaluates to. An element has a tag, attributes, inline styles,
  event handlers and children; a component used in the JSX of another one is an element with its name as
  the tag and its props. A handler maps the data of the browser's event to the actions it takes and says
  whether it stops the propagation. \<open>dispatch\<close> is the bubbling of an event from its target to the root.
\<close>

text \<open>Values of attributes and styles: a string, a string given by its code units, a number, a flag.\<close>

datatype attr = S string | U ustring | N rat | B bool

text \<open>
  What the handlers read of an event: the value of the target, as characters and as code units, the key with
  the state of Shift, the position, and of a drag the types, the files and the element the pointer goes to
  (with whether the handler's element contains it).
\<close>

record event_data =
  ev_value :: string
  ev_units :: ustring
  ev_key :: string
  ev_shift :: bool
  ev_x :: int
  ev_y :: int
  ev_types :: "string list"
  ev_files :: "string list"
  ev_related :: "bool option"

type_synonym 'e handler = "event_data \<Rightarrow> 'e list \<times> bool"

datatype 'e node =
    Text ustring
  | El (tag_of: string) (attrs: "(string \<times> attr) list") (styles: "(string \<times> attr) list")
      (handlers: "(string \<times> 'e handler) list") (children: "'e node list")

definition does :: "'e list \<Rightarrow> 'e handler" where
  "does es = (\<lambda>_. (es, False))"

definition stops :: "'e list \<Rightarrow> 'e handler" where
  "stops es = (\<lambda>_. (es, True))"

text \<open>\<open>{cond && element}\<close>, and a text.\<close>

definition shown_if :: "bool \<Rightarrow> 'a \<Rightarrow> 'a list" where
  "shown_if b x = (if b then [x] else [])"

definition MONO :: string where
  "MONO = CHR 0x27 # ''JetBrains Mono'' @ [CHR 0x27] @ '', monospace''"

definition words :: "string \<Rightarrow> 'e node" where
  "words s = Text (units s)"

lemma shown_if_simps [simp]: "shown_if True x = [x]" "shown_if False x = []"
  by (simp_all add: shown_if_def)

lemma set_shown_if [simp]: "set (shown_if b x) = (if b then {x} else {})"
  by (cases b) simp_all

section \<open>Elements\<close>

fun kids :: "'e node \<Rightarrow> 'e node list" where
  "kids (Text u) = []"
| "kids (El tag as ss hs cs) = cs"

text \<open>All elements, the texts shown, the element at a path (the target of an event is an element), and attributes.\<close>

fun elements :: "'e node \<Rightarrow> 'e node list" where
  "elements (Text u) = []"
| "elements (El tag as ss hs cs) = El tag as ss hs cs # concat (map elements cs)"

fun texts :: "'e node \<Rightarrow> ustring list" where
  "texts (Text u) = [u]"
| "texts (El tag as ss hs cs) = concat (map texts cs)"

fun node_at :: "nat list \<Rightarrow> 'e node \<Rightarrow> 'e node option" where
  "node_at [] t = (case t of Text u \<Rightarrow> None | _ \<Rightarrow> Some t)"
| "node_at (i # p) t = (if i < length (kids t) then node_at p (kids t ! i) else None)"

fun attribute :: "string \<Rightarrow> 'e node \<Rightarrow> attr option" where
  "attribute a (Text u) = None"
| "attribute a (El tag as ss hs cs) = map_of as a"

definition disabled :: "'e node \<Rightarrow> bool" where
  "disabled t \<longleftrightarrow> attribute ''disabled'' t = Some (B True)"

section \<open>Events\<close>

text \<open>
  A disabled element runs no handler of its own, and a form whose submit button is disabled is not submitted.
\<close>

definition silent :: "string \<Rightarrow> 'e node \<Rightarrow> bool" where
  "silent k t \<longleftrightarrow> disabled t
     \<or> k = ''submit'' \<and> list_ex (\<lambda>n. attribute ''type'' n = Some (S ''submit'') \<and> disabled n) (elements t)"

fun own :: "string \<Rightarrow> event_data \<Rightarrow> 'e node \<Rightarrow> 'e list \<times> bool" where
  "own k d (Text u) = ([], False)"
| "own k d (El tag as ss hs cs) =
     (if silent k (El tag as ss hs cs) then ([], False)
      else (case map_of hs k of None \<Rightarrow> ([], False) | Some h \<Rightarrow> h d))"

fun dispatch :: "string \<Rightarrow> event_data \<Rightarrow> nat list \<Rightarrow> 'e node \<Rightarrow> 'e list \<times> bool" where
  "dispatch k d [] t = own k d t"
| "dispatch k d (i # p) t =
     (if i < length (kids t) then
        (let (es, stop) = dispatch k d p (kids t ! i)
         in if stop then (es, True) else (let (fs, stop') = own k d t in (es @ fs, stop')))
      else ([], False))"

text \<open>Every action some element of the tree offers, for any event.\<close>

fun handler_acts :: "(string \<Rightarrow> bool) \<Rightarrow> (string \<times> 'e handler) list \<Rightarrow> 'e set" where
  "handler_acts ok [] = {}"
| "handler_acts ok ((k, h) # hs) =
     (if ok k then (\<Union>d. set (fst (h d))) else {}) \<union> handler_acts (\<lambda>x. ok x \<and> x \<noteq> k) hs"

definition offered :: "'e node \<Rightarrow> 'e set" where
  "offered t = {e. \<exists>n \<in> set (elements t). \<exists>k d. e \<in> set (fst (own k d n))}"

lemma handler_acts_iff:
  "e \<in> handler_acts ok hs \<longleftrightarrow> (\<exists>k d h. ok k \<and> map_of hs k = Some h \<and> e \<in> set (fst (h d)))"
proof (induction hs arbitrary: ok)
  case (Cons p hs)
  obtain k h where p: "p = (k, h)" by fastforce
  have "e \<in> handler_acts ok (p # hs) \<longleftrightarrow>
      (ok k \<and> (\<exists>d. e \<in> set (fst (h d)))) \<or> e \<in> handler_acts (\<lambda>x. ok x \<and> x \<noteq> k) hs"
    by (simp add: p)
  also have "\<dots> \<longleftrightarrow> (\<exists>k' d h'. ok k' \<and> map_of (p # hs) k' = Some h' \<and> e \<in> set (fst (h' d)))"
    unfolding Cons.IH p by (auto split: if_splits)
  finally show ?case .
qed simp

lemma own_acts:
  "(\<exists>k d. e \<in> set (fst (own k d (El tag as ss hs cs))))
     \<longleftrightarrow> e \<in> handler_acts (\<lambda>k. \<not> silent k (El tag as ss hs cs)) hs"
  unfolding handler_acts_iff by (auto split: option.splits if_splits) (metis option.inject)+

lemma offered_Text [simp]: "offered (Text u) = {}" "offered (words s) = {}"
  by (simp_all add: offered_def words_def)

lemma offered_El [simp]:
  "offered (El tag as ss hs cs) =
     handler_acts (\<lambda>k. \<not> silent k (El tag as ss hs cs)) hs \<union> (\<Union>t \<in> set cs. offered t)"
proof (rule set_eqI)
  fix e
  have "e \<in> offered (El tag as ss hs cs) \<longleftrightarrow>
      (\<exists>k d. e \<in> set (fst (own k d (El tag as ss hs cs)))) \<or> (\<exists>t \<in> set cs. e \<in> offered t)"
    by (auto simp: offered_def simp del: own.simps)
  then show "e \<in> offered (El tag as ss hs cs) \<longleftrightarrow>
      e \<in> handler_acts (\<lambda>k. \<not> silent k (El tag as ss hs cs)) hs \<union> (\<Union>t \<in> set cs. offered t)"
    unfolding own_acts by simp
qed

text \<open>Most elements are neither disabled nor forms; then no event is silent.\<close>

lemma silent_simps [simp]:
  "k \<noteq> ''submit'' \<Longrightarrow> silent k t = disabled t"
  by (simp add: silent_def)

lemma disabled_El [simp]: "disabled (El tag as ss hs cs) \<longleftrightarrow> map_of as ''disabled'' = Some (B True)"
  by (simp add: disabled_def)

lemma handler_simps [simp]: "does es d = (es, False)" "stops es d = (es, True)"
  by (simp_all add: does_def stops_def)

lemma words_simps [simp]: "texts (words s) = [units s]" "elements (words s) = []" "kids (words s) = []"
  by (simp_all add: words_def)

lemma concat_shown_if [simp]: "concat (map f (shown_if b x)) = (if b then f x else [])"
  by (cases b) simp_all

text \<open>What a field or a key may hold is up to the browser.\<close>

lemma event_data_ex [simp]:
  "(\<exists>d. v = ev_value d)" "(\<exists>d. u = ev_units d)" "(\<exists>d. k = ev_key d)" "(\<exists>d. k = ev_key d \<and> b = ev_shift d)"
  "(\<exists>d. x = ev_x d \<and> y = ev_y d)" "(\<exists>d. ts = ev_types d)" "(\<exists>d. fs = ev_files d)" "(\<exists>d. r = ev_related d)"
  by (metis event_data.select_convs)+

text \<open>Whatever an event does was offered by an element on its path.\<close>

lemma own_offered: "e \<in> set (fst (own k d t)) \<Longrightarrow> e \<in> offered t"
  by (cases t) (auto simp: offered_def simp del: own.simps(2) offered_El)

lemma dispatch_offered: "e \<in> set (fst (dispatch k d p t)) \<Longrightarrow> e \<in> offered t"
proof (induction p arbitrary: t)
  case Nil
  then show ?case by (simp add: own_offered)
next
  case (Cons i p)
  have i: "i < length (kids t)"
  proof (rule ccontr)
    assume "\<not> i < length (kids t)"
    with Cons.prems show False by simp
  qed
  have "e \<in> set (fst (dispatch k d p (kids t ! i))) \<or> e \<in> set (fst (own k d t))"
    using Cons.prems i by (auto simp: split_def Let_def split: if_splits)
  moreover have "offered (kids t ! i) \<subseteq> offered t"
    using i nth_mem [OF i] by (cases t) auto
  moreover note Cons.IH [of "kids t ! i"] own_offered [of e k d t]
  ultimately show ?case by blast
qed

text \<open>Elements that only hold texts, and paths in general.\<close>

lemma leaf_at:
  "\<forall>t \<in> set cs. \<exists>u. t = Text u \<Longrightarrow>
     node_at q (El tag as ss hs cs) = Some n \<longleftrightarrow> q = [] \<and> n = El tag as ss hs cs"
proof (cases q)
  case (Cons i p)
  assume "\<forall>t \<in> set cs. \<exists>u. t = Text u"
  then have "i < length cs \<Longrightarrow> \<exists>u. cs ! i = Text u" by simp
  with Cons show ?thesis by (cases p) auto
qed auto

lemma node_at_elements: "node_at q t = Some n \<Longrightarrow> n \<in> set (elements t)"
proof (induction q arbitrary: t)
  case Nil
  then show ?case by (cases t) auto
next
  case (Cons i q)
  then have i: "i < length (kids t)" and n: "node_at q (kids t ! i) = Some n" by (auto split: if_splits)
  from i have "set (elements (kids t ! i)) \<subseteq> set (elements t)"
    using nth_mem [OF i] by (cases t) auto
  with Cons.IH [OF n] show ?case by blast
qed

lemma elements_node_at: "n \<in> set (elements t) \<Longrightarrow> \<exists>q. node_at q t = Some n"
proof (induction t)
  case (El tag as ss hs cs)
  show ?case
  proof (cases "n = El tag as ss hs cs")
    case True
    then have "node_at [] (El tag as ss hs cs) = Some n" by simp
    then show ?thesis ..
  next
    case False
    with El.prems obtain c where c: "c \<in> set cs" "n \<in> set (elements c)" by auto
    with El.IH obtain q where "node_at q c = Some n" by blast
    moreover from c obtain i where "i < length cs" "cs ! i = c" by (auto simp: in_set_conv_nth)
    ultimately have "node_at (i # q) (El tag as ss hs cs) = Some n" by simp
    then show ?thesis ..
  qed
qed simp

lemma node_at_iff: "(\<exists>q. node_at q t = Some n) \<longleftrightarrow> n \<in> set (elements t)"
  using node_at_elements elements_node_at by blast

text \<open>An element without a handler for an event passes on what comes from below.\<close>

lemma dispatch_through:
  assumes "i < length (kids t)" and "own k d t = ([], False)"
  shows "dispatch k d (i # p) t = dispatch k d p (kids t ! i)"
  using assms by (cases "dispatch k d p (kids t ! i)") simp

lemma own_none: "map_of hs k = None \<Longrightarrow> own k d (El tag as ss hs cs) = ([], False)"
  by simp

text \<open>
  A part of the tree in which an event is stopped, after the actions \<open>fs\<close>, exactly at the elements of which
  \<open>P\<close> holds, and has no effect elsewhere; and the element around such parts.
\<close>

definition answers :: "string \<Rightarrow> event_data \<Rightarrow> ('e node \<Rightarrow> bool) \<Rightarrow> 'e list \<Rightarrow> 'e node \<Rightarrow> bool" where
  "answers k d P fs t \<longleftrightarrow> (\<forall>q n. node_at q t = Some n \<longrightarrow>
     dispatch k d q t = (if P n then (fs, True) else ([], False)))"

lemma node_at_Text [simp]: "node_at q (Text u) = None" "node_at q (words s) = None"
  by (cases q; simp add: words_def)+

lemma answers_Text [simp]: "answers k d P fs (Text u)" "answers k d P fs (words s)"
  by (simp_all add: answers_def)

lemma answers_around:
  assumes "\<forall>c \<in> set (kids t). answers k d P fs c" and "own k d t = (es, False)" and "\<not> P t"
    and n: "node_at q t = Some n"
  shows "dispatch k d q t = (if P n then (fs, True) else (es, False))"
proof (cases q)
  case Nil
  with n have "n = t" by (cases t) auto
  with Nil assms show ?thesis by simp
next
  case (Cons i p)
  with n have i: "i < length (kids t)" "node_at p (kids t ! i) = Some n" by (auto split: if_splits)
  with assms(1) have "dispatch k d p (kids t ! i) = (if P n then (fs, True) else ([], False))"
    by (simp add: answers_def)
  with Cons i assms(2) show ?thesis by simp
qed

lemma answers_pass:
  assumes "\<forall>c \<in> set (kids t). answers k d P fs c" and "own k d t = ([], False)" and "\<not> P t"
  shows "answers k d P fs t"
  unfolding answers_def using answers_around [OF assms] by blast

lemma answers_stop:
  assumes "\<forall>c \<in> set cs. \<exists>u. c = Text u" and "own k d (El tag as ss hs cs) = (fs, True)"
    and "P (El tag as ss hs cs)"
  shows "answers k d P fs (El tag as ss hs cs)"
  using assms by (simp add: answers_def leaf_at)

section \<open>A component within another one\<close>

text \<open>
  A component's tree inside its parent's: the actions are renamed (\<open>map_node\<close>), nothing else changes.
\<close>

lemma attribute_map [simp]: "attribute a (map_node f t) = attribute a t"
  by (cases t) simp_all

lemma disabled_map [simp]: "disabled (map_node f t) = disabled t"
  by (simp add: disabled_def)

lemma elements_map: "elements (map_node f t) = map (map_node f) (elements t)"
  by (induction t) (simp_all add: map_concat comp_def cong: map_cong)

lemma silent_map [simp]: "silent k (map_node f t) = silent k t"
  by (simp add: silent_def elements_map list_ex_iff)

lemma map_of_handlers: "map_of (map (map_prod id g) hs) k = map_option g (map_of hs k)"
  by (induction hs) auto

lemma own_map: "own k d (map_node f t) = map_prod (map f) id (own k d t)"
proof (cases t)
  case (El tag as ss hs cs)
  have "silent k (map_node f t) = silent k t" by simp
  then show ?thesis
    unfolding El by (simp add: map_of_handlers split: option.split)
qed simp

lemma offered_map: "offered (map_node f t) = f ` offered t"
proof (rule set_eqI)
  fix e
  show "e \<in> offered (map_node f t) \<longleftrightarrow> e \<in> f ` offered t"
    by (auto simp: offered_def elements_map own_map image_iff)
qed

end
