(* ===== verification/TabBarView.thy ===== *)
theory TabBarView
  imports View AppOps Theme
begin

text \<open>
  The tab bar (\<open>frontend/src/components/Terminal/TabBar.tsx\<close>): one tab per session of the active workspace.
  Its handlers give the operations of the store they call; the menu button calls the prop \<open>onMenuClick\<close>.
\<close>

datatype tab_action = TabStore app_event | OpenMenu

definition menu_button :: "ui_colors \<Rightarrow> tab_action node" where
  "menu_button ui =
     El ''button'' [(''aria-label'', S ''Open sidebar''), (''title'', S ''Workspaces'')]
       [(''background'', S ''none''), (''border'', S ''none''),
        (''borderRight'', S (''1px solid '' @ ui_tabBorder ui)), (''color'', S (ui_textSecondary ui)),
        (''cursor'', S ''pointer''), (''fontSize'', S ''18px''), (''padding'', S ''0 14px''),
        (''display'', S ''flex''), (''alignItems'', S ''center''), (''minWidth'', N 44)]
       [(''click'', does [OpenMenu])]
       [Text [0x2630]]"

definition tab_unread :: "app_state \<Rightarrow> string \<Rightarrow> bool" where
  "tab_unread s sid =
     (let isActive = (Some sid = activeSessionId s) in \<not> isActive \<and> sessionUnread s sid)"

definition tab_dot :: "ui_colors \<Rightarrow> tab_action node" where
  "tab_dot ui =
     El ''span'' [(''aria-label'', S ''unread output''), (''title'', S ''New output'')]
       [(''width'', N 6), (''height'', N 6), (''borderRadius'', S ''50%''),
        (''backgroundColor'', S (ui_accent ui)), (''flexShrink'', N 0)]
       [] []"

definition tab_close :: "ui_colors \<Rightarrow> bool \<Rightarrow> session \<Rightarrow> tab_action node" where
  "tab_close ui active sess =
     El ''button'' [(''aria-label'', S (''Close '' @ sess_title sess))]
       [(''background'', S ''none''), (''border'', S ''none''), (''color'', S (ui_textMuted ui)),
        (''cursor'', S ''pointer''), (''fontSize'', S ''16px''), (''padding'', S ''4px 6px''),
        (''lineHeight'', N 1), (''opacity'', N (if active then (7 / 10) else (3 / 10)))]
       [(''click'', stops [TabStore (Act (DoDeleteSession (sess_id sess)))])]
       [Text [0xD7]]"

definition tab_view :: "ui_colors \<Rightarrow> app_state \<Rightarrow> session list \<Rightarrow> session \<Rightarrow> tab_action node" where
  "tab_view ui s currentSessions sess =
     (let active = (Some (sess_id sess) = activeSessionId s) in
      El ''div'' [(''key'', S (sess_id sess))]
        [(''display'', S ''flex''), (''alignItems'', S ''center''), (''gap'', S ''6px''),
         (''padding'', S ''0 12px''), (''cursor'', S ''pointer''),
         (''backgroundColor'', S (if active then (ui_tabActiveBg ui) else ''transparent'')),
         (''color'', S (if active then (ui_textPrimary ui) else (ui_textSecondary ui))),
         (''borderRight'', S (''1px solid '' @ ui_tabBorder ui)), (''whiteSpace'', S ''nowrap''),
         (''minWidth'', N 0), (''maxWidth'', N 200), (''flexShrink'', N 0)]
        [(''click'', does [TabStore (Select (sess_id sess))])]
        (shown_if (tab_unread s (sess_id sess)) (tab_dot ui)
         @ [El ''span'' []
              [(''overflow'', S ''hidden''), (''textOverflow'', S ''ellipsis'')]
              [] [words (sess_title sess)]]
         @ shown_if (1 < length currentSessions) (tab_close ui active sess)))"

definition new_tab_button :: "ui_colors \<Rightarrow> string \<Rightarrow> tab_action node" where
  "new_tab_button ui wid =
     El ''button'' [(''title'', S ''New Tab''), (''aria-label'', S ''New tab'')]
       [(''background'', S ''none''), (''border'', S ''none''),
        (''borderLeft'', S (''1px solid '' @ ui_tabBorder ui)), (''color'', S (ui_textSecondary ui)),
        (''cursor'', S ''pointer''), (''fontSize'', S ''18px''), (''padding'', S ''0 14px''),
        (''display'', S ''flex''), (''alignItems'', S ''center''), (''minWidth'', N 44)]
       [(''click'', does [TabStore (Act (DoCreateSession wid None))])]
       [words ''+'']"

definition TabBar :: "ui_colors \<Rightarrow> bool \<Rightarrow> app_state \<Rightarrow> tab_action node option" where
  "TabBar ui showMenuButton s =
     (if \<not> truthy (activeWorkspaceId s) then None
      else
        let wid = the (activeWorkspaceId s); currentSessions = session_list s wid in
        Some
          (El ''div'' []
             [(''display'', S ''flex''), (''alignItems'', S ''stretch''),
              (''backgroundColor'', S (ui_tabBarBg ui)),
              (''borderBottom'', S (''1px solid '' @ ui_tabBorder ui)), (''height'', S ''40px''),
              (''fontFamily'', S MONO), (''fontSize'', S ''12px''), (''overflow'', S ''hidden'')]
             []
             (shown_if showMenuButton (menu_button ui)
              @ [El ''div'' []
                   [(''display'', S ''flex''), (''flex'', N 1), (''overflowX'', S ''auto''),
                    (''overflowY'', S ''hidden'')]
                   [] (map (tab_view ui s currentSessions) currentSessions),
                 new_tab_button ui wid])))"

section \<open>What a click does\<close>

text \<open>The actions a tab bar offers.\<close>

lemma offered_tab: "a \<in> offered (tab_view ui s l x) \<longleftrightarrow>
    a = TabStore (Select (sess_id x)) \<or> (1 < length l \<and> a = TabStore (Act (DoDeleteSession (sess_id x))))"
  by (auto simp: tab_view_def tab_dot_def tab_close_def Let_def)

lemma offered_menu_button: "offered (menu_button ui) = {OpenMenu}"
  by (simp add: menu_button_def)

lemma offered_new_tab: "offered (new_tab_button ui wid) = {TabStore (Act (DoCreateSession wid None))}"
  by (simp add: new_tab_button_def)

lemma offered_TabBar:
  assumes "TabBar ui m s = Some T"
  shows "a \<in> offered T \<longleftrightarrow> (m \<and> a = OpenMenu)
    \<or> a = TabStore (Act (DoCreateSession (the (activeWorkspaceId s)) None))
    \<or> (\<exists>x \<in> set (session_list s (the (activeWorkspaceId s))). a = TabStore (Select (sess_id x))
        \<or> (1 < length (session_list s (the (activeWorkspaceId s))) \<and> a = TabStore (Act (DoDeleteSession (sess_id x)))))"
  using assms by (auto simp: TabBar_def Let_def offered_tab offered_menu_button offered_new_tab split: if_splits)

text \<open>A click within a tab.\<close>

definition close_label :: "session \<Rightarrow> attr" where
  "close_label x = S (''Close '' @ sess_title x)"

definition close_act :: "session \<Rightarrow> tab_action" where
  "close_act x = TabStore (Act (DoDeleteSession (sess_id x)))"

text \<open>The children of a tab: the dot, the title and the button.\<close>

definition closes :: "session \<Rightarrow> tab_action node \<Rightarrow> bool" where
  "closes x n \<longleftrightarrow> attribute ''aria-label'' n = Some (close_label x)"

lemma not_closes: "map_of as ''aria-label'' = None \<Longrightarrow> \<not> closes x (El tag as ss hs cs)"
  by (simp add: closes_def)

lemma tab_children:
  "answers ''click'' d (closes x) [close_act x] (tab_dot ui)"
  "answers ''click'' d (closes x) [close_act x] (tab_close ui active x)"
  "answers ''click'' d (closes x) [close_act x] (El ''span'' [] ss [] [words v])"
  unfolding tab_dot_def tab_close_def
  by (rule answers_pass answers_stop; simp add: closes_def close_label_def close_act_def)+

lemma click_in_tab:
  assumes "node_at q (tab_view ui s l x) = Some n"
  shows "dispatch ''click'' d q (tab_view ui s l x) =
    (if closes x n then ([close_act x], True) else ([TabStore (Select (sess_id x))], False))"
  by (rule answers_around [OF _ _ _ assms]) (auto simp: tab_view_def not_closes Let_def tab_children)

text \<open>Where the tabs are in the bar.\<close>

definition tab_path :: "bool \<Rightarrow> nat \<Rightarrow> nat list" where
  "tab_path m i = [if m then 1 else 0, i]"

lemma TabBar_shape:
  assumes "TabBar ui m s = Some T"
  defines "l \<equiv> session_list s (the (activeWorkspaceId s))"
  obtains ss ss' where "T = El ''div'' [] ss [] (shown_if m (menu_button ui)
    @ [El ''div'' [] ss' [] (map (tab_view ui s l) l), new_tab_button ui (the (activeWorkspaceId s))])"
  using assms by (auto simp: TabBar_def Let_def split: if_splits)

lemma tab_at:
  assumes "TabBar ui m s = Some T"
  defines "l \<equiv> session_list s (the (activeWorkspaceId s))"
  assumes "i < length l"
  shows "node_at (tab_path m i @ q) T = node_at q (tab_view ui s l (l ! i))"
    and "dispatch ''click'' d (tab_path m i @ q) T = dispatch ''click'' d q (tab_view ui s l (l ! i))"
proof -
  obtain ss ss' where T: "T = El ''div'' [] ss [] (shown_if m (menu_button ui)
    @ [El ''div'' [] ss' [] (map (tab_view ui s l) l), new_tab_button ui (the (activeWorkspaceId s))])"
    using TabBar_shape [OF assms(1)] unfolding l_def by blast
  let ?k = "if m then 1 else 0 :: nat" and ?tabs = "El ''div'' [] ss' [] (map (tab_view ui s l) l)"
  have k: "?k < length (kids T)" "kids T ! ?k = ?tabs" by (cases m; simp add: T)+
  have i: "i < length (kids ?tabs)" "kids ?tabs ! i = tab_view ui s l (l ! i)" using assms(3) by simp_all
  show "node_at (tab_path m i @ q) T = node_at q (tab_view ui s l (l ! i))"
    using k i by (simp add: tab_path_def)
  have "own ''click'' d T = ([], False)" "own ''click'' d ?tabs = ([], False)"
    unfolding T by (rule own_none; simp)+
  then show "dispatch ''click'' d (tab_path m i @ q) T = dispatch ''click'' d q (tab_view ui s l (l ! i))"
    using k i by (simp add: tab_path_def dispatch_through del: dispatch.simps(2) own.simps kids.simps)
qed

lemma tab_elements:
  "(\<exists>n \<in> set (elements (tab_view ui s l x)). attribute ''aria-label'' n = Some (close_label x)) \<longleftrightarrow> 1 < length l"
  "(\<exists>n \<in> set (elements (tab_view ui s l x)). attribute ''aria-label'' n = Some (S ''unread output''))
     \<longleftrightarrow> tab_unread s (sess_id x)"
  by (auto simp: tab_view_def tab_dot_def tab_close_def close_label_def words_def shown_if_def Let_def)

text \<open>
  C38: Every tab acts on its own session. A click anywhere in the tab of a session selects it, except on the
  element labelled with its closing, where it deletes the session and the tab's own handler does not run. That
  element is there exactly if the workspace has another session; the dot is there exactly if the session is
  unread and is not the one shown.
\<close>
theorem tabs_act_on_their_session:
  assumes "TabBar ui m s = Some T"
  defines "l \<equiv> session_list s (the (activeWorkspaceId s))"
  assumes "i < length l"
  shows "(\<forall>q n d. node_at (tab_path m i @ q) T = Some n \<longrightarrow>
      dispatch ''click'' d (tab_path m i @ q) T =
        (if attribute ''aria-label'' n = Some (close_label (l ! i))
         then ([TabStore (Act (DoDeleteSession (sess_id (l ! i))))], True)
         else ([TabStore (Select (sess_id (l ! i)))], False)))
    \<and> ((\<exists>q n. node_at (tab_path m i @ q) T = Some n \<and> attribute ''aria-label'' n = Some (close_label (l ! i)))
        \<longleftrightarrow> 1 < length l)
    \<and> ((\<exists>q n. node_at (tab_path m i @ q) T = Some n \<and> attribute ''aria-label'' n = Some (S ''unread output''))
        \<longleftrightarrow> sessionUnread s (sess_id (l ! i)) \<and> activeSessionId s \<noteq> Some (sess_id (l ! i)))"
proof -
  note at = tab_at [OF assms(1), folded l_def, OF assms(3)]
  have ex: "(\<exists>q n. node_at q t = Some n \<and> P n) \<longleftrightarrow> (\<exists>n \<in> set (elements t). P n)" for t and P :: "tab_action node \<Rightarrow> bool"
    using node_at_iff [of t] by blast
  have "tab_unread s (sess_id (l ! i)) \<longleftrightarrow>
      sessionUnread s (sess_id (l ! i)) \<and> activeSessionId s \<noteq> Some (sess_id (l ! i))"
    by (auto simp: tab_unread_def Let_def)
  then show ?thesis unfolding at ex tab_elements using click_in_tab [of _ ui s l "l ! i"] by (simp add: close_act_def closes_def)
qed

theorem tabs_act_on_their_session_witness:
  "\<exists>T. TabBar darkUI False (store (world (after_run load_events))) = Some T
     \<and> (\<exists>q n. node_at (tab_path False 1 @ q) T = Some n
          \<and> attribute ''aria-label'' n = Some (close_label (sample_session ''s2'' ''Build'')))"
proof -
  let ?s = "store (world (after_run load_events))"
  have a: "activeWorkspaceId ?s = Some ''w1''" by code_simp
  have l: "session_list ?s (the (activeWorkspaceId ?s)) =
      [sample_session ''s1'' ''Shell'', sample_session ''s2'' ''Build'']" by code_simp
  from a obtain T where T: "TabBar darkUI False ?s = Some T" by (simp add: TabBar_def truthy_def Let_def)
  from tabs_act_on_their_session [OF T, of 1] T show ?thesis unfolding l by auto
qed

end
