(* ===== verification/PageView.thy ===== *)
theory PageView
  imports TabBarView AppShell
begin

text \<open>
  The rendered page: the screens of \<open>frontend/src/App.tsx\<close>, the form of \<open>components/Auth/LoginForm.tsx\<close> and
  the panel of \<open>components/Terminal/TerminalPanel.tsx\<close> with its tab bar. Handlers give the events of
  \<open>AppShell\<close>, and the background set on the element under the pointer. The components with a state of their
  own (sidebar, terminal, input bar, toasts) are leaves here.
\<close>

datatype page_action = Sh shell_event | PaintTarget string

section \<open>The login form\<close>

text \<open>
  What React shows for a value: nothing for a flag and \<open>null\<close>, each item of an array, and an exception
  (\<open>None\<close>) for an object.
\<close>

fun react_texts :: "json \<Rightarrow> ustring list option" where
  "react_texts JNull = Some []"
| "react_texts (JBool b) = Some []"
| "react_texts (JNum n) = Some [units (num_str n)]"
| "react_texts (JStr s) = Some [units s]"
| "react_texts (JArr vs) =
     (let rs = map react_texts vs in if None \<in> set rs then None else Some (concat (map the rs)))"
| "react_texts (JObj ps) = None"

definition login_error :: "ui_colors \<Rightarrow> login_form \<Rightarrow> page_action node list option" where
  "login_error ui f =
     (if \<not> json_truthy (form_error f) then Some []
      else map_option (\<lambda>us. [El ''div'' []
        [(''color'', S (ui_danger ui)), (''fontSize'', S ''12px''), (''textAlign'', S ''center'')]
        [] (map Text us)]) (react_texts (form_error f)))"

definition login_field :: "ui_colors \<Rightarrow> bool \<Rightarrow> login_form \<Rightarrow> page_action node" where
  "login_field ui needsSetup f =
     El ''input''
       [(''type'', S ''password''), (''value'', S (password f)),
        (''placeholder'', S (if needsSetup then ''Choose a password'' else ''Password'')), (''autoFocus'', B True)]
       [(''backgroundColor'', S (ui_tabActiveBg ui)),
        (''border'', S (''1px solid '' @ ui_sidebarBorder ui)), (''color'', S (ui_textPrimary ui)),
        (''fontSize'', S ''16px''), (''fontFamily'', S ''inherit''), (''padding'', S ''12px 14px''),
        (''outline'', S ''none''), (''width'', S ''100%''), (''boxSizing'', S ''border-box''),
        (''borderRadius'', N 4)]
       [(''change'', \<lambda>d. ([Sh (TypePassword (ev_value d))], False))]
       []"

definition login_button :: "ui_colors \<Rightarrow> bool \<Rightarrow> login_form \<Rightarrow> page_action node" where
  "login_button ui needsSetup f =
     El ''button'' [(''type'', S ''submit''), (''disabled'', B (loading f \<or> password f = []))]
       [(''backgroundColor'', S (ui_accent ui)), (''border'', S ''none''), (''color'', S ''#fff''),
        (''fontSize'', S ''14px''), (''fontFamily'', S ''inherit''), (''fontWeight'', N 600),
        (''padding'', S ''12px''), (''cursor'', S (if loading f then ''wait'' else ''pointer'')),
        (''opacity'', N (if loading f \<or> password f = [] then (3 / 5) else 1)), (''borderRadius'', N 4),
        (''minHeight'', N 44)]
       [] [words (if needsSetup then ''Set Password'' else ''Login'')]"

definition LoginForm :: "ui_colors \<Rightarrow> bool \<Rightarrow> login_form \<Rightarrow> page_action node option" where
  "LoginForm ui needsSetup f =
     map_option (\<lambda>err.
       El ''div'' []
         [(''display'', S ''flex''), (''alignItems'', S ''center''), (''justifyContent'', S ''center''),
          (''minHeight'', S ''100vh''), (''width'', S ''100vw''), (''backgroundColor'', S (ui_appBg ui)),
          (''fontFamily'', S MONO), (''padding'', S ''24px''), (''boxSizing'', S ''border-box'')]
         []
         [El ''form'' []
            [(''display'', S ''flex''), (''flexDirection'', S ''column''), (''gap'', S ''16px''),
             (''width'', S ''100%''), (''maxWidth'', S ''320px'')]
            [(''submit'', does [Sh Submit])]
            ([El ''div'' []
                [(''color'', S (ui_textPrimary ui)), (''fontSize'', S ''20px''), (''fontWeight'', N 600),
                 (''textAlign'', S ''center''), (''marginBottom'', S ''8px'')]
                [] [words ''LociTerm''],
              El ''div'' []
                [(''color'', S (ui_textSecondary ui)), (''fontSize'', S ''13px''),
                 (''textAlign'', S ''center'')]
                []
                [words (if needsSetup then ''Set a password to secure your terminal.''
                        else ''Enter your password to continue.'')],
              login_field ui needsSetup f]
             @ err @ [login_button ui needsSetup f])])
       (login_error ui f)"

section \<open>The panel of the terminal\<close>

text \<open>The tab bar in the page, and a prop that may be \<open>null\<close>.\<close>

fun tab_in_page :: "tab_action \<Rightarrow> page_action" where
  "tab_in_page (TabStore e) = Sh (AppEvent e)"
| "tab_in_page OpenMenu = Sh MenuClick"

definition session_prop :: "string option \<Rightarrow> (string \<times> attr) list" where
  "session_prop sid = (case sid of None \<Rightarrow> [] | Some x \<Rightarrow> [(''sessionId'', S x)])"

definition TerminalPanel :: "ui_colors \<Rightarrow> bool \<Rightarrow> bool \<Rightarrow> app_state \<Rightarrow> page_action node" where
  "TerminalPanel ui showMenuButton mobile s =
     El ''div'' []
       [(''display'', S ''flex''), (''flexDirection'', S ''column''), (''height'', S ''100%''),
        (''width'', S ''100%''), (''overflow'', S ''hidden'')]
       []
       ((case TabBar ui showMenuButton s of None \<Rightarrow> [] | Some t \<Rightarrow> [map_node tab_in_page t])
        @ [El ''div'' []
             [(''flex'', N 1), (''position'', S ''relative''), (''overflow'', S ''hidden''),
              (''minHeight'', N 0)]
             [] [El ''TerminalView'' (session_prop (activeSessionId s)) [] [] []]]
        @ shown_if mobile (El ''MobileInputBar'' (session_prop (activeSessionId s)) [] [] []))"

section \<open>The main screen\<close>

definition banner_text :: "page_action node" where
  "banner_text =
     El ''span'' []
       [(''flex'', N 1), (''minWidth'', N 0), (''overflow'', S ''hidden''),
        (''textOverflow'', S ''ellipsis''), (''whiteSpace'', S ''nowrap'')]
       []
       [Text (units ''Full Disk Access required '' @ [0x2014] @ units '' System Settings '' @ [0x25B8]
          @ units '' Privacy & Security '' @ [0x25B8] @ units '' Full Disk Access '' @ [0x25B8] @ units '' add ''),
        El ''code'' [] [(''background'', S ''rgba(0,0,0,0.12)''), (''padding'', S ''0 4px''),
                        (''borderRadius'', N 2)] []
          [words ''/usr/local/bin/lociterm'']]"

definition recheck_button :: "shell \<Rightarrow> page_action node" where
  "recheck_button s =
     El ''button'' [(''disabled'', B (permChecking s))]
       [(''flexShrink'', N 0), (''padding'', S ''4px 10px''), (''backgroundColor'', S ''rgba(0,0,0,0.15)''),
        (''border'', S ''1px solid rgba(0,0,0,0.25)''), (''color'', S ''#000''), (''fontSize'', N 12),
        (''fontFamily'', S ''inherit''), (''fontWeight'', N 600),
        (''cursor'', S (if permChecking s then ''wait'' else ''pointer'')),
        (''opacity'', N (if permChecking s then (3 / 5) else 1)), (''borderRadius'', N 3)]
       [(''click'', does [Sh Recheck])]
       [Text (if permChecking s then units ''Checking'' @ [0x2026] else units ''Recheck'')]"

definition dismiss_button :: "page_action node" where
  "dismiss_button =
     El ''button'' [(''aria-label'', S ''Dismiss''), (''title'', S ''Dismiss'')]
       [(''flexShrink'', N 0), (''width'', N 22), (''height'', N 22), (''padding'', N 0),
        (''backgroundColor'', S ''transparent''), (''border'', S ''none''), (''color'', S ''#000''),
        (''fontSize'', N 16), (''lineHeight'', N 1), (''fontFamily'', S ''inherit''),
        (''cursor'', S ''pointer''), (''borderRadius'', N 3)]
       [(''click'', does [Sh DismissBanner])]
       [Text [0xD7]]"

definition banner_view :: "ui_colors \<Rightarrow> shell \<Rightarrow> page_action node" where
  "banner_view ui s =
     El ''div'' []
       [(''flexShrink'', N 0), (''display'', S ''flex''), (''alignItems'', S ''center''), (''gap'', N 12),
        (''padding'', S ''8px 12px''), (''backgroundColor'', S (ui_warning ui)), (''color'', S ''#000''),
        (''fontFamily'', S MONO), (''fontSize'', N 12), (''lineHeight'', N (7 / 5)),
        (''borderBottom'', S (''1px solid '' @ ui_sidebarBorder ui))]
       []
       [El ''span'' [] [(''fontWeight'', N 600), (''flexShrink'', N 0)] [] [words ''Permission''],
        banner_text, recheck_button s, dismiss_button]"

definition desktop_sidebar :: "ui_colors \<Rightarrow> rat \<Rightarrow> shell \<Rightarrow> page_action node list" where
  "desktop_sidebar ui innerWidth s =
     [El ''div'' []
        [(''width'', N (sidebarPanelWidth innerWidth s)), (''flexShrink'', N 0), (''height'', S ''100%'')]
        [] [El ''Sidebar'' [] [] [] []],
      El ''div'' []
        [(''width'', S ''4px''), (''cursor'', S ''col-resize''), (''backgroundColor'', S ''transparent''),
         (''flexShrink'', N 0)]
        [(''mousedown'', does [Sh (Dragged DragDown)]),
         (''mouseenter'', does [PaintTarget (ui_accent ui)]),
         (''mouseleave'', does (if \<not> dragging (drag s) then [PaintTarget ''transparent''] else []))]
        []]"

definition mobile_sidebar :: "ui_colors \<Rightarrow> rat \<Rightarrow> shell \<Rightarrow> page_action node list" where
  "mobile_sidebar ui innerWidth s =
     [El ''div'' [(''aria-hidden'', B True)]
        [(''position'', S ''absolute''), (''inset'', N 0), (''backgroundColor'', S (ui_overlayBg ui)),
         (''zIndex'', N 999)]
        [(''click'', does [Sh CloseSidebar])] [],
      El ''div'' []
        [(''position'', S ''absolute''), (''top'', N 0), (''left'', N 0), (''bottom'', N 0),
         (''width'', N (sidebarPanelWidth innerWidth s)), (''zIndex'', N 1000),
         (''boxShadow'', S ''2px 0 8px rgba(0,0,0,0.35)'')]
        [] [El ''Sidebar'' [] [] [(''onCloseMobile'', does [Sh CloseSidebar])] []]]"

definition main_view :: "ui_colors \<Rightarrow> rat \<Rightarrow> shell \<Rightarrow> page_action node" where
  "main_view ui innerWidth s =
     El ''div'' []
       [(''display'', S ''flex''), (''flexDirection'', S ''column''), (''width'', S ''100vw''),
        (''height'', S ''100dvh''), (''backgroundColor'', S (ui_appBg ui)), (''overflow'', S ''hidden''),
        (''position'', S ''relative'')]
       []
       (shown_if (showPermBanner s) (banner_view ui s)
        @ [El ''div'' []
             [(''display'', S ''flex''), (''flex'', N 1), (''minHeight'', N 0),
              (''position'', S ''relative'')]
             []
             ((if \<not> isMobile s then desktop_sidebar ui innerWidth s else [])
              @ (if isMobile s \<and> mobileSidebarOpen s then mobile_sidebar ui innerWidth s else [])
              @ [El ''div'' []
                   [(''flex'', N 1), (''height'', S ''100%''), (''overflow'', S ''hidden''),
                    (''minWidth'', N 0)]
                   []
                   [TerminalPanel ui (isMobile s) (isMobile s) (store (world (app s)))]]),
           El ''ToastContainer'' [] [] [] []])"

definition starting_view :: "ui_colors \<Rightarrow> page_action node" where
  "starting_view ui =
     El ''div'' []
       [(''display'', S ''flex''), (''alignItems'', S ''center''), (''justifyContent'', S ''center''),
        (''minHeight'', S ''100vh''), (''backgroundColor'', S (ui_appBg ui)),
        (''color'', S (ui_textPrimary ui)), (''fontFamily'', S MONO), (''padding'', S ''24px'')]
       [] [words ''Starting LociTerm...'']"

definition loading_view :: "ui_colors \<Rightarrow> page_action node" where
  "loading_view ui =
     El ''div'' []
       [(''display'', S ''flex''), (''alignItems'', S ''center''), (''justifyContent'', S ''center''),
        (''minHeight'', S ''100vh''), (''backgroundColor'', S (ui_appBg ui)),
        (''color'', S (ui_textPrimary ui)), (''fontFamily'', S MONO), (''padding'', S ''24px'')]
       [] [words ''Loading...'']"

definition App :: "ui_colors \<Rightarrow> rat \<Rightarrow> shell \<Rightarrow> page_action node option" where
  "App ui innerWidth s =
     (case screen_of s of
        StartingScreen \<Rightarrow> Some (starting_view ui)
      | LoginScreen needsSetup \<Rightarrow> LoginForm ui needsSetup (form s)
      | LoadingScreen \<Rightarrow> Some (loading_view ui)
      | MainScreen \<Rightarrow> Some (main_view ui innerWidth s))"

section \<open>What the page offers\<close>

lemma offered_login:
  assumes "LoginForm ui b f = Some T"
  shows "Sh e \<in> offered T \<longleftrightarrow> (\<exists>v. e = TypePassword v) \<or> (e = Submit \<and> \<not> loading f \<and> password f \<noteq> [])"
proof -
  obtain err where err: "login_error ui f = Some err" using assms by (auto simp: LoginForm_def)
  have none: "concat (map (elements \<circ> Text) us) = []" for us
    by (induction us) simp_all
  then have e: "offered t = {} \<and> list_all (\<lambda>n. attribute ''type'' n = None) (elements t)" if "t \<in> set err" for t
    using err that by (auto simp: login_error_def none split: if_splits)
  then have o: "offered t = {}" if "t \<in> set err" for t using that by blast
  from e have "\<not> list_ex (\<lambda>n. attribute ''type'' n = Some (S ''submit'') \<and> disabled n) (concat (map elements err))"
    by (auto simp: list_ex_iff list_all_iff)
  with assms o show ?thesis
    by (auto simp: LoginForm_def err login_field_def login_button_def silent_def split: if_splits)
qed

text \<open>The events of the store a tab bar offers, and the events the page offers.\<close>

definition tab_event :: "app_state \<Rightarrow> app_event \<Rightarrow> bool" where
  "tab_event s e \<longleftrightarrow> truthy (activeWorkspaceId s) \<and>
     (let wid = the (activeWorkspaceId s); l = session_list s wid in
      e = Act (DoCreateSession wid None)
      \<or> (\<exists>x \<in> set l. e = Select (sess_id x) \<or> (1 < length l \<and> e = Act (DoDeleteSession (sess_id x)))))"

fun page_event :: "shell \<Rightarrow> shell_event \<Rightarrow> bool" where
  "page_event s (ShellReply n r) = False"
| "page_event s (MobileChange b) = False"
| "page_event s (Dragged d) = (d = DragDown)"
| "page_event s (AppEvent e) = tab_event (store (world (app s))) e"
| "page_event s _ = True"

lemma tab_in_page_iff: "Sh e = tab_in_page x \<longleftrightarrow>
    (x = OpenMenu \<and> e = MenuClick) \<or> (\<exists>a. x = TabStore a \<and> e = AppEvent a)"
  by (cases x) auto

lemma offered_panel: "Sh e \<in> offered (TerminalPanel ui menu mobile st) \<longleftrightarrow>
    (e = MenuClick \<and> menu \<and> truthy (activeWorkspaceId st)) \<or> (\<exists>a. e = AppEvent a \<and> tab_event st a)"
proof (cases "TabBar ui menu st")
  case None
  then have "\<not> truthy (activeWorkspaceId st)" by (simp add: TabBar_def Let_def split: if_splits)
  with None show ?thesis by (simp add: TerminalPanel_def tab_event_def)
next
  case (Some T)
  then have t: "truthy (activeWorkspaceId st)" by (simp add: TabBar_def split: if_splits)
  have "Sh e \<in> tab_in_page ` offered T \<longleftrightarrow>
      (e = MenuClick \<and> OpenMenu \<in> offered T) \<or> (\<exists>a. e = AppEvent a \<and> TabStore a \<in> offered T)"
    by (auto simp: image_iff tab_in_page_iff)
  with Some t show ?thesis
    by (auto simp: TerminalPanel_def offered_map offered_TabBar [OF Some] tab_event_def Let_def)
qed

lemma offered_banner: "Sh e \<in> offered (banner_view ui s) \<longleftrightarrow> (e = Recheck \<and> \<not> permChecking s) \<or> e = DismissBanner"
  by (auto simp: banner_view_def banner_text_def recheck_button_def dismiss_button_def)

lemma offered_desktop: "(\<exists>t \<in> set (desktop_sidebar ui iw s). Sh e \<in> offered t) \<longleftrightarrow> e = Dragged DragDown"
  by (auto simp: desktop_sidebar_def)

lemma offered_mobile: "(\<exists>t \<in> set (mobile_sidebar ui iw s). Sh e \<in> offered t) \<longleftrightarrow> e = CloseSidebar"
  by (auto simp: mobile_sidebar_def)

lemma offered_main: "Sh e \<in> offered (main_view ui iw s) \<longleftrightarrow>
    (showPermBanner s \<and> Sh e \<in> offered (banner_view ui s))
    \<or> (\<not> isMobile s \<and> e = Dragged DragDown) \<or> (isMobile s \<and> mobileSidebarOpen s \<and> e = CloseSidebar)
    \<or> Sh e \<in> offered (TerminalPanel ui (isMobile s) (isMobile s) (store (world (app s))))"
  unfolding main_view_def using offered_desktop [of ui iw s e] offered_mobile [of ui iw s e] by auto

text \<open>
  C40: The rendered page and the machine of the root component agree, whenever the page can be rendered: an
  element offers an event exactly when the machine enables it. The form is on the login screen only and is
  not submitted while its button is disabled; the banner's button is disabled during a check; the sidebar is
  dragged on a wide screen and closed on a narrow one; of the store, the tab bar offers the sessions of the
  active workspace, and deleting one only if there is another.
\<close>
theorem page_offers_enabled:
  assumes "App ui innerWidth s = Some T"
  shows "Sh e \<in> offered T \<longleftrightarrow> page_event s e \<and> shell_enabled e s"
proof (cases "screen_of s")
  case (LoginScreen b)
  with assms have "LoginForm ui b (form s) = Some T" by (simp add: App_def)
  moreover have "b = (authState s = NeedsSetup)" using LoginScreen by (auto simp: screen_of_def split: if_splits)
  ultimately show ?thesis using LoginScreen
    by (cases e) (auto simp: offered_login tab_event_def Let_def)
next
  case MainScreen
  with assms have "T = main_view ui innerWidth s" by (simp add: App_def)
  with MainScreen show ?thesis
    unfolding offered_main [of e] by (cases e) (auto simp: offered_main offered_panel offered_banner tab_event_def Let_def)
next
  case StartingScreen
  with assms have "T = starting_view ui" by (simp add: App_def)
  with StartingScreen show ?thesis
    by (cases e) (auto simp: starting_view_def tab_event_def Let_def)
next
  case LoadingScreen
  with assms have "T = loading_view ui" by (simp add: App_def)
  with LoadingScreen show ?thesis
    by (cases e) (auto simp: loading_view_def tab_event_def Let_def)
qed

theorem page_offers_enabled_witness:
  "\<exists>T. App darkUI 1000 (on_form (\<lambda>f. f\<lparr>password := ''pw''\<rparr>)
       (setAuthState NeedsSetup (mount_shell NoStorage False sample_start))) = Some T \<and> Sh Submit \<in> offered T"
proof -
  let ?s = "on_form (\<lambda>f. f\<lparr>password := ''pw''\<rparr>) (setAuthState NeedsSetup (mount_shell NoStorage False sample_start))"
  have "screen_of ?s = LoginScreen True" and e: "shell_enabled Submit ?s" by code_simp+
  moreover have "form_error (form ?s) = JStr []" by code_simp
  ultimately obtain T where T: "App darkUI 1000 ?s = Some T"
    by (auto simp: App_def LoginForm_def login_error_def)
  from page_offers_enabled [OF T, of Submit] e have "Sh Submit \<in> offered T" by simp
  with T show ?thesis by blast
qed

end
