(* ===== verification/SidebarUi.thy ===== *)
theory SidebarUi
  imports AppOps JsText
begin

text \<open>
  The sidebar (\<open>frontend/src/components/Sidebar/Sidebar.tsx\<close>): what a row shows, the field for a new
  workspace, renaming in place, and the context menu. The handlers that call the store await it, so the
  end of a call reaches the sidebar through \<open>waiting\<close>: the number of the store's suspended call with what
  the handler does afterwards.
\<close>

section \<open>Rows\<close>

record row =
  row_id :: string
  row_name :: string
  row_cwd :: "string option"
  row_active :: bool
  row_unread :: bool

definition row_session :: "app_state \<Rightarrow> string \<Rightarrow> session option" where
  "row_session s wid =
     (let wsSessions = session_list s wid; activeId = obj_get (activeSessionByWorkspace s) wid
      in coalesce (find (\<lambda>x. Some (sess_id x) = activeId) wsSessions) (head_opt wsSessions))"

definition row_of :: "app_state \<Rightarrow> workspace \<Rightarrow> row" where
  "row_of s ws =
     (let isActive = (Some (ws_id ws) = activeWorkspaceId s) in
      \<lparr>row_id = ws_id ws, row_name = ws_name ws,
       row_cwd = Option.bind (row_session s (ws_id ws)) sess_cwd,
       row_active = isActive,
       row_unread = (\<not> isActive \<and> list_ex (\<lambda>x. sessionUnread s (sess_id x)) (session_list s (ws_id ws)))\<rparr>)"

definition sidebar_rows :: "app_state \<Rightarrow> row list" where
  "sidebar_rows s = map (row_of s) (workspaces s)"

section \<open>State\<close>

record context_menu =
  menu_workspaceId :: string
  menu_x :: int
  menu_y :: int

datatype ui_follow = AfterCreate | AfterRename

record sidebar =
  creating :: bool
  newName :: string
  editingId :: "string option"
  editName :: string
  contextMenu :: "context_menu option"
  waiting :: "(nat \<times> ui_follow) list"
  sb_app :: app_sys

text \<open>Calling an operation of the store and awaiting it.\<close>

definition await_store :: "action \<Rightarrow> ui_follow \<Rightarrow> sidebar \<Rightarrow> sidebar" where
  "await_store a k s =
     s\<lparr>waiting := waiting s @ [(next_call (sb_app s), k)], sb_app := perform a (sb_app s)\<rparr>"

definition call_store :: "action \<Rightarrow> sidebar \<Rightarrow> sidebar" where
  "call_store a s = s\<lparr>sb_app := perform a (sb_app s)\<rparr>"

section \<open>Handlers\<close>

definition handleCreate :: "sidebar \<Rightarrow> sidebar" where
  "handleCreate s =
     (if trim (newName s) \<noteq> [] then await_store (DoCreateWorkspace (trim (newName s))) AfterCreate s else s)"

definition handleRename :: "string \<Rightarrow> sidebar \<Rightarrow> sidebar" where
  "handleRename wid s =
     (if trim (editName s) \<noteq> [] then await_store (DoRenameWorkspace wid (trim (editName s))) AfterRename s
      else s\<lparr>editingId := None\<rparr>)"

fun run_ui :: "ui_follow \<Rightarrow> sidebar \<Rightarrow> sidebar" where
  "run_ui AfterCreate s = s\<lparr>newName := [], creating := False\<rparr>"
| "run_ui AfterRename s = s\<lparr>editingId := None\<rparr>"

definition startRename :: "string \<Rightarrow> string \<Rightarrow> sidebar \<Rightarrow> sidebar" where
  "startRename wid name s = s\<lparr>contextMenu := None, editingId := Some wid, editName := name\<rparr>"

definition handleContextMenu :: "int \<Rightarrow> int \<Rightarrow> string \<Rightarrow> sidebar \<Rightarrow> sidebar" where
  "handleContextMenu x y wid s =
     s\<lparr>contextMenu := Some \<lparr>menu_workspaceId = wid, menu_x = x, menu_y = y\<rparr>\<rparr>"

text \<open>The listener for clicks anywhere: \<open>inside\<close> says whether the menu is shown and contains the target.\<close>

definition handleClick :: "bool \<Rightarrow> sidebar \<Rightarrow> sidebar" where
  "handleClick inside s = (if contextMenu s \<noteq> None \<and> \<not> inside then s\<lparr>contextMenu := None\<rparr> else s)"

definition rename_key :: "string \<Rightarrow> string \<Rightarrow> sidebar \<Rightarrow> sidebar" where
  "rename_key wid k s0 =
     (let s = (if k = ''Enter'' then handleRename wid s0 else s0) in
      if k = ''Escape'' then s\<lparr>editingId := None\<rparr> else s)"

definition create_key :: "string \<Rightarrow> sidebar \<Rightarrow> sidebar" where
  "create_key k s0 =
     (let s = (if k = ''Enter'' then handleCreate s0 else s0) in
      if k = ''Escape'' then s\<lparr>creating := False, newName := []\<rparr> else s)"

definition create_blur :: "sidebar \<Rightarrow> sidebar" where
  "create_blur s = (if trim (newName s) = [] then s\<lparr>creating := False\<rparr> else s)"

definition menu_rename :: "sidebar \<Rightarrow> sidebar" where
  "menu_rename s =
     (case contextMenu s of
        None \<Rightarrow> s
      | Some m \<Rightarrow>
          (case find (\<lambda>w. ws_id w = menu_workspaceId m) (workspaces (store (world (sb_app s)))) of
             None \<Rightarrow> s
           | Some ws \<Rightarrow> startRename (ws_id ws) (ws_name ws) s))"

definition menu_delete :: "sidebar \<Rightarrow> sidebar" where
  "menu_delete s =
     (case contextMenu s of
        None \<Rightarrow> s
      | Some m \<Rightarrow> (call_store (DoDeleteWorkspace (menu_workspaceId m)) s)\<lparr>contextMenu := None\<rparr>)"

section \<open>Events\<close>

datatype sidebar_event =
    NewButton
  | TypeNew string
  | CreateKey string
  | CreateBlur
  | RowClick string
  | RowMenu int int string
  | RowDoubleClick string string
  | TypeEdit string
  | RenameKey string string
  | RenameBlur string
  | PageMouseDown bool
  | MenuRename
  | MenuDelete
  | StoreReply nat "reply list"
  | StoreReject nat
  | StoreEvent app_event

definition find_row :: "string \<Rightarrow> sidebar \<Rightarrow> workspace option" where
  "find_row wid s = find (\<lambda>w. ws_id w = wid) (workspaces (store (world (sb_app s))))"

text \<open>
  The handlers exist for what is shown: the rows of the workspaces, the field of a row while it is edited,
  the menu, whose second entry is there if there are two workspaces.
\<close>

fun sidebar_enabled :: "sidebar_event \<Rightarrow> sidebar \<Rightarrow> bool" where
  "sidebar_enabled (TypeNew v) s = creating s"
| "sidebar_enabled (CreateKey k) s = creating s"
| "sidebar_enabled CreateBlur s = creating s"
| "sidebar_enabled (RowClick wid) s = (find_row wid s \<noteq> None)"
| "sidebar_enabled (RowMenu x y wid) s = (find_row wid s \<noteq> None)"
| "sidebar_enabled (RowDoubleClick wid name) s =
     ((\<exists>w \<in> set (workspaces (store (world (sb_app s)))). ws_id w = wid \<and> ws_name w = name) \<and> editingId s \<noteq> Some wid)"
| "sidebar_enabled (TypeEdit v) s = (\<exists>wid. editingId s = Some wid \<and> find_row wid s \<noteq> None)"
| "sidebar_enabled (RenameKey wid k) s = (editingId s = Some wid \<and> find_row wid s \<noteq> None)"
| "sidebar_enabled (RenameBlur wid) s = (editingId s = Some wid \<and> find_row wid s \<noteq> None)"
| "sidebar_enabled MenuRename s = (contextMenu s \<noteq> None)"
| "sidebar_enabled MenuDelete s = (contextMenu s \<noteq> None \<and> 1 < length (workspaces (store (world (sb_app s)))))"
| "sidebar_enabled (StoreReply n rs) s = enabled (Reply n rs) (sb_app s)"
| "sidebar_enabled (StoreReject n) s = enabled (Reject n) (sb_app s)"
| "sidebar_enabled (StoreEvent e) s = (enabled e (sb_app s) \<and> (\<forall>n rs. e \<noteq> Reply n rs) \<and> (\<forall>n. e \<noteq> Reject n))"
| "sidebar_enabled _ s = True"

text \<open>The call the store goes on with after a reply, if it does.\<close>

definition goes_on :: "nat \<Rightarrow> reply list \<Rightarrow> app_sys \<Rightarrow> bool" where
  "goes_on n rs y =
     (case find_call n y of None \<Rightarrow> False | Some (aw, _) \<Rightarrow> snd (resume aw rs (world y)) \<noteq> None)"

definition store_reply :: "nat \<Rightarrow> reply list \<Rightarrow> sidebar \<Rightarrow> sidebar" where
  "store_reply n rs s0 =
     (let y = sb_app s0; s = s0\<lparr>sb_app := deliver n rs y\<rparr> in
      case map_of (waiting s0) n of
        None \<Rightarrow> s
      | Some k \<Rightarrow>
          let s1 = s\<lparr>waiting := filter (\<lambda>p. fst p \<noteq> n) (waiting s)\<rparr> in
          if goes_on n rs y then s1\<lparr>waiting := waiting s1 @ [(next_call y, k)]\<rparr> else run_ui k s1)"

definition store_reject :: "nat \<Rightarrow> sidebar \<Rightarrow> sidebar" where
  "store_reject n s = s\<lparr>sb_app := drop_call n (sb_app s), waiting := filter (\<lambda>p. fst p \<noteq> n) (waiting s)\<rparr>"

fun sidebar_exec :: "sidebar_event \<Rightarrow> sidebar \<Rightarrow> sidebar" where
  "sidebar_exec NewButton s = s\<lparr>creating := True\<rparr>"
| "sidebar_exec (TypeNew v) s = s\<lparr>newName := v\<rparr>"
| "sidebar_exec (CreateKey k) s = create_key k s"
| "sidebar_exec CreateBlur s = create_blur s"
| "sidebar_exec (RowClick wid) s = call_store (SetActiveWorkspace wid) s"
| "sidebar_exec (RowMenu x y wid) s = handleContextMenu x y wid s"
| "sidebar_exec (RowDoubleClick wid name) s = startRename wid name s"
| "sidebar_exec (TypeEdit v) s = s\<lparr>editName := v\<rparr>"
| "sidebar_exec (RenameKey wid k) s = rename_key wid k s"
| "sidebar_exec (RenameBlur wid) s = handleRename wid s"
| "sidebar_exec (PageMouseDown inside) s = handleClick inside s"
| "sidebar_exec MenuRename s = menu_rename s"
| "sidebar_exec MenuDelete s = menu_delete s"
| "sidebar_exec (StoreReply n rs) s = store_reply n rs s"
| "sidebar_exec (StoreReject n) s = store_reject n s"
| "sidebar_exec (StoreEvent e) s = s\<lparr>sb_app := exec_event e (sb_app s)\<rparr>"

definition sidebar_step :: "sidebar \<Rightarrow> sidebar_event \<Rightarrow> sidebar \<Rightarrow> bool" where
  "sidebar_step s e s' \<longleftrightarrow> sidebar_enabled e s \<and> s' = sidebar_exec e s"

definition sidebar_start :: "sidebar \<Rightarrow> bool" where
  "sidebar_start s \<longleftrightarrow> \<not> creating s \<and> newName s = [] \<and> editingId s = None \<and> editName s = []
     \<and> contextMenu s = None \<and> waiting s = [] \<and> reach app_start app_step (sb_app s)"

section \<open>The numbers of calls\<close>

definition fresh_calls :: "app_sys \<Rightarrow> bool" where
  "fresh_calls y \<longleftrightarrow> distinct (map fst (calls y)) \<and> (\<forall>c \<in> set (calls y). fst c < next_call y)"

lemma fresh_issue: "fresh_calls y \<Longrightarrow> fresh_calls (issue aw cs fs y)"
  by (force simp: fresh_calls_def issue_def)

lemma fresh_drop: "fresh_calls y \<Longrightarrow> fresh_calls (drop_call n y)"
  by (auto simp: fresh_calls_def drop_call_def intro: distinct_map_filter_key)

lemma fresh_world: "fresh_calls (y\<lparr>world := w\<rparr>) = fresh_calls y" "fresh_calls (on_world f y) = fresh_calls y"
  by (simp_all add: fresh_calls_def on_world_def)

lemma fresh_perform: "fresh_calls y \<Longrightarrow> fresh_calls (perform a y)"
  by (cases a) (simp_all add: fresh_issue fresh_world toastClick_def switch_workspace_def pollActive_def Let_def
      split: option.split)

lemma fresh_deliver: "fresh_calls y \<Longrightarrow> fresh_calls (deliver n rs y)"
  by (auto simp: deliver_def Let_def fresh_issue fresh_drop fresh_world split: option.split prod.split)

lemma fresh_exec: "fresh_calls y \<Longrightarrow> fresh_calls (exec_event e y)"
  by (cases e) (simp_all add: fresh_perform fresh_deliver fresh_drop fresh_world pollTick_def pollActive_def
      fresh_issue Let_def)

lemma fresh_start: "app_start y \<Longrightarrow> fresh_calls y"
  by (simp add: app_start_def fresh_calls_def)

lemma fresh_step: "fresh_calls y \<Longrightarrow> app_step y e y' \<Longrightarrow> fresh_calls y'"
  by (simp add: app_step_iff fresh_exec)

interpretation frs: invariant_machine app_start app_step fresh_calls
  by unfold_locales (rule fresh_start fresh_step; assumption)+

lemma next_fresh: "fresh_calls y \<Longrightarrow> find_call (next_call y) y = None"
  by (force simp: fresh_calls_def find_call_def map_of_eq_None_iff)

text \<open>What the events do to the calls: they append, or drop one.\<close>

definition keeps_calls :: "app_sys \<Rightarrow> app_sys \<Rightarrow> bool" where
  "keeps_calls y y' \<longleftrightarrow> (\<forall>n c. find_call n y = Some c \<longrightarrow> find_call n y' = Some c) \<and> next_call y \<le> next_call y'"

lemma keeps_refl [simp]: "keeps_calls y y"
  by (simp add: keeps_calls_def)

lemma keeps_issue [simp]: "keeps_calls y (issue aw cs fs y)"
  by (simp add: keeps_calls_def issue_def find_call_def map_add_Some_iff)

lemma keeps_world [simp]: "keeps_calls y (y\<lparr>world := w\<rparr>)" "keeps_calls y (on_world f y)"
  by (simp_all add: keeps_calls_def on_world_def find_call_def)

lemma keeps_perform: "keeps_calls y (perform a y)"
  by (cases a) (simp_all add: toastClick_def switch_workspace_def pollActive_def Let_def split: option.split)

lemma keeps_other: "(\<And>n rs. e \<noteq> Reply n rs) \<Longrightarrow> (\<And>n. e \<noteq> Reject n) \<Longrightarrow> keeps_calls y (exec_event e y)"
  by (cases e) (auto simp: keeps_perform pollTick_def pollActive_def Let_def)

lemma find_drop: "find_call m (drop_call n y) = (if m = n then None else find_call m y)"
proof -
  have "map_of (filter (\<lambda>c. fst c \<noteq> n) cs) m = (if m = n then None else map_of cs m)"
    for cs :: "(nat \<times> await \<times> api_call list \<times> follow list) list"
    by (induction cs) auto
  then show ?thesis by (simp add: find_call_def drop_call_def)
qed

lemma find_issue:
  "fresh_calls y \<Longrightarrow> find_call m (issue aw cs fs y) = (if m = next_call y then Some (aw, cs, fs) else find_call m y)"
  using next_fresh [of y] by (auto simp: find_call_def issue_def map_add_def split: option.split)

lemma find_world [simp]: "find_call m (y\<lparr>world := w\<rparr>) = find_call m y"
  by (simp add: find_call_def)

lemma find_deliver:
  assumes "fresh_calls y" and "find_call n y = Some (aw, cs, fs)"
  shows "find_call m (deliver n rs y) =
    (if m = n then None
     else case snd (resume aw rs (world y)) of
            Some (aw', cs') \<Rightarrow> if m = next_call y then Some (aw', cs', fs) else find_call m y
          | None \<Rightarrow> find_call m y)"
proof -
  obtain w k where r: "resume aw rs (world y) = (w, k)" by fastforce
  have f: "fresh_calls ((drop_call n y)\<lparr>world := w\<rparr>)" using assms(1) by (simp add: fresh_world fresh_drop)
  have nc: "next_call (drop_call n y) = next_call y" by (simp add: drop_call_def)
  have "n < next_call y"
    using assms by (auto simp: fresh_calls_def find_call_def dest: map_of_SomeD)
  then show ?thesis
    using r assms(2) find_issue [OF f] nc
    by (cases k) (auto simp: deliver_def find_drop)
qed

section \<open>Waiting\<close>

text \<open>The call a handler waits for: that of its operation, with a name that is trimmed and not empty.\<close>

definition good_name :: "string \<Rightarrow> bool" where
  "good_name v \<longleftrightarrow> v \<noteq> [] \<and> trim v = v"

fun waits_for :: "ui_follow \<Rightarrow> await \<Rightarrow> api_call list \<Rightarrow> bool" where
  "waits_for AfterCreate AwCreateWorkspace cs = (\<exists>v. cs = [CreateWorkspace v] \<and> good_name v)"
| "waits_for AfterCreate (AwCreateWorkspaceSession ws) cs = (cs = [CreateSession (ws_id ws) None])"
| "waits_for AfterRename (AwRenameWorkspace wid) cs = (\<exists>v. cs = [UpdateWorkspace wid v] \<and> good_name v)"
| "waits_for _ _ _ = False"

definition sidebar_inv :: "sidebar \<Rightarrow> bool" where
  "sidebar_inv s \<longleftrightarrow> fresh_calls (sb_app s) \<and> distinct (map fst (waiting s))
     \<and> (\<forall>n k. (n, k) \<in> set (waiting s) \<longrightarrow>
          (\<exists>aw cs fs. find_call n (sb_app s) = Some (aw, cs, fs) \<and> waits_for k aw cs))"

lemma waiting_less: "sidebar_inv s \<Longrightarrow> (n, k) \<in> set (waiting s) \<Longrightarrow> n < next_call (sb_app s)"
  by (fastforce simp: sidebar_inv_def fresh_calls_def dest: find_call_in)

lemma sidebar_inv_keeps:
  assumes "sidebar_inv s" and "keeps_calls (sb_app s) y" and "fresh_calls y"
  shows "sidebar_inv (s\<lparr>sb_app := y\<rparr>)"
  using assms unfolding sidebar_inv_def keeps_calls_def by fastforce

lemma sidebar_inv_ui:
  "sidebar_inv s \<Longrightarrow> waiting t = waiting s \<Longrightarrow> sb_app t = sb_app s \<Longrightarrow> sidebar_inv t"
  by (simp add: sidebar_inv_def)

lemma sidebar_inv_sets [simp]:
  "sidebar_inv (s\<lparr>editingId := x\<rparr>) = sidebar_inv s" "sidebar_inv (s\<lparr>contextMenu := m\<rparr>) = sidebar_inv s"
  "sidebar_inv (s\<lparr>creating := b\<rparr>) = sidebar_inv s" "sidebar_inv (s\<lparr>newName := v\<rparr>) = sidebar_inv s"
  "sidebar_inv (s\<lparr>editName := v\<rparr>) = sidebar_inv s"
  by (simp_all add: sidebar_inv_def)

lemma sidebar_inv_await:
  assumes "sidebar_inv s" and "find_call (next_call (sb_app s)) (perform a (sb_app s)) = Some (aw, cs, fs)"
    and "waits_for k aw cs"
  shows "sidebar_inv (await_store a k s)"
proof -
  let ?n = "next_call (sb_app s)"
  have "?n \<notin> fst ` set (waiting s)" using waiting_less [OF assms(1)] by force
  then show ?thesis
    using assms keeps_perform [of "sb_app s" a] fresh_perform [of "sb_app s" a]
    unfolding await_store_def sidebar_inv_def keeps_calls_def by fastforce
qed

lemma sidebar_inv_create: "sidebar_inv s \<Longrightarrow> sidebar_inv (handleCreate s)"
  by (auto simp: handleCreate_def sidebar_inv_def [of s] find_issue good_name_def intro!: sidebar_inv_await)

lemma sidebar_inv_rename: "sidebar_inv s \<Longrightarrow> sidebar_inv (handleRename wid s)"
  by (simp add: handleRename_def)
   (auto simp: sidebar_inv_def [of s] find_issue good_name_def intro!: sidebar_inv_await)

lemma run_ui_keeps [simp]: "waiting (run_ui k s) = waiting s" "sb_app (run_ui k s) = sb_app s"
  by (cases k; simp)+

lemma sidebar_inv_reject: "sidebar_inv s \<Longrightarrow> sidebar_inv (store_reject n s)"
  by (auto simp: store_reject_def sidebar_inv_def fresh_drop find_drop intro: distinct_map_filter_key)

lemma waits_on:
  assumes "waits_for k aw cs" and "list_all2 reply_fits cs rs" and "snd (resume aw rs w) = Some (aw', cs')"
  shows "waits_for k aw' cs'"
  using assms
  by (cases k; cases aw)
   (auto simp: with_workspace_def with_session_def list_all2_Cons1 split: reply.splits list.splits)

lemma sidebar_inv_reply:
  assumes "sidebar_inv s" and "enabled (Reply n rs) (sb_app s)"
  shows "sidebar_inv (store_reply n rs s)"
proof -
  let ?y = "sb_app s"
  obtain aw cs fs where c: "find_call n ?y = Some (aw, cs, fs)" and fit: "list_all2 reply_fits cs rs"
    using assms(2) by (auto split: option.splits)
  have f: "fresh_calls ?y" "fresh_calls (deliver n rs ?y)" using assms(1) by (auto simp: sidebar_inv_def fresh_deliver)
  note d = find_deliver [OF f(1) c, of _ rs]
  let ?W = "filter (\<lambda>p. fst p \<noteq> n) (waiting s)"
  have w: "\<exists>aw cs fs. find_call m (deliver n rs ?y) = Some (aw, cs, fs) \<and> waits_for k aw cs"
    if "(m, k) \<in> set ?W" for m k
    using that assms(1) waiting_less [OF assms(1), of m k] by (fastforce simp: d sidebar_inv_def split: option.split)
  have dis: "distinct (map fst ?W)" using assms(1) by (auto simp: sidebar_inv_def intro: distinct_map_filter_key)
  show ?thesis
  proof (cases "map_of (waiting s) n")
    case None
    then have "?W = waiting s" by (force simp: map_of_eq_None_iff filter_id_conv)
    with w dis f(2) have "sidebar_inv (s\<lparr>sb_app := deliver n rs ?y\<rparr>)" by (auto simp: sidebar_inv_def)
    then show ?thesis by (simp add: store_reply_def None)
  next
    case (Some k)
    then have k: "waits_for k aw cs" using assms(1) c by (fastforce simp: sidebar_inv_def dest: map_of_SomeD)
    show ?thesis
    proof (cases "snd (resume aw rs (world ?y))")
      case None
      have "sidebar_inv (s\<lparr>sb_app := deliver n rs ?y, waiting := ?W\<rparr>)"
        using w dis f(2) by (auto simp: sidebar_inv_def)
      then have "sidebar_inv (run_ui k (s\<lparr>sb_app := deliver n rs ?y, waiting := ?W\<rparr>))"
        by (rule sidebar_inv_ui) simp_all
      with Some None c show ?thesis by (simp add: store_reply_def goes_on_def Let_def)
    next
      case (Some x)
      obtain aw' cs' where x: "x = (aw', cs')" by (cases x)
      have n: "n < next_call ?y" using f(1) find_call_in [OF c] by (fastforce simp: fresh_calls_def)
      have "waits_for k aw' cs'" using waits_on [OF k fit] Some x by simp
      moreover have "find_call (next_call ?y) (deliver n rs ?y) = Some (aw', cs', fs)"
        using n by (simp add: d Some x)
      moreover have "next_call ?y \<notin> fst ` set ?W" using waiting_less [OF assms(1)] by force
      ultimately have "sidebar_inv (s\<lparr>sb_app := deliver n rs ?y, waiting := ?W @ [(next_call ?y, k)]\<rparr>)"
        using w dis f(2) by (auto simp: sidebar_inv_def)
      with \<open>map_of (waiting s) n = Some k\<close> Some c show ?thesis
        by (simp add: store_reply_def goes_on_def Let_def)
    qed
  qed
qed

lemma sidebar_inv_step: "sidebar_inv s \<Longrightarrow> sidebar_step s e t \<Longrightarrow> sidebar_inv t"
proof -
  assume i: "sidebar_inv s" and st: "sidebar_step s e t"
  have en: "sidebar_enabled e s" and t: "t = sidebar_exec e s" using st by (auto simp: sidebar_step_def)
  have call: "sidebar_inv (call_store a s)" for a
    using i sidebar_inv_keeps [OF i keeps_perform fresh_perform] by (simp add: call_store_def sidebar_inv_def)
  show "sidebar_inv t"
  proof (cases e)
    case (StoreReply n rs)
    with i en t sidebar_inv_reply show ?thesis by simp
  next
    case (StoreReject n)
    with i t sidebar_inv_reject show ?thesis by simp
  next
    case (StoreEvent a)
    with en have "keeps_calls (sb_app s) (exec_event a (sb_app s))" by (intro keeps_other) auto
    with StoreEvent t i sidebar_inv_keeps [OF i] fresh_exec show ?thesis by (simp add: sidebar_inv_def)
  next
    case (CreateKey k)
    with t i sidebar_inv_create [OF i] show ?thesis
      by (auto simp: create_key_def Let_def intro: sidebar_inv_ui)
  next
    case (RenameKey wid k)
    with t i sidebar_inv_rename [OF i] show ?thesis
      by (auto simp: rename_key_def Let_def intro: sidebar_inv_ui)
  next
    case (RenameBlur wid)
    with t sidebar_inv_rename [OF i] show ?thesis by simp
  next
    case (RowClick wid)
    with t call show ?thesis by simp
  next
    case MenuDelete
    with t i call show ?thesis by (simp add: menu_delete_def split: option.split)
  qed (use t in \<open>auto intro!: sidebar_inv_ui [OF i] simp: create_blur_def handleContextMenu_def startRename_def
      handleClick_def menu_rename_def split: option.split\<close>)
qed

lemma sidebar_inv_start: "sidebar_start s \<Longrightarrow> sidebar_inv s"
  using frs.reach_inv [of "sb_app s"] by (simp add: sidebar_start_def sidebar_inv_def)

interpretation sdb: invariant_machine sidebar_start sidebar_step sidebar_inv
  by unfold_locales (rule sidebar_inv_start sidebar_inv_step; assumption)+

section \<open>Properties\<close>

lemma row_session_find:
  assumes "obj_get (sessions s) wid = Some l"
  shows "row_session s wid =
    (case obj_get (activeSessionByWorkspace s) wid of
       None \<Rightarrow> head_opt l
     | Some r \<Rightarrow> coalesce (find (\<lambda>x. sess_id x = r) l) (head_opt l))"
  using assms by (auto simp: row_session_def session_list_def Let_def find_None_iff [THEN iffD2] split: option.split)

lemma selected_row_session:
  assumes "obj_get (sessions (store w)) wid = Some l" and "[] \<notin> set (map sess_id l)"
  shows "row_session (store w) wid = Option.bind (activeSessionId (store (setActiveWorkspace_set wid l w)))
    (\<lambda>sid. find (\<lambda>x. sess_id x = sid) l)"
proof (cases "obj_get (activeSessionByWorkspace (store w)) wid")
  case None
  then show ?thesis
    by (cases l) (simp_all add: row_session_find [OF assms(1)] setActiveWorkspace_set_def Let_def)
next
  case (Some r)
  show ?thesis
  proof (cases "\<exists>x \<in> set l. sess_id x = r")
    case True
    then have ex: "list_ex (\<lambda>x. Some (sess_id x) = Some r) l" and "r \<in> set (map sess_id l)"
      by (auto simp: list_ex_iff)
    then have ne: "r \<noteq> []" using assms(2) by metis
    obtain x where "find (\<lambda>x. sess_id x = r) l = Some x"
      using True by (cases "find (\<lambda>x. sess_id x = r) l") (auto simp: find_None_iff)
    with Some ex ne show ?thesis
      by (simp add: row_session_find [OF assms(1)] setActiveWorkspace_set_def Let_def)
  next
    case False
    then have ex: "\<not> list_ex (\<lambda>x. Some (sess_id x) = Some r) l" and "find (\<lambda>x. sess_id x = r) l = None"
      by (auto simp: list_ex_iff find_None_iff)
    with Some show ?thesis
      by (cases l) (simp_all add: row_session_find [OF assms(1)] setActiveWorkspace_set_def Let_def)
  qed
qed

text \<open>
  C34: A row of the sidebar shows the directory of the session that a click on it selects (when the list of the
  workspace is loaded): the one last viewed there, as long as it is listed, and the first one otherwise. Its
  dot is the selector \<open>workspaceUnread\<close>, except that the row of the active workspace has none. After the click
  the row is the active one, has no dot, and shows the same directory.
\<close>
theorem rows_show_store:
  assumes "st = store (world (sb_app s))" and "st' = store (world (sb_app (sidebar_exec (RowClick (ws_id ws)) s)))"
    and "obj_get (sessions st) (ws_id ws) = Some l" and "[] \<notin> set (map sess_id l)"
  shows "row_cwd (row_of st ws) =
      Option.bind (activeSessionId st') (\<lambda>sid. Option.bind (find (\<lambda>x. sess_id x = sid) l) sess_cwd)
    \<and> (row_unread (row_of st ws) \<longleftrightarrow> activeWorkspaceId st \<noteq> Some (ws_id ws) \<and> workspaceUnread st (ws_id ws))
    \<and> row_active (row_of st' ws) \<and> \<not> row_unread (row_of st' ws) \<and> row_cwd (row_of st' ws) = row_cwd (row_of st ws)"
proof -
  let ?w = "world (sb_app s)" and ?k = "ws_id ws"
  have st': "st' = store (setActiveWorkspace_set ?k l ?w)"
    using assms(1-3) by (simp add: call_store_def switch_workspace_def)
  have sel: "row_session st ?k = Option.bind (activeSessionId st') (\<lambda>sid. find (\<lambda>x. sess_id x = sid) l)"
    using selected_row_session [of ?w ?k l] assms(1,3,4) by (simp add: st')
  have act: "activeWorkspaceId st' = Some ?k" and list: "obj_get (sessions st') ?k = Some l"
    and rem: "activeSessionId st' = Some sid \<Longrightarrow> sid \<noteq> [] \<Longrightarrow>
      obj_get (activeSessionByWorkspace st') ?k = Some sid" for sid
    by (auto simp: st' setActiveWorkspace_set_def Let_def)
  have same: "row_session st' ?k = row_session st ?k"
  proof (cases "activeSessionId st'")
    case None
    then have "l = []" by (auto simp: st' setActiveWorkspace_set_def Let_def split: if_splits)
    then show ?thesis by (simp add: row_session_find [OF list] row_session_find [OF assms(3)] split: option.split)
  next
    case (Some sid)
    then have f: "row_session st ?k = find (\<lambda>x. sess_id x = sid) l" using sel by simp
    have mem: "sid \<in> set (map sess_id l)"
      using Some assms(4)
      by (auto simp: st' setActiveWorkspace_set_def Let_def list_ex_iff split: if_splits dest!: head_opt_in)
    then have "sid \<noteq> []" using assms(4) by metis
    moreover obtain x where x: "find (\<lambda>x. sess_id x = sid) l = Some x"
      using mem by (cases "find (\<lambda>x. sess_id x = sid) l") (auto simp: find_None_iff)
    ultimately show ?thesis using f rem [OF Some] by (simp add: row_session_find [OF list])
  qed
  have unread: "workspaceUnread st k = list_ex (\<lambda>x. sessionUnread st (sess_id x)) (session_list st k)" for k
    by (simp add: workspaceUnread_def session_list_def split: option.split)
  show ?thesis
    by (auto simp: row_of_def Let_def sel same act unread bind_assoc split: option.split)
qed

text \<open>
  C35: The sidebar asks the store for trimmed names that are not empty only, and it never waits for a call that
  is not under way: every continuation it keeps belongs to an open call of its own operation.
\<close>
theorem sidebar_waits_for_calls:
  assumes "reach sidebar_start sidebar_step s" and "(n, k) \<in> set (waiting s)"
  shows "\<exists>aw cs fs. find_call n (sb_app s) = Some (aw, cs, fs)
    \<and> (k = AfterRename \<longrightarrow> (\<exists>wid v. cs = [UpdateWorkspace wid v] \<and> v \<noteq> [] \<and> trim v = v))
    \<and> (k = AfterCreate \<longrightarrow> (\<exists>v. cs = [CreateWorkspace v] \<and> v \<noteq> [] \<and> trim v = v)
        \<or> (\<exists>ws. aw = AwCreateWorkspaceSession ws \<and> cs = [CreateSession (ws_id ws) None]))"
proof -
  obtain aw cs fs where "find_call n (sb_app s) = Some (aw, cs, fs)" "waits_for k aw cs"
    using sdb.reach_inv [OF assms(1)] assms(2) unfolding sidebar_inv_def by blast
  then show ?thesis by (cases k; cases aw) (auto simp: good_name_def)
qed

definition sidebar_sample :: sidebar where
  "sidebar_sample = \<lparr>creating = True, newName = ''  Ops '', editingId = None, editName = [],
     contextMenu = None, waiting = [], sb_app = after_run load_events\<rparr>"

lemma reach_sidebar_sample: "reach sidebar_start sidebar_step sidebar_sample"
proof -
  let ?s = "sidebar_sample\<lparr>creating := False, newName := []\<rparr>"
  have "sidebar_start ?s"
    using reach_after_run [OF sample_loads] by (simp add: sidebar_start_def sidebar_sample_def)
  then have "reach sidebar_start sidebar_step ?s" by (rule reach_start)
  moreover have "sidebar_step ?s NewButton (?s\<lparr>creating := True\<rparr>)" by (simp add: sidebar_step_def)
  moreover have "sidebar_step (?s\<lparr>creating := True\<rparr>) (TypeNew ''  Ops '') sidebar_sample"
    by (simp add: sidebar_step_def sidebar_sample_def)
  ultimately show ?thesis by (blast intro: reach_step)
qed

theorem rows_show_store_witness:
  "row_active (row_of (store (world (sb_app (sidebar_exec (RowClick ''w1'') sidebar_sample)))) sample_ws)"
proof -
  have k: "ws_id sample_ws = ''w1''" by (simp add: sample_ws_def)
  have "obj_get (sessions (store (world (sb_app sidebar_sample)))) ''w1''
      = Some [sample_session ''s1'' ''Shell'', sample_session ''s2'' ''Build'']" by code_simp
  with rows_show_store [of _ sidebar_sample _ sample_ws, OF refl refl, unfolded k, of "[sample_session ''s1'' ''Shell'', sample_session ''s2'' ''Build'']"]
  show ?thesis by (simp add: sample_session_def)
qed

theorem sidebar_waits_for_calls_witness:
  "\<exists>aw cs fs. find_call (next_call (after_run load_events)) (sb_app (handleCreate sidebar_sample)) = Some (aw, cs, fs)
     \<and> ((\<exists>v. cs = [CreateWorkspace v] \<and> v \<noteq> [] \<and> trim v = v)
        \<or> (\<exists>ws. aw = AwCreateWorkspaceSession ws \<and> cs = [CreateSession (ws_id ws) None]))"
proof -
  let ?n = "next_call (after_run load_events)"
  have st: "sidebar_step sidebar_sample (CreateKey ''Enter'') (handleCreate sidebar_sample)"
    by (simp add: sidebar_step_def create_key_def sidebar_sample_def)
  have tr: "trim ''  Ops '' = ''Ops''" by code_simp
  have "(?n, AfterCreate) \<in> set (waiting (handleCreate sidebar_sample))"
    by (simp add: handleCreate_def await_store_def sidebar_sample_def tr)
  note w = this
  have r: "reach sidebar_start sidebar_step (handleCreate sidebar_sample)"
    using st by (rule reach_step [OF reach_sidebar_sample])
  from sidebar_waits_for_calls [OF r w] show ?thesis by blast
qed

text \<open>
  Creating a workspace, from the field to the end: Enter in the field, then the two answers of the server,
  store the workspace with its session, show it, and close the field.
\<close>
lemma create_workspace_flow:
  assumes "reach sidebar_start sidebar_step s" and "trim (newName s) \<noteq> []" and "n = next_call (sb_app s)"
    and "t = store_reply (Suc n) [RSession x] (store_reply n [RWorkspace ws] (create_key ''Enter'' s))"
  shows "world (sb_app t) = createWorkspace_set ws x (world (sb_app s))
    \<and> \<not> creating t \<and> newName t = [] \<and> waiting t = waiting s \<and> calls (sb_app t) = calls (sb_app s)
    \<and> activeWorkspaceId (store (world (sb_app t))) = Some (ws_id ws)"
proof -
  have inv: "sidebar_inv s" using sdb.reach_inv [OF assms(1)] .
  then have lt: "\<And>c. c \<in> set (calls (sb_app s)) \<Longrightarrow> fst c < n"
    and wt: "\<And>p. p \<in> set (waiting s) \<Longrightarrow> fst p < n"
    using assms(3) waiting_less [OF inv] by (auto simp: sidebar_inv_def fresh_calls_def)
  have fc: "filter (\<lambda>c. fst c \<noteq> m) (calls (sb_app s)) = calls (sb_app s)" if "n \<le> m" for m
    using lt that by (force simp: filter_id_conv)
  have fw: "filter (\<lambda>p. fst p \<noteq> m) (waiting s) = waiting s" if "n \<le> m" for m
    using wt that by (force simp: filter_id_conv)
  have mc: "map_of (calls (sb_app s)) m = None" if "n \<le> m" for m
    using lt that by (force simp: map_of_eq_None_iff)
  have mw: "map_of (waiting s) m = None" if "n \<le> m" for m
    using wt that by (force simp: map_of_eq_None_iff)
  note none = fc [of n] fc [of "Suc n"] fw [of n] fw [of "Suc n"] mc [of n] mc [of "Suc n"] mw [of n] mw [of "Suc n"]
  show ?thesis
    unfolding assms(4) using assms(2) none
    by (simp add: create_key_def handleCreate_def await_store_def store_reply_def deliver_def find_call_def
        goes_on_def issue_def drop_call_def Let_def map_add_def assms(3) [symmetric] createWorkspace_set_def)
qed

text \<open>
  The handlers do not look at calls under way. A second Enter before the answer asks for a second workspace
  of the same name; and the answer to the renaming of one workspace closes the field in which the user has
  begun to rename another one.
\<close>
lemma pending_calls_unguarded:
  assumes "reach sidebar_start sidebar_step s" and "n = next_call (sb_app s)"
  shows "(trim (newName s) \<noteq> [] \<longrightarrow>
      find_call n (sb_app (handleCreate (handleCreate s))) = Some (AwCreateWorkspace, [CreateWorkspace (trim (newName s))], [])
      \<and> find_call (Suc n) (sb_app (handleCreate (handleCreate s)))
          = Some (AwCreateWorkspace, [CreateWorkspace (trim (newName s))], []))
    \<and> (trim (editName s) \<noteq> [] \<longrightarrow>
      editingId (startRename b name (handleRename a s)) = Some b
      \<and> editingId (store_reply n [RWorkspace ws] (startRename b name (handleRename a s))) = None)"
proof -
  have inv: "sidebar_inv s" using sdb.reach_inv [OF assms(1)] .
  then have f: "fresh_calls (sb_app s)" by (simp add: sidebar_inv_def)
  have "n \<notin> fst ` set (waiting s)" using waiting_less [OF inv] assms(2) by force
  then have mw: "map_of (waiting s) n = None" by (simp add: map_of_eq_None_iff)
  have nx: "next_call (issue aw cs fs y) = Suc (next_call y)" for aw cs fs y by (simp add: issue_def)
  show ?thesis
    using find_issue [OF f] find_issue [OF fresh_issue [OF f]] mw
    by (simp add: handleCreate_def handleRename_def await_store_def startRename_def store_reply_def goes_on_def
        map_add_def nx assms(2) Let_def)
qed

end
