(* ===== verification/SidebarView.thy ===== *)
theory SidebarView
  imports View SidebarUi Theme
begin

text \<open>
  The rendered sidebar (\<open>frontend/src/components/Sidebar/Sidebar.tsx\<close>). Its handlers give the events of
  \<open>SidebarUi\<close>, calls of the props and of the theme, and the background set on the element under the pointer.
\<close>

datatype sidebar_action = Sb sidebar_event | CloseMobile | CycleMode | TargetBackground string

definition themeIcon :: "theme_mode \<Rightarrow> ustring" where
  "themeIcon m = (case m of SystemMode \<Rightarrow> [0xD83D, 0xDDA5] | LightMode \<Rightarrow> [0x2600] | DarkMode \<Rightarrow> [0x263E])"

definition themeLabel :: "theme_mode \<Rightarrow> string" where
  "themeLabel m = (case m of SystemMode \<Rightarrow> ''System'' | LightMode \<Rightarrow> ''Light'' | DarkMode \<Rightarrow> ''Dark'')"

definition sidebar_header :: "ui_colors \<Rightarrow> bool \<Rightarrow> sidebar_action node" where
  "sidebar_header ui closable =
     El ''div'' []
       [(''padding'', S ''12px 16px''), (''fontSize'', S ''11px''), (''fontWeight'', N 600),
        (''letterSpacing'', S ''0.5px''), (''textTransform'', S ''uppercase''),
        (''color'', S (ui_textMuted ui)), (''borderBottom'', S (''1px solid '' @ ui_sidebarBorder ui)),
        (''display'', S ''flex''), (''justifyContent'', S ''space-between''),
        (''alignItems'', S ''center''), (''gap'', N 8)]
       []
       [El ''span'' [] [] [] [words ''Workspaces''],
        El ''div'' [] [(''display'', S ''flex''), (''alignItems'', S ''center''), (''gap'', N 4)] []
          (El ''button'' [(''title'', S ''New Workspace''), (''aria-label'', S ''New Workspace'')]
             [(''background'', S ''none''), (''border'', S ''none''), (''color'', S (ui_textSecondary ui)),
              (''cursor'', S ''pointer''), (''fontSize'', S ''18px''), (''padding'', S ''4px 6px''),
              (''lineHeight'', N 1), (''minHeight'', N 28), (''minWidth'', N 28)]
             [(''click'', does [Sb NewButton])] [words ''+'']
           # shown_if closable
               (El ''button'' [(''title'', S ''Close''), (''aria-label'', S ''Close sidebar'')]
                  [(''background'', S ''none''), (''border'', S ''none''),
                   (''color'', S (ui_textSecondary ui)), (''cursor'', S ''pointer''),
                   (''fontSize'', S ''18px''), (''padding'', S ''4px 8px''), (''lineHeight'', N 1),
                   (''minHeight'', N 28), (''minWidth'', N 28)]
                  [(''click'', does [CloseMobile])] [Text [0xD7]]))]"

definition rename_field :: "ui_colors \<Rightarrow> sidebar \<Rightarrow> row \<Rightarrow> sidebar_action node" where
  "rename_field ui s r =
     El ''input'' [(''value'', S (editName s)), (''autoFocus'', B True)]
       [(''background'', S ''transparent''), (''border'', S (''1px solid '' @ ui_accent ui)),
        (''color'', S (ui_textPrimary ui)), (''fontSize'', S ''13px''), (''fontFamily'', S ''inherit''),
        (''padding'', S ''4px 6px''), (''width'', S ''100%''), (''outline'', S ''none'')]
       [(''change'', \<lambda>d. ([Sb (TypeEdit (ev_value d))], False)),
        (''blur'', does [Sb (RenameBlur (row_id r))]),
        (''keydown'', \<lambda>d. ([Sb (RenameKey (row_id r) (ev_key d))], False)),
        (''click'', stops [])]
       []"

definition row_label :: "ui_colors \<Rightarrow> row \<Rightarrow> sidebar_action node" where
  "row_label ui r =
     El ''div'' [(''title'', S ''Double-click or right-click to rename'')]
       [(''flex'', N 1), (''minWidth'', N 0), (''display'', S ''flex''), (''flexDirection'', S ''column''),
        (''gap'', N 2)]
       [(''dblclick'', stops [Sb (RowDoubleClick (row_id r) (row_name r))])]
       (El ''span'' []
          [(''overflow'', S ''hidden''), (''textOverflow'', S ''ellipsis''), (''whiteSpace'', S ''nowrap'')]
          [] [words (row_name r)]
        # shown_if (truthy (row_cwd r))
            (El ''span'' [(''title'', S (the (row_cwd r)))]
               [(''fontSize'', S ''11px''), (''color'', S (ui_textMuted ui)), (''overflow'', S ''hidden''),
                (''textOverflow'', S ''ellipsis''), (''whiteSpace'', S ''nowrap''),
                (''direction'', S ''rtl''), (''textAlign'', S ''left'')]
               [] [words (the (row_cwd r))]))"

definition row_dot :: "ui_colors \<Rightarrow> sidebar_action node" where
  "row_dot ui =
     El ''span'' [(''aria-label'', S ''unread output''), (''title'', S ''New output in this workspace'')]
       [(''width'', N 6), (''height'', N 6), (''borderRadius'', S ''50%''),
        (''backgroundColor'', S (ui_accent ui)), (''flexShrink'', N 0), (''marginLeft'', N 8)]
       [] []"

definition row_view :: "ui_colors \<Rightarrow> sidebar \<Rightarrow> row \<Rightarrow> sidebar_action node" where
  "row_view ui s r =
     El ''div'' [(''key'', S (row_id r))]
       [(''padding'', S ''10px 16px''), (''cursor'', S ''pointer''),
        (''backgroundColor'', S (if row_active r then (ui_tabActiveBg ui) else ''transparent'')),
        (''color'', S (if row_active r then (ui_textPrimary ui) else (ui_textSecondary ui))),
        (''fontSize'', S ''13px''), (''display'', S ''flex''), (''justifyContent'', S ''space-between''),
        (''alignItems'', S ''center''), (''minHeight'', N 40)]
       [(''click'', does [Sb (RowClick (row_id r))]),
        (''contextmenu'', \<lambda>d. ([Sb (RowMenu (ev_x d) (ev_y d) (row_id r))], True))]
       ((if editingId s = Some (row_id r) then rename_field ui s r else row_label ui r)
        # shown_if (row_unread r) (row_dot ui))"

definition create_field :: "ui_colors \<Rightarrow> sidebar \<Rightarrow> sidebar_action node" where
  "create_field ui s =
     El ''div'' [] [(''padding'', S ''4px 16px'')] []
       [El ''input''
          [(''value'', S (newName s)), (''autoFocus'', B True), (''placeholder'', S ''Workspace name...'')]
          [(''width'', S ''100%''), (''background'', S ''transparent''),
           (''border'', S (''1px solid '' @ ui_accent ui)), (''color'', S (ui_textPrimary ui)),
           (''fontSize'', S ''13px''), (''fontFamily'', S ''inherit''), (''padding'', S ''8px 10px''),
           (''outline'', S ''none''), (''boxSizing'', S ''border-box'')]
          [(''change'', \<lambda>d. ([Sb (TypeNew (ev_value d))], False)),
           (''keydown'', \<lambda>d. ([Sb (CreateKey (ev_key d))], False)),
           (''blur'', does [Sb CreateBlur])]
          []]"

definition sidebar_footer :: "ui_colors \<Rightarrow> theme_mode \<Rightarrow> sidebar_action node" where
  "sidebar_footer ui mode =
     El ''div'' []
       [(''padding'', S ''10px 12px''), (''borderTop'', S (''1px solid '' @ ui_sidebarBorder ui)),
        (''fontSize'', S ''11px''), (''color'', S (ui_textMuted ui)), (''display'', S ''flex''),
        (''alignItems'', S ''center''), (''justifyContent'', S ''space-between''), (''gap'', N 8)]
       []
       [El ''span'' []
          [(''overflow'', S ''hidden''), (''textOverflow'', S ''ellipsis''), (''whiteSpace'', S ''nowrap'')]
          [] [words ''LociTerm''],
        El ''button''
          [(''title'', S (''Theme: '' @ themeLabel mode @ '' (click to change)'')),
           (''aria-label'', S (''Theme: '' @ themeLabel mode @ '', click to change''))]
          [(''background'', S ''transparent''), (''border'', S (''1px solid '' @ ui_sidebarBorder ui)),
           (''borderRadius'', N 4), (''color'', S (ui_textSecondary ui)), (''cursor'', S ''pointer''),
           (''fontFamily'', S ''inherit''), (''fontSize'', N 11), (''padding'', S ''4px 8px''),
           (''display'', S ''flex''), (''alignItems'', S ''center''), (''gap'', N 6), (''minHeight'', N 28)]
          [(''click'', does [CycleMode])]
          [El ''span'' [(''aria-hidden'', B True)] [] [] [Text (themeIcon mode)],
           El ''span'' [] [] [] [words (themeLabel mode)]]]"

definition menu_rename_item :: "ui_colors \<Rightarrow> sidebar_action node" where
  "menu_rename_item ui =
     El ''button'' []
       [(''display'', S ''block''), (''width'', S ''100%''), (''padding'', S ''8px 12px''),
        (''background'', S ''none''), (''border'', S ''none''), (''color'', S (ui_textPrimary ui)),
        (''cursor'', S ''pointer''), (''textAlign'', S ''left''), (''fontFamily'', S ''inherit''),
        (''fontSize'', S ''inherit'')]
       [(''click'', does [Sb MenuRename]),
        (''mouseenter'', does [TargetBackground (ui_hoverBg ui)]),
        (''mouseleave'', does [TargetBackground ''transparent''])]
       [words ''Rename'']"

definition menu_delete_item :: "ui_colors \<Rightarrow> sidebar_action node" where
  "menu_delete_item ui =
     El ''button'' []
       [(''display'', S ''block''), (''width'', S ''100%''), (''padding'', S ''8px 12px''),
        (''background'', S ''none''), (''border'', S ''none''), (''color'', S (ui_danger ui)),
        (''cursor'', S ''pointer''), (''textAlign'', S ''left''), (''fontFamily'', S ''inherit''),
        (''fontSize'', S ''inherit'')]
       [(''click'', does [Sb MenuDelete]),
        (''mouseenter'', does [TargetBackground (ui_hoverBg ui)]),
        (''mouseleave'', does [TargetBackground ''transparent''])]
       [words ''Delete'']"

definition menu_view :: "ui_colors \<Rightarrow> nat \<Rightarrow> context_menu \<Rightarrow> sidebar_action node" where
  "menu_view ui nworkspaces m =
     El ''div'' [(''ref'', S ''menuRef'')]
       [(''position'', S ''fixed''), (''left'', N (of_int (menu_x m))), (''top'', N (of_int (menu_y m))),
        (''backgroundColor'', S (ui_tabActiveBg ui)),
        (''border'', S (''1px solid '' @ ui_sidebarBorder ui)), (''zIndex'', N 1000),
        (''minWidth'', S ''140px''), (''fontFamily'', S MONO), (''fontSize'', S ''12px'')]
       []
       (menu_rename_item ui # shown_if (1 < nworkspaces) (menu_delete_item ui))"

definition Sidebar :: "ui_colors \<Rightarrow> theme_mode \<Rightarrow> bool \<Rightarrow> sidebar \<Rightarrow> sidebar_action node" where
  "Sidebar ui mode closable s =
     (let st = store (world (sb_app s)) in
      El ''div'' []
        [(''width'', S ''100%''), (''height'', S ''100%''), (''backgroundColor'', S (ui_sidebarBg ui)),
         (''borderRight'', S (''1px solid '' @ ui_sidebarBorder ui)), (''display'', S ''flex''),
         (''flexDirection'', S ''column''), (''fontFamily'', S MONO)]
        []
        ([sidebar_header ui closable,
          El ''div'' [] [(''flex'', N 1), (''overflow'', S ''auto''), (''padding'', S ''4px 0'')] []
            (map (row_view ui s) (sidebar_rows st) @ shown_if (creating s) (create_field ui s)),
          sidebar_footer ui mode]
         @ (case contextMenu s of None \<Rightarrow> [] | Some m \<Rightarrow> [menu_view ui (length (workspaces st)) m])))"

section \<open>What the markup offers\<close>

text \<open>The events that the elements of the sidebar can cause; the others come from the document and the store.\<close>

fun from_markup :: "sidebar_event \<Rightarrow> bool" where
  "from_markup (PageMouseDown b) = False"
| "from_markup (StoreReply n rs) = False"
| "from_markup (StoreReject n) = False"
| "from_markup (StoreEvent e) = False"
| "from_markup _ = True"

lemma offered_header: "Sb e \<in> offered (sidebar_header ui closable) \<longleftrightarrow> e = NewButton"
  by (auto simp: sidebar_header_def)

lemma offered_footer: "Sb e \<notin> offered (sidebar_footer ui mode)"
  by (auto simp: sidebar_footer_def)

lemma offered_rename: "Sb e \<in> offered (rename_field ui s r) \<longleftrightarrow>
    (\<exists>v. e = TypeEdit v) \<or> e = RenameBlur (row_id r) \<or> (\<exists>k. e = RenameKey (row_id r) k)"
  by (auto simp: rename_field_def)

lemma offered_label: "Sb e \<in> offered (row_label ui r) \<longleftrightarrow> e = RowDoubleClick (row_id r) (row_name r)"
  by (auto simp: row_label_def)

lemma offered_row_dot: "offered (row_dot ui) = {}"
  by (simp add: row_dot_def)

lemma offered_row: "Sb e \<in> offered (row_view ui s r) \<longleftrightarrow>
    e = RowClick (row_id r) \<or> (\<exists>x y. e = RowMenu x y (row_id r))
    \<or> (if editingId s = Some (row_id r)
       then (\<exists>v. e = TypeEdit v) \<or> e = RenameBlur (row_id r) \<or> (\<exists>k. e = RenameKey (row_id r) k)
       else e = RowDoubleClick (row_id r) (row_name r))"
  by (auto simp: row_view_def offered_rename offered_label offered_row_dot)

lemma offered_create: "Sb e \<in> offered (create_field ui s) \<longleftrightarrow>
    (\<exists>v. e = TypeNew v) \<or> (\<exists>k. e = CreateKey k) \<or> e = CreateBlur"
  by (auto simp: create_field_def)

lemma offered_menu: "Sb e \<in> offered (menu_view ui n m) \<longleftrightarrow> e = MenuRename \<or> (e = MenuDelete \<and> 1 < n)"
  by (auto simp: menu_view_def menu_rename_item_def menu_delete_item_def)

lemma find_row_iff: "(\<exists>y. find_row wid s = Some y) \<longleftrightarrow>
    (\<exists>w \<in> set (workspaces (store (world (sb_app s)))). ws_id w = wid)"
  unfolding not_None_eq [symmetric] find_row_def find_None_iff by blast

lemma offered_Sidebar: "Sb e \<in> offered (Sidebar ui mode closable s) \<longleftrightarrow>
    e = NewButton \<or> (\<exists>w \<in> set (workspaces (store (world (sb_app s)))).
      Sb e \<in> offered (row_view ui s (row_of (store (world (sb_app s))) w)))
    \<or> (creating s \<and> Sb e \<in> offered (create_field ui s))
    \<or> (\<exists>m. contextMenu s = Some m
        \<and> Sb e \<in> offered (menu_view ui (length (workspaces (store (world (sb_app s))))) m))"
  by (auto simp: Sidebar_def Let_def offered_header offered_footer sidebar_rows_def split: option.split)

lemma row_of_simps: "row_id (row_of st w) = ws_id w" "row_name (row_of st w) = ws_name w"
  by (simp_all add: row_of_def Let_def)

text \<open>
  C39: The rendered sidebar and the machine of the sidebar agree: an element offers an event exactly when
  the machine enables it. There are rows for the workspaces of the store, the field of a row only while that
  row is edited (and then nothing to double-click), the field of a new workspace only while one is created, the
  entry for deleting only if there is another workspace.
\<close>
theorem sidebar_offers_enabled:
  "Sb e \<in> offered (Sidebar ui mode closable s) \<longleftrightarrow> from_markup e \<and> sidebar_enabled e s"
  unfolding offered_Sidebar offered_row offered_create offered_menu row_of_simps
  by (cases e) (simp_all add: find_row_iff, auto simp: find_row_iff)

end
