(* ===== verification/ToastUi.thy ===== *)
theory ToastUi
  imports AppAlerts
begin

text \<open>
  The stack of toasts on the page (\<open>frontend/src/components/Toast/ToastContainer.tsx\<close>). Each item arms a timer
  that dismisses its toast. The container is rendered again when the toasts or the active workspace of the
  store change, when the theme does, and whenever its parent \<open>App\<close> is rendered, for it is not memoized; it
  gives every item a new \<open>onDismiss\<close> then, so that the effect of each item cancels its timer and arms a new
  one. A render for another reason than the store is the event \<open>ThemeRender\<close>, which is always possible.
\<close>

definition TOAST_DURATION_MS :: int where "TOAST_DURATION_MS = 6000"

record toast_ui =
  shown_toasts :: "toast list"
  shownWorkspace :: "string option"
  itemTimers :: "(string \<times> nat) list"
  toastQueue :: "string timers"
  ui_app :: app_sys

definition ui_store :: "toast_ui \<Rightarrow> app_state" where
  "ui_store s = store (world (ui_app s))"

definition ui_clock :: "toast_ui \<Rightarrow> int" where
  "ui_clock s = clock (world (ui_app s))"

text \<open>The effects of the items: the cleanups of the old ones, then the new ones.\<close>

definition clear_items :: "(string \<times> nat) list \<Rightarrow> string timers \<Rightarrow> string timers" where
  "clear_items items q = fold (\<lambda>p. clear_timeout (Some (snd p))) items q"

fun arm_items :: "int \<Rightarrow> toast list \<Rightarrow> string timers \<Rightarrow> (string \<times> nat) list \<times> string timers" where
  "arm_items now [] q = ([], q)"
| "arm_items now (t # ts) q =
     (let (n, q1) = set_timeout now TOAST_DURATION_MS (toast_id t) q; (items, q2) = arm_items now ts q1
      in ((toast_id t, n) # items, q2))"

definition render_toasts :: "toast_ui \<Rightarrow> toast_ui" where
  "render_toasts s =
     (let (items, q) = arm_items (ui_clock s) (toasts (ui_store s)) (clear_items (itemTimers s) (toastQueue s))
      in s\<lparr>shown_toasts := toasts (ui_store s), shownWorkspace := activeWorkspaceId (ui_store s),
           itemTimers := items, toastQueue := q\<rparr>)"

text \<open>
  A change of the store renders the container if one of the two slices it reads has changed. (If it renders
  \<open>App\<close>, the container is rendered too: then a \<open>ThemeRender\<close> follows.)
\<close>

definition after_store :: "(app_sys \<Rightarrow> app_sys) \<Rightarrow> toast_ui \<Rightarrow> toast_ui" where
  "after_store f s =
     (let s' = s\<lparr>ui_app := f (ui_app s)\<rparr> in
      if toasts (ui_store s') = shown_toasts s' \<and> activeWorkspaceId (ui_store s') = shownWorkspace s' then s'
      else render_toasts s')"

definition toast_timeout :: "nat \<Rightarrow> toast_ui \<Rightarrow> toast_ui" where
  "toast_timeout n s =
     (case timer_lookup (toastQueue s) n of
        None \<Rightarrow> s
      | Some (due, tid) \<Rightarrow>
          after_store (on_world (dismissToast tid)) (s\<lparr>toastQueue := clear_timeout (Some n) (toastQueue s)\<rparr>))"

datatype toast_event = ToastStore app_event | ThemeRender | ToastTimer nat

fun toast_enabled :: "toast_event \<Rightarrow> toast_ui \<Rightarrow> bool" where
  "toast_enabled (ToastStore e) s =
     (enabled e (ui_app s)
      \<and> (case e of Act (ToastClick t w) \<Rightarrow> t \<in> set (shown_toasts s) \<and> w = shownWorkspace s | _ \<Rightarrow> True))"
| "toast_enabled ThemeRender s = True"
| "toast_enabled (ToastTimer n) s =
     (case timer_lookup (toastQueue s) n of None \<Rightarrow> False | Some (due, tid) \<Rightarrow> due \<le> ui_clock s)"

fun toast_exec :: "toast_event \<Rightarrow> toast_ui \<Rightarrow> toast_ui" where
  "toast_exec (ToastStore e) s = after_store (exec_event e) s"
| "toast_exec ThemeRender s = render_toasts s"
| "toast_exec (ToastTimer n) s = toast_timeout n s"

definition toast_step :: "toast_ui \<Rightarrow> toast_event \<Rightarrow> toast_ui \<Rightarrow> bool" where
  "toast_step s e s' \<longleftrightarrow> toast_enabled e s \<and> s' = toast_exec e s"

fun run_toasts :: "toast_event list \<Rightarrow> toast_ui \<Rightarrow> toast_ui option" where
  "run_toasts [] s = Some s"
| "run_toasts (e # es) s = (if toast_enabled e s then run_toasts es (toast_exec e s) else None)"

lemma run_toasts_iff: "run_toasts es s = Some s' \<longleftrightarrow> run_path toast_step s es s'"
  by (induction es arbitrary: s) (auto simp: run_path_Cons toast_step_def)

definition toast_start :: "toast_ui \<Rightarrow> bool" where
  "toast_start s \<longleftrightarrow> app_start (ui_app s) \<and> shown_toasts s = [] \<and> shownWorkspace s = None
     \<and> itemTimers s = [] \<and> toastQueue s = no_timers"

section \<open>The invariant\<close>

text \<open>The timers of the items, all due at \<open>D\<close>.\<close>

definition due_at :: "int \<Rightarrow> (string \<times> nat) list \<Rightarrow> (nat \<times> int \<times> string) list" where
  "due_at D items = map (\<lambda>p. (snd p, D, fst p)) items"

definition items_ok :: "int \<Rightarrow> toast_ui \<Rightarrow> bool" where
  "items_ok D s \<longleftrightarrow> pending (toastQueue s) = due_at D (itemTimers s)
     \<and> map fst (itemTimers s) = map toast_id (shown_toasts s) \<and> distinct (map snd (itemTimers s))
     \<and> D \<le> ui_clock s + TOAST_DURATION_MS"

definition toast_ui_inv :: "toast_ui \<Rightarrow> bool" where
  "toast_ui_inv s \<longleftrightarrow> sys_inv (ui_app s) \<and> shown_toasts s = toasts (ui_store s)
     \<and> shownWorkspace s = activeWorkspaceId (ui_store s) \<and> (\<exists>D. items_ok D s)"

lemma clear_items_pending:
  "pending (clear_items items q) = filter (\<lambda>p. fst p \<notin> snd ` set items) (pending q)"
  by (induction items arbitrary: q) (auto simp: clear_items_def clear_timeout_def filter_filter intro: filter_cong)

lemma arm_items_pending:
  assumes "arm_items now ts q = (items, q')"
  shows "pending q' = pending q @ due_at (now + TOAST_DURATION_MS) items \<and> map fst items = map toast_id ts
    \<and> distinct (map snd items) \<and> (\<forall>n \<in> snd ` set items. next_timer q \<le> n)"
  using assms
proof (induction ts arbitrary: q items q')
  case (Cons t ts)
  define q1 where "q1 = snd (set_timeout now TOAST_DURATION_MS (toast_id t) q)"
  obtain its q2 where r: "arm_items now ts q1 = (its, q2)" by fastforce
  have "items = (toast_id t, next_timer q) # its" "q' = q2"
    using Cons.prems r by (simp_all add: set_timeout_def q1_def)
  with Cons.IH [OF r] show ?case by (force simp: q1_def set_timeout_def due_at_def)
qed (simp add: due_at_def)

lemma render_ok:
  assumes "snd ` set (itemTimers s) \<supseteq> fst ` set (pending (toastQueue s))" and "sys_inv (ui_app s)"
  shows "toast_ui_inv (render_toasts s)" and "items_ok (ui_clock s + TOAST_DURATION_MS) (render_toasts s)"
proof -
  let ?q = "clear_items (itemTimers s) (toastQueue s)"
  obtain items q where r: "arm_items (ui_clock s) (toasts (ui_store s)) ?q = (items, q)" by fastforce
  have "pending ?q = []" using assms(1) by (force simp: clear_items_pending filter_empty_conv)
  with arm_items_pending [OF r] r show ok: "items_ok (ui_clock s + TOAST_DURATION_MS) (render_toasts s)"
    by (simp add: render_toasts_def items_ok_def ui_clock_def)
  then show "toast_ui_inv (render_toasts s)"
    using r assms(2) by (auto simp: toast_ui_inv_def render_toasts_def ui_store_def)
qed

lemma clock_op: "world_op w w' \<Longrightarrow> clock w' = clock w"
  by (induction rule: world_op.induct)
   (simp_all add: same_alerts_def setActiveSession_def clearSessionUnread_def dismissToast_def
     setActiveWorkspace_set_def deleteWorkspace_set_def deleteSession_set_def Let_def)

lemma clock_ops: "world_ops w w' \<Longrightarrow> clock w' = clock w"
  by (induction rule: rtranclp.induct) (auto dest: clock_op)

lemma clock_fire [simp]: "clock (fire_idle i w) = clock w"
  by (simp add: fire_idle_def idle_callback_def Let_def split: option.split)

lemma clock_visibility [simp]: "clock (onVisibility v w) = clock w"
  by (simp add: onVisibility_def clearSessionUnread_def Let_def)

lemma clock_step: "app_step y e y' \<Longrightarrow> clock (world y) \<le> clock (world y')"
  using step_world [of y e y'] by (cases e) (auto dest: clock_ops)

lemma after_store_inv:
  assumes "snd ` set (itemTimers s) \<supseteq> fst ` set (pending (toastQueue s))" and "sys_inv (f (ui_app s))"
    and "toasts (store (world (f (ui_app s)))) \<noteq> shown_toasts s
      \<or> activeWorkspaceId (store (world (f (ui_app s)))) \<noteq> shownWorkspace s \<or> items_ok D (s\<lparr>ui_app := f (ui_app s)\<rparr>)"
  shows "toast_ui_inv (after_store f s)"
  using assms render_ok(1) [of "s\<lparr>ui_app := f (ui_app s)\<rparr>"]
  by (auto simp: after_store_def Let_def toast_ui_inv_def ui_store_def)

lemma items_pending: "items_ok D s \<Longrightarrow> fst ` set (pending (toastQueue s)) \<subseteq> snd ` set (itemTimers s)"
  by (force simp: items_ok_def due_at_def)

text \<open>The timer of a shown toast, and what its firing does.\<close>

lemma item_lookup:
  assumes "items_ok D s"
  shows "timer_lookup (toastQueue s) n = Some (d, tid) \<longleftrightarrow> d = D \<and> (tid, n) \<in> set (itemTimers s)"
proof -
  have "distinct (map fst (due_at D (itemTimers s)))"
    using assms by (simp add: items_ok_def due_at_def comp_def)
  then have "timer_lookup (toastQueue s) n = Some (d, tid) \<longleftrightarrow> (n, d, tid) \<in> set (due_at D (itemTimers s))"
    using assms by (simp add: timer_lookup_def items_ok_def)
  then show ?thesis by (force simp: due_at_def)
qed

lemma items_ids: "items_ok D s \<Longrightarrow> fst ` set (itemTimers s) = toast_id ` set (shown_toasts s)"
  unfolding items_ok_def by (metis list.set_map)

lemma item_shown: "items_ok D s \<Longrightarrow> (tid, n) \<in> set (itemTimers s) \<Longrightarrow> tid \<in> toast_id ` set (shown_toasts s)"
  using items_ids [of D s] by force

lemma shown_item:
  assumes "items_ok D s" and "t \<in> set (shown_toasts s)"
  shows "\<exists>n. (toast_id t, n) \<in> set (itemTimers s)"
proof -
  have "toast_id t \<in> fst ` set (itemTimers s)" using items_ids [OF assms(1)] assms(2) by simp
  then show ?thesis by force
qed

lemma toasts_dismiss: "toasts (store (dismissToast tid w)) = filter (\<lambda>t. toast_id t \<noteq> tid) (toasts (store w))"
  by (auto simp: dismissToast_def Let_def list_ex_iff filter_id_conv)

lemma timeout_effect:
  assumes "toast_ui_inv s" and "timer_lookup (toastQueue s) n = Some (d, tid)"
  shows "toast_ui_inv (toast_timeout n s)"
    and "toasts (ui_store (toast_timeout n s)) = filter (\<lambda>t. toast_id t \<noteq> tid) (toasts (ui_store s))"
proof -
  obtain D where ok: "items_ok D s" and sh: "shown_toasts s = toasts (ui_store s)" and sys: "sys_inv (ui_app s)"
    using assms(1) by (auto simp: toast_ui_inv_def)
  let ?s = "s\<lparr>toastQueue := clear_timeout (Some n) (toastQueue s)\<rparr>" and ?f = "on_world (dismissToast tid)"
  have e: "toast_timeout n s = after_store ?f ?s" using assms(2) by (simp add: toast_timeout_def)
  have "tid \<in> toast_id ` set (shown_toasts s)" using item_shown [OF ok] item_lookup [OF ok] assms(2) by blast
  then have ch: "toasts (store (world (?f (ui_app ?s)))) \<noteq> shown_toasts ?s"
    using sh by (auto simp: on_world_def toasts_dismiss ui_store_def filter_id_conv)
  have "fst ` set (pending (toastQueue ?s)) \<subseteq> snd ` set (itemTimers ?s)"
    using items_pending [OF ok] by (auto simp: clear_timeout_def)
  moreover have "sys_inv (?f (ui_app ?s))" using sys by (auto intro: sys_inv_on_world app_inv_dismissToast)
  ultimately show "toast_ui_inv (toast_timeout n s)"
    unfolding e using ch after_store_inv by blast
  show "toasts (ui_store (toast_timeout n s)) = filter (\<lambda>t. toast_id t \<noteq> tid) (toasts (ui_store s))"
    unfolding e by (simp add: after_store_def Let_def ui_store_def on_world_def toasts_dismiss render_toasts_def split_def)
qed

lemma toast_ui_step:
  assumes "toast_ui_inv s" and "toast_step s e t"
  shows "toast_ui_inv t"
proof -
  obtain D where ok: "items_ok D s" and sys: "sys_inv (ui_app s)"
    using assms(1) by (auto simp: toast_ui_inv_def)
  have en: "toast_enabled e s" and t: "t = toast_exec e s" using assms(2) by (auto simp: toast_step_def)
  show ?thesis
  proof (cases e)
    case (ToastStore a)
    with en have st: "app_step (ui_app s) a (exec_event a (ui_app s))" by (simp add: app_step_iff)
    have "items_ok D (s\<lparr>ui_app := exec_event a (ui_app s)\<rparr>)"
      using ok clock_step [OF st] by (simp add: items_ok_def ui_clock_def)
    with after_store_inv [where f = "exec_event a" and s = s and D = D] items_pending [OF ok] sys_inv_step [OF sys st]
      t ToastStore show ?thesis by simp
  next
    case ThemeRender
    with t render_ok(1) [OF items_pending [OF ok] sys] show ?thesis by simp
  next
    case (ToastTimer n)
    with en obtain d tid where "timer_lookup (toastQueue s) n = Some (d, tid)" by (auto split: option.splits)
    from timeout_effect(1) [OF assms(1) this] t ToastTimer show ?thesis by simp
  qed
qed

lemma toast_ui_start: "toast_start s \<Longrightarrow> toast_ui_inv s"
  using sys_inv_start [of "ui_app s"]
  by (auto simp: toast_start_def toast_ui_inv_def ui_store_def app_start_def initial_state_def items_ok_def due_at_def
      no_timers_def TOAST_DURATION_MS_def intro!: exI [of _ "ui_clock s"])

interpretation tui: invariant_machine toast_start toast_step toast_ui_inv
  by unfold_locales (rule toast_ui_start toast_ui_step; assumption)+

text \<open>A run in which a burst of output in the background ends with a toast.\<close>

definition toast_sample :: toast_ui where
  "toast_sample = \<lparr>shown_toasts = [], shownWorkspace = None, itemTimers = [], toastQueue = no_timers,
     ui_app = sample_start\<rparr>"

definition alert_events :: "toast_event list" where
  "alert_events = map ToastStore (load_events @ busy_events @ [FireIdle 2])"

definition alerted :: toast_ui where
  "alerted = the (run_toasts alert_events toast_sample)"

lemma reach_alerted: "reach toast_start toast_step alerted"
proof -
  have "run_toasts alert_events toast_sample \<noteq> None" by code_simp
  then have "run_path toast_step toast_sample alert_events alerted"
    by (auto simp: alerted_def simp flip: run_toasts_iff)
  then show ?thesis
    by (rule run_path_reach) (rule reach_start, simp add: toast_start_def toast_sample_def app_start_sample)
qed

section \<open>Properties\<close>

text \<open>
  C36: The page shows the toasts of the store, each with exactly one pending timer, which dismisses it, and all
  of them are due at the same time, at most 6 s ahead: whenever the stack changes, every toast gets its 6 s
  anew. So while alerts keep coming more often than every 6 s, no toast goes away by itself.
\<close>
theorem toast_timers:
  assumes "reach toast_start toast_step s" and "toast_step s e s'"
  shows "shown_toasts s = toasts (ui_store s)
    \<and> (\<exists>D \<le> ui_clock s + 6000. map (\<lambda>p. snd (snd p)) (pending (toastQueue s)) = map toast_id (toasts (ui_store s))
        \<and> (\<forall>n d tid. (n, d, tid) \<in> set (pending (toastQueue s)) \<longrightarrow> d = D))
    \<and> (toasts (ui_store s') \<noteq> toasts (ui_store s) \<longrightarrow>
        (\<forall>n d tid. (n, d, tid) \<in> set (pending (toastQueue s')) \<longrightarrow> d = ui_clock s' + 6000))"
proof -
  have inv: "toast_ui_inv s" using tui.reach_inv [OF assms(1)] .
  then obtain D where ok: "items_ok D s" and sh: "shown_toasts s = toasts (ui_store s)" and sys: "sys_inv (ui_app s)"
    by (auto simp: toast_ui_inv_def)
  have en: "toast_enabled e s" and s': "s' = toast_exec e s" using assms(2) by (auto simp: toast_step_def)
  have due: "d = ui_clock u + 6000" if "items_ok (ui_clock v + TOAST_DURATION_MS) (render_toasts v)" "u = render_toasts v"
    "(n, d, tid) \<in> set (pending (toastQueue u))" for u v n d tid
    using that by (auto simp: items_ok_def due_at_def TOAST_DURATION_MS_def ui_clock_def render_toasts_def split_def Let_def)
  have rend: "d = ui_clock (after_store f v) + 6000"
    if "sys_inv (f (ui_app v))" "fst ` set (pending (toastQueue v)) \<subseteq> snd ` set (itemTimers v)"
      "shown_toasts v = toasts (ui_store s)" "toasts (ui_store (after_store f v)) \<noteq> toasts (ui_store s)"
      "(n, d, tid) \<in> set (pending (toastQueue (after_store f v)))" for f v n d tid
  proof -
    let ?v = "v\<lparr>ui_app := f (ui_app v)\<rparr>"
    have "after_store f v = render_toasts ?v"
      using that(3,4) by (auto simp: after_store_def Let_def ui_store_def split: if_splits)
    moreover have "items_ok (ui_clock ?v + TOAST_DURATION_MS) (render_toasts ?v)"
      by (rule render_ok(2)) (use that in simp_all)
    ultimately show ?thesis using due [of ?v] that(5) by simp
  qed
  have "d = ui_clock s' + 6000" if ch: "toasts (ui_store s') \<noteq> toasts (ui_store s)"
    and p: "(n, d, tid) \<in> set (pending (toastQueue s'))" for n d tid
  proof (cases e)
    case (ToastStore a)
    with en have st: "app_step (ui_app s) a (exec_event a (ui_app s))" by (simp add: app_step_iff)
    show ?thesis
      using rend [where f = "exec_event a" and v = s] sys_inv_step [OF sys st] items_pending [OF ok] sh ch p s' ToastStore
      by simp
  next
    case ThemeRender
    with ch s' show ?thesis by (simp add: render_toasts_def ui_store_def split_def Let_def)
  next
    case (ToastTimer k)
    with en obtain x tid' where l: "timer_lookup (toastQueue s) k = Some (x, tid')" by (auto split: option.splits)
    let ?v = "s\<lparr>toastQueue := clear_timeout (Some k) (toastQueue s)\<rparr>"
    have "s' = after_store (on_world (dismissToast tid')) ?v" using s' ToastTimer l by (simp add: toast_timeout_def)
    moreover have "fst ` set (pending (toastQueue ?v)) \<subseteq> snd ` set (itemTimers ?v)"
      using items_pending [OF ok] by (auto simp: clear_timeout_def)
    moreover have "sys_inv (on_world (dismissToast tid') (ui_app ?v))"
      using sys by (auto intro: sys_inv_on_world app_inv_dismissToast)
    ultimately show ?thesis using rend [of "on_world (dismissToast tid')" ?v] sh ch p by simp
  qed
  moreover have "map (\<lambda>p. snd (snd p)) (pending (toastQueue s)) = map toast_id (toasts (ui_store s))"
    using ok sh by (simp add: items_ok_def due_at_def comp_def)
  moreover have "\<forall>n d tid. (n, d, tid) \<in> set (pending (toastQueue s)) \<longrightarrow> d = D" "D \<le> ui_clock s + 6000"
    using ok by (auto simp: items_ok_def due_at_def TOAST_DURATION_MS_def)
  ultimately show ?thesis using sh by blast
qed

theorem toast_timers_witness:
  "map (\<lambda>p. snd (snd p)) (pending (toastQueue alerted)) = map toast_id (toasts (ui_store alerted))
   \<and> length (toasts (ui_store alerted)) = 1"
proof -
  have "toast_step alerted ThemeRender (toast_exec ThemeRender alerted)" by (simp add: toast_step_def)
  note toast_timers [OF reach_alerted this]
  moreover have "length (toasts (ui_store alerted)) = 1" by code_simp
  ultimately show ?thesis by blast
qed

text \<open>
  C37: A toast that is left alone goes away: from any state in which it is shown, 6 s of silence make its timer
  due, and the timer removes this toast and no other.
\<close>
theorem toast_expires:
  assumes "reach toast_start toast_step s" and "t \<in> set (toasts (ui_store s))"
  shows "\<exists>n s'. run_path toast_step s [ToastStore (Tick 6000), ToastTimer n] s'
    \<and> toasts (ui_store s') = filter (\<lambda>x. toast_id x \<noteq> toast_id t) (toasts (ui_store s))"
proof -
  let ?e = "ToastStore (Tick 6000)"
  let ?u = "toast_exec ?e s"
  have inv: "toast_ui_inv s" using tui.reach_inv [OF assms(1)] .
  then obtain D where ok: "items_ok D s" and sh: "shown_toasts s = toasts (ui_store s)"
    "shownWorkspace s = activeWorkspaceId (ui_store s)" by (auto simp: toast_ui_inv_def)
  then obtain n where n: "(toast_id t, n) \<in> set (itemTimers s)" using shown_item assms(2) by metis
  have u: "?u = s\<lparr>ui_app := exec_event (Tick 6000) (ui_app s)\<rparr>"
    using sh by (simp add: after_store_def ui_store_def on_world_def)
  have l: "timer_lookup (toastQueue ?u) n = Some (D, toast_id t)"
    using item_lookup [OF ok, of n D "toast_id t"] n u by simp
  have s1: "toast_step s ?e ?u" by (simp add: toast_step_def)
  have "D \<le> ui_clock ?u" using ok u by (simp add: items_ok_def ui_clock_def TOAST_DURATION_MS_def on_world_def)
  with l have s2: "toast_step ?u (ToastTimer n) (toast_exec (ToastTimer n) ?u)"
    by (simp add: toast_step_def)
  have "toasts (ui_store ?u) = toasts (ui_store s)" using u by (simp add: ui_store_def on_world_def)
  with timeout_effect(2) [OF toast_ui_step [OF inv s1] l]
  have "toasts (ui_store (toast_exec (ToastTimer n) ?u)) = filter (\<lambda>x. toast_id x \<noteq> toast_id t) (toasts (ui_store s))"
    by simp
  with s1 s2 show ?thesis by (metis run_cons run_nil)
qed

theorem toast_expires_witness:
  "\<exists>n s'. run_path toast_step alerted [ToastStore (Tick 6000), ToastTimer n] s' \<and> toasts (ui_store s') = []"
proof -
  obtain t where t: "toasts (ui_store alerted) = [t]"
  proof -
    have "length (toasts (ui_store alerted)) = 1" by code_simp
    then show ?thesis using that by (cases "toasts (ui_store alerted)") auto
  qed
  then have "t \<in> set (toasts (ui_store alerted))" by simp
  from toast_expires [OF reach_alerted this] t show ?thesis by simp
qed

end
