(* ===== verification/ToastView.thy ===== *)
theory ToastView
  imports View ToastUi Theme
begin

text \<open>
  The rendered stack of toasts (\<open>frontend/src/components/Toast/ToastContainer.tsx\<close>). Each item keeps whether
  the pointer is over it; \<open>hovered\<close> gives that for the id of a toast.
\<close>

datatype toast_action = Tst toast_event | SetHovered bool

definition toast_close :: "ui_colors \<Rightarrow> toast_event \<Rightarrow> toast_action node" where
  "toast_close ui dismiss =
     El ''button'' [(''aria-label'', S ''Dismiss''), (''title'', S ''Dismiss'')]
       [(''flexShrink'', N 0), (''width'', N 20), (''height'', N 20), (''padding'', N 0),
        (''background'', S ''transparent''), (''border'', S ''none''), (''color'', S (ui_textMuted ui)),
        (''fontSize'', N 16), (''lineHeight'', N 1), (''fontFamily'', S ''inherit''),
        (''cursor'', S ''pointer''), (''borderRadius'', N 3)]
       [(''click'', stops [Tst dismiss])]
       [Text [0xD7]]"

definition ToastItem :: "ui_colors \<Rightarrow> toast \<Rightarrow> toast_event \<Rightarrow> toast_event \<Rightarrow> bool \<Rightarrow> toast_action node" where
  "ToastItem ui t dismiss open_it hovered =
     El ''div'' [(''key'', S (toast_id t)), (''role'', S ''alert'')]
       [(''pointerEvents'', S ''auto''), (''backgroundColor'', S (ui_tabActiveBg ui)),
        (''border'', S (''1px solid '' @ ui_sidebarBorder ui)),
        (''borderLeft'', S (''3px solid '' @ ui_accent ui)), (''borderRadius'', N 6),
        (''boxShadow'', S ''0 6px 20px rgba(0, 0, 0, 0.28)''), (''color'', S (ui_textPrimary ui)),
        (''fontFamily'', S MONO), (''fontSize'', N 12), (''lineHeight'', N (7 / 5)),
        (''padding'', S ''10px 12px''), (''display'', S ''flex''), (''alignItems'', S ''flex-start''),
        (''gap'', N 10), (''cursor'', S ''pointer''), (''opacity'', N (if hovered then 1 else (24 / 25))),
        (''transition'', S ''opacity 120ms ease'')]
       [(''click'', does [Tst open_it]),
        (''mouseenter'', does [SetHovered True]), (''mouseleave'', does [SetHovered False])]
       [El ''div'' [] [(''flex'', N 1), (''minWidth'', N 0)] []
          [El ''div'' [(''title'', S (toast_sessionTitle t))]
             [(''fontWeight'', N 600), (''color'', S (ui_textPrimary ui)), (''overflow'', S ''hidden''),
              (''textOverflow'', S ''ellipsis''), (''whiteSpace'', S ''nowrap'')]
             []
             [words (if toast_sessionTitle t \<noteq> [] then toast_sessionTitle t else ''Terminal'')],
           El ''div'' [] [(''color'', S (ui_textSecondary ui)), (''marginTop'', N 2)] []
             [words ''Output finished'']],
        toast_close ui dismiss]"

definition ToastContainer :: "ui_colors \<Rightarrow> (string \<Rightarrow> bool) \<Rightarrow> toast_ui \<Rightarrow> toast_action node option" where
  "ToastContainer ui hovered s =
     (if shown_toasts s = [] then None
      else Some
        (El ''div'' []
           [(''position'', S ''fixed''), (''top'', N 16), (''right'', N 16), (''display'', S ''flex''),
            (''flexDirection'', S ''column''), (''gap'', N 8), (''zIndex'', N 1100),
            (''pointerEvents'', S ''none''), (''maxWidth'', N 320)]
           []
           (map (\<lambda>t. ToastItem ui t (ToastStore (Dismiss (toast_id t)))
                   (ToastStore (Act (ToastClick t (shownWorkspace s)))) (hovered (toast_id t)))
                (shown_toasts s))))"

text \<open>The items offer what the machine of the toasts enables for them: opening and dismissing.\<close>

fun toast_from_markup :: "toast_event \<Rightarrow> bool" where
  "toast_from_markup (ToastStore (Act (ToastClick t w))) = True"
| "toast_from_markup _ = False"

lemma offered_item: "Tst e \<in> offered (ToastItem ui t dismiss open_it h) \<longleftrightarrow> e = dismiss \<or> e = open_it"
  by (auto simp: ToastItem_def toast_close_def)

lemma offered_toasts:
  assumes "ToastContainer ui hovered s = Some T"
  shows "Tst e \<in> offered T \<longleftrightarrow> (\<exists>t \<in> set (shown_toasts s).
    e = ToastStore (Dismiss (toast_id t)) \<or> e = ToastStore (Act (ToastClick t (shownWorkspace s))))"
  using assms by (auto simp: ToastContainer_def offered_item split: if_splits)

lemma toasts_offer_enabled:
  assumes "ToastContainer ui hovered s = Some T" and "Tst e \<in> offered T"
  shows "toast_enabled e s"
  using assms by (auto simp: offered_toasts [OF assms(1)])

text \<open>The button of a toast dismisses it without opening it; anywhere else a click opens it.\<close>

lemma toast_clicks:
  assumes "node_at q (ToastItem ui t dismiss open_it h) = Some n"
  shows "dispatch ''click'' d q (ToastItem ui t dismiss open_it h) =
    (if attribute ''aria-label'' n = Some (S ''Dismiss'') then ([Tst dismiss], True) else ([Tst open_it], False))"
proof -
  let ?P = "\<lambda>n. attribute ''aria-label'' n = Some (S ''Dismiss'')"
  have close: "answers ''click'' d ?P [Tst dismiss] (toast_close ui dismiss)"
    unfolding toast_close_def by (rule answers_stop) auto
  have pass: "answers ''click'' d ?P [Tst dismiss] (El ''div'' as ss [] [words v])"
    if "map_of as ''aria-label'' = None" for as ss v
    using that by (intro answers_pass) auto
  have body: "answers ''click'' d ?P [Tst dismiss] (El ''div'' [] ss [] [El ''div'' as ss' [] [words v], El ''div'' [] ss'' [] [words u]])"
    if "map_of as ''aria-label'' = None" for as ss ss' ss'' v u
    by (rule answers_pass) (auto intro!: pass that)
  show ?thesis
    by (rule answers_around [OF _ _ _ assms]) (auto simp: ToastItem_def intro!: close body)
qed

end
