(* ===== verification/FileDrop.thy ===== *)
theory FileDrop
  imports TermConn
begin

text \<open>
  Dropping files on the terminal (\<open>frontend/src/components/Terminal/TerminalView.tsx\<close>): the drag overlay,
  and the upload loop of \<open>onDrop\<close>, which uploads the files of a drop one after the other, pastes the path
  the server answers into the terminal, and shows the last error. The loop is suspended at each upload, so
  several drops may be under way, and the terminal goes on in between.
\<close>

section \<open>The path as a string\<close>

text \<open>\<open>String(v)\<close> of a JSON value, \<open>undefined\<close> being \<open>None\<close>.\<close>

fun js_string :: "json \<Rightarrow> string" where
  "js_string JNull = ''null''"
| "js_string (JBool b) = (if b then ''true'' else ''false'')"
| "js_string (JNum n) = num_str n"
| "js_string (JStr s) = s"
| "js_string (JArr vs) =
     (case map (\<lambda>v. if v = JNull then [] else js_string v) vs of [] \<Rightarrow> []
      | x # xs \<Rightarrow> x @ concat (map (\<lambda>y. CHR '','' # y) xs))"
| "js_string (JObj _) = ''[object Object]''"

definition opt_string :: "json option \<Rightarrow> string" where
  "opt_string v = (case v of None \<Rightarrow> ''undefined'' | Some j \<Rightarrow> js_string j)"

section \<open>State\<close>

text \<open>
  A suspended \<open>onDrop\<close>: its number, the session captured by the callback, and the files not yet
  answered, the first of which is being uploaded. A file is its name here. \<open>sent\<close> logs the uploads.
\<close>

record drop_state =
  isDragging :: bool
  uploadingName :: "string option"
  errorMsg :: "string option"
  drops :: "(nat \<times> string \<times> string list) list"
  next_drop :: nat
  sent :: "(nat \<times> http_request) list"
  view_term :: term_world

definition on_term :: "(term_world \<Rightarrow> term_world) \<Rightarrow> drop_state \<Rightarrow> drop_state" where
  "on_term f s = s\<lparr>view_term := f (view_term s)\<rparr>"

section \<open>Dragging\<close>

definition isFileDrag :: "string list \<Rightarrow> bool" where
  "isFileDrag types = List.member types ''Files''"

text \<open>The handlers give back whether they prevent the default action.\<close>

definition onDragOver :: "string list \<Rightarrow> drop_state \<Rightarrow> bool \<times> drop_state" where
  "onDragOver types s = (if \<not> isFileDrag types then (False, s) else (True, s\<lparr>isDragging := True\<rparr>))"

definition onDragEnter :: "string list \<Rightarrow> drop_state \<Rightarrow> drop_state" where
  "onDragEnter types s = (if \<not> isFileDrag types then s else s\<lparr>isDragging := True\<rparr>)"

text \<open>\<open>related\<close> is the element the pointer goes to, if any, with whether the wrapper contains it.\<close>

definition onDragLeave :: "bool option \<Rightarrow> drop_state \<Rightarrow> drop_state" where
  "onDragLeave related s = (if related = Some True then s else s\<lparr>isDragging := False\<rparr>)"

definition onDragStart :: "string list \<Rightarrow> bool" where
  "onDragStart types = (if isFileDrag types then False else True)"

section \<open>Uploading\<close>

definition start_upload :: "nat \<Rightarrow> string \<Rightarrow> string \<Rightarrow> drop_state \<Rightarrow> drop_state" where
  "start_upload n sid file s =
     s\<lparr>uploadingName := Some file, sent := sent s @ [(n, upload_request sid file)]\<rparr>"

definition onDrop :: "string option \<Rightarrow> string list \<Rightarrow> drop_state \<Rightarrow> drop_state" where
  "onDrop sessionId files s0 =
     (let s = s0\<lparr>isDragging := False\<rparr> in
      if \<not> truthy sessionId then s
      else
        (case files of
           [] \<Rightarrow> s
         | file # _ \<Rightarrow>
             let n = next_drop s; sid = the sessionId in
             start_upload n sid file
               (s\<lparr>errorMsg := None, drops := drops s @ [(n, sid, files)], next_drop := Suc n\<rparr>)))"

definition upload_outcome :: "string \<Rightarrow> fetch_result \<Rightarrow> drop_state \<Rightarrow> drop_state" where
  "upload_outcome sid res s =
     (case uploadFile res of
        Inl err \<Rightarrow> s\<lparr>errorMsg := Some err\<rparr>
      | Inr result \<Rightarrow>
          (case json_field result ''path'' of
             Inl err \<Rightarrow> s\<lparr>errorMsg := Some err\<rparr>
           | Inr path \<Rightarrow> on_term (\<lambda>w. snd (pasteToTerminal sid (opt_string path @ '' '') w)) s))"

definition set_files :: "nat \<Rightarrow> string \<Rightarrow> string list \<Rightarrow> (nat \<times> string \<times> string list) list
    \<Rightarrow> (nat \<times> string \<times> string list) list" where
  "set_files n sid rest ds = map (\<lambda>d. if fst d = n then (n, sid, rest) else d) ds"

definition next_file :: "nat \<Rightarrow> string \<Rightarrow> string list \<Rightarrow> drop_state \<Rightarrow> drop_state" where
  "next_file n sid rest s =
     (case rest of
        [] \<Rightarrow> s\<lparr>uploadingName := None, drops := filter (\<lambda>d. fst d \<noteq> n) (drops s)\<rparr>
      | file # _ \<Rightarrow>
          start_upload n sid file
            (s\<lparr>drops := set_files n sid rest (drops s)\<rparr>))"

definition upload_reply :: "nat \<Rightarrow> fetch_result \<Rightarrow> drop_state \<Rightarrow> drop_state" where
  "upload_reply n res s =
     (case map_of (drops s) n of
        None \<Rightarrow> s
      | Some (sid, files) \<Rightarrow> next_file n sid (tl files) (upload_outcome sid res s))"

section \<open>Events\<close>

datatype drop_event =
    OverEv "string list"
  | EnterEv "string list"
  | LeaveEv "bool option"
  | DropEv "string option" "string list"
  | UploadReply nat fetch_result
  | ClickError
  | TermEv term_event

fun drop_enabled :: "drop_event \<Rightarrow> drop_state \<Rightarrow> bool" where
  "drop_enabled (UploadReply n res) s = (map_of (drops s) n \<noteq> None)"
| "drop_enabled ClickError s = truthy (errorMsg s)"
| "drop_enabled (TermEv e) s = tenabled e (view_term s)"
| "drop_enabled _ s = True"

fun drop_exec :: "drop_event \<Rightarrow> drop_state \<Rightarrow> drop_state" where
  "drop_exec (OverEv ts) s = snd (onDragOver ts s)"
| "drop_exec (EnterEv ts) s = onDragEnter ts s"
| "drop_exec (LeaveEv r) s = onDragLeave r s"
| "drop_exec (DropEv sid fs) s = onDrop sid fs s"
| "drop_exec (UploadReply n res) s = upload_reply n res s"
| "drop_exec ClickError s = s\<lparr>errorMsg := None\<rparr>"
| "drop_exec (TermEv e) s = on_term (texec e) s"

definition drop_step :: "drop_state \<Rightarrow> drop_event \<Rightarrow> drop_state \<Rightarrow> bool" where
  "drop_step s e s' \<longleftrightarrow> drop_enabled e s \<and> s' = drop_exec e s"

definition drop_start :: "drop_state \<Rightarrow> bool" where
  "drop_start s \<longleftrightarrow> \<not> isDragging s \<and> uploadingName s = None \<and> errorMsg s = None \<and> drops s = []
     \<and> next_drop s = 0 \<and> sent s = []"

section \<open>The invariant\<close>

text \<open>Numbers are not reused, and a suspended drop has a file in the air.\<close>

definition drop_inv :: "drop_state \<Rightarrow> bool" where
  "drop_inv s \<longleftrightarrow> distinct (map fst (drops s))
     \<and> (\<forall>n sid fs. (n, sid, fs) \<in> set (drops s) \<longrightarrow> n < next_drop s \<and> fs \<noteq> [])
     \<and> (\<forall>n q. (n, q) \<in> set (sent s) \<longrightarrow> n < next_drop s)
     \<and> (drops s = [] \<longrightarrow> uploadingName s = None)"

definition sent_of :: "nat \<Rightarrow> drop_state \<Rightarrow> http_request list" where
  "sent_of n s = map snd (filter (\<lambda>p. fst p = n) (sent s))"

lemma outcome_keeps [simp]:
  "drops (upload_outcome sid r s) = drops s" "next_drop (upload_outcome sid r s) = next_drop s"
  "sent (upload_outcome sid r s) = sent s" "uploadingName (upload_outcome sid r s) = uploadingName s"
  by (simp_all add: upload_outcome_def on_term_def split: sum.split)

lemma on_term_keeps [simp]:
  "drops (on_term f s) = drops s" "next_drop (on_term f s) = next_drop s" "sent (on_term f s) = sent s"
  "uploadingName (on_term f s) = uploadingName s" "errorMsg (on_term f s) = errorMsg s" "view_term (on_term f s) = f (view_term s)"
  by (simp_all add: on_term_def)

lemma set_files_simps [simp]:
  "map fst (set_files n sid rest ds) = map fst ds" "set_files n sid rest ds = [] \<longleftrightarrow> ds = []"
  by (auto simp: set_files_def)

lemma set_files_in: "d \<in> set (set_files n sid rest ds) \<Longrightarrow> d = (n, sid, rest) \<or> d \<in> set ds"
  by (auto simp: set_files_def)

lemma set_files_get:
  "map_of (set_files n sid rest ds) m = (if m = n \<and> map_of ds n \<noteq> None then Some (sid, rest) else map_of ds m)"
  by (induction ds) (auto simp: set_files_def)

lemma drop_inv_next:
  assumes "drop_inv s" and "map_of (drops s) n = Some (sid, files)"
  shows "drop_inv (next_file n sid (tl files) (upload_outcome sid r s))"
proof (cases "tl files")
  case Nil
  with assms(1) show ?thesis
    by (auto simp: next_file_def drop_inv_def intro: distinct_map_filter_key)
next
  case (Cons f fs)
  have n: "n < next_drop s" using assms by (auto simp: drop_inv_def dest: map_of_SomeD)
  have "drops s \<noteq> []" using assms(2) by auto
  then show ?thesis
    using Cons assms(1) n
    by (auto simp: next_file_def drop_inv_def start_upload_def dest!: set_files_in)
qed

lemma drop_inv_step: "drop_inv s \<Longrightarrow> drop_step s e t \<Longrightarrow> drop_inv t"
proof (cases e)
  case (UploadReply n r)
  assume "drop_inv s" "drop_step s e t"
  with UploadReply drop_inv_next [of s n _ _ r] show "drop_inv t"
    by (auto simp: drop_step_def upload_reply_def)
next
  case (DropEv sid fs)
  assume "drop_inv s" "drop_step s e t"
  with DropEv show "drop_inv t"
    by (fastforce simp: drop_step_def onDrop_def Let_def start_upload_def drop_inv_def split: list.splits)
qed (auto simp: drop_step_def drop_inv_def onDragOver_def onDragEnter_def onDragLeave_def)

lemma drop_inv_start: "drop_start s \<Longrightarrow> drop_inv s"
  by (simp add: drop_start_def drop_inv_def)

interpretation drp: invariant_machine drop_start drop_step drop_inv
  by unfold_locales (rule drop_inv_start drop_inv_step; assumption)+

section \<open>Every file\<close>

text \<open>The state of the drop \<open>n\<close> of \<open>files\<close> after \<open>k\<close> answers.\<close>

definition uploaded :: "nat \<Rightarrow> string \<Rightarrow> string list \<Rightarrow> nat \<Rightarrow> drop_state \<Rightarrow> bool" where
  "uploaded n sid files k s \<longleftrightarrow> n < next_drop s \<and> k \<le> length files
     \<and> sent_of n s = map (upload_request sid) (take (Suc k) files)
     \<and> map_of (drops s) n = (if k < length files then Some (sid, drop k files) else None)"

fun answers :: "nat \<Rightarrow> drop_event list \<Rightarrow> nat" where
  "answers n [] = 0"
| "answers n (UploadReply m r # es) = (if m = n then Suc (answers n es) else answers n es)"
| "answers n (_ # es) = answers n es"

lemma sent_of_start [simp]:
  "sent_of n (start_upload m sid f s) = (if m = n then sent_of n s @ [upload_request sid f] else sent_of n s)"
  by (simp add: sent_of_def start_upload_def)

lemma start_keeps [simp]:
  "drops (start_upload n sid f s) = drops s" "next_drop (start_upload n sid f s) = next_drop s"
  "errorMsg (start_upload n sid f s) = errorMsg s" "view_term (start_upload n sid f s) = view_term s"
  by (simp_all add: start_upload_def)

lemma sent_of_keeps [simp]:
  "sent_of n (s\<lparr>drops := ds\<rparr>) = sent_of n s" "sent_of n (s\<lparr>uploadingName := u, drops := ds\<rparr>) = sent_of n s"
  "sent_of n (s\<lparr>errorMsg := x, drops := ds, next_drop := m\<rparr>) = sent_of n s"
  "sent_of n (s\<lparr>uploadingName := u\<rparr>) = sent_of n s" "sent_of n (s\<lparr>isDragging := b\<rparr>) = sent_of n s" "sent_of n (upload_outcome sid r s) = sent_of n s"
  by (simp_all add: sent_of_def)

lemma uploaded_cong:
  "uploaded n sid files k s \<Longrightarrow> drops t = drops s \<Longrightarrow> sent t = sent s \<Longrightarrow> next_drop t = next_drop s
   \<Longrightarrow> uploaded n sid files k t"
  by (simp add: uploaded_def sent_of_def)

lemma map_of_filter_other: "m \<noteq> n \<Longrightarrow> map_of (filter (\<lambda>d. fst d \<noteq> m) ds) n = map_of ds n"
  by (induction ds) auto

lemma uploaded_other:
  assumes "uploaded n sid files k s" and "m \<noteq> n"
  shows "uploaded n sid files k (upload_reply m r s)"
proof (cases "map_of (drops s) m")
  case (Some d)
  then show ?thesis
    using assms by (cases d) (auto simp: upload_reply_def next_file_def uploaded_def set_files_get
        map_of_filter_other split: list.split)
qed (use assms in \<open>simp add: upload_reply_def\<close>)

lemma uploaded_answer:
  assumes "uploaded n sid files k s" and "map_of (drops s) n \<noteq> None"
  shows "uploaded n sid files (Suc k) (upload_reply n r s)"
proof -
  have k: "k < length files" and d: "map_of (drops s) n = Some (sid, drop k files)"
    using assms by (auto simp: uploaded_def split: if_splits)
  have gone: "map_of (filter (\<lambda>d. fst d \<noteq> n) ds) n = None" for ds :: "(nat \<times> string \<times> string list) list"
    by (induction ds) auto
  have tl: "tl (drop k files) = drop (Suc k) files" by (simp add: drop_Suc tl_drop)
  show ?thesis
  proof (cases "Suc k < length files")
    case True
    then have "drop (Suc k) files = files ! Suc k # drop (Suc (Suc k)) files" by (simp add: Cons_nth_drop_Suc)
    then show ?thesis
      using assms(1) d tl True
      by (simp add: upload_reply_def next_file_def uploaded_def set_files_get take_Suc_conv_app_nth)
  next
    case False
    with k have "drop (Suc k) files = []" "take (Suc (Suc k)) files = take (Suc k) files" by simp_all
    then show ?thesis
      using assms(1) d tl False k
      by (simp add: upload_reply_def next_file_def uploaded_def gone)
  qed
qed

lemma uploaded_drop:
  assumes "uploaded n sid files k s"
  shows "uploaded n sid files k (onDrop sid' fs s)"
  using assms by (cases fs) (auto simp: onDrop_def Let_def uploaded_def split: option.split)

lemma uploaded_step:
  assumes "drop_step s e t" and "uploaded n sid files k s"
  shows "uploaded n sid files (k + answers n [e]) t"
proof -
  have en: "drop_enabled e s" and t: "t = drop_exec e s" using assms(1) by (auto simp: drop_step_def)
  show ?thesis
  proof (cases e)
    case (UploadReply m r)
    with en t uploaded_other [OF assms(2), of m r] uploaded_answer [OF assms(2), of r] show ?thesis by auto
  next
    case (DropEv sid' fs)
    with t uploaded_drop [OF assms(2)] show ?thesis by simp
  qed (use t in \<open>auto intro!: uploaded_cong [OF assms(2)] simp: onDragOver_def onDragEnter_def onDragLeave_def\<close>)
qed

lemma answers_Cons: "answers n (e # es) = answers n [e] + answers n es"
  by (cases e) simp_all

lemma uploaded_run:
  "run_path drop_step s es t \<Longrightarrow> uploaded n sid files k s \<Longrightarrow> uploaded n sid files (k + answers n es) t"
proof (induction arbitrary: k rule: run_path.induct)
  case (run_cons s e t es u)
  from run_cons.IH [OF uploaded_step [OF run_cons.hyps(1) run_cons.prems]] show ?case
    by (simp add: answers_Cons [of n e es] add.assoc)
qed simp

section \<open>Properties\<close>

text \<open>
  C31: The files of a drop are uploaded one at a time, each once and in their order, to the session that
  was shown when they were dropped, whatever happens in between (other drops, a switch of the session,
  failed uploads): after \<open>k\<close> answers the first \<open>k + 1\<close> files were sent, and the loop ends with the last.
\<close>
theorem drop_uploads_every_file:
  assumes "reach drop_start drop_step s" and "sid \<noteq> []" and "files \<noteq> []"
    and "run_path drop_step (onDrop (Some sid) files s) es t"
    and "k = answers (next_drop s) es"
  shows "k \<le> length files
    \<and> sent_of (next_drop s) t = map (upload_request sid) (take (Suc k) files)
    \<and> (map_of (drops t) (next_drop s) = None \<longleftrightarrow> k = length files)"
proof -
  have inv: "drop_inv s" using drp.reach_inv [OF assms(1)] .
  then have "sent_of (next_drop s) s = []" by (fastforce simp: drop_inv_def sent_of_def filter_empty_conv)
  moreover have "next_drop s \<notin> fst ` set (drops s)" using inv by (force simp: drop_inv_def)
  then have "map_of (drops s) (next_drop s) = None" by (simp add: map_of_eq_None_iff)
  ultimately have "uploaded (next_drop s) sid files 0 (onDrop (Some sid) files s)"
    using assms(2,3) by (cases files) (simp_all add: onDrop_def Let_def uploaded_def map_add_def)
  from uploaded_run [OF assms(4) this] assms(5) show ?thesis by (auto simp: uploaded_def split: if_splits)
qed

definition drop_sample :: drop_state where
  "drop_sample = \<lparr>isDragging = False, uploadingName = None, errorMsg = None, drops = [], next_drop = 0,
     sent = [], view_term = after_term open_events\<rparr>"

definition stored_at :: "string \<Rightarrow> fetch_result" where
  "stored_at p = Inr \<lparr>res_ok = True, res_status = 200, res_json = Inr (JObj [(''path'', JStr p)])\<rparr>"

theorem drop_uploads_every_file_witness:
  "sent_of 0 (drop_exec (UploadReply 0 (stored_at ''/up/a'')) (onDrop (Some ''s1'') [''a'', ''b''] drop_sample))
     = [upload_request ''s1'' ''a'', upload_request ''s1'' ''b'']"
proof -
  let ?s = "onDrop (Some ''s1'') [''a'', ''b''] drop_sample" and ?e = "UploadReply 0 (stored_at ''/up/a'')"
  have r: "reach drop_start drop_step drop_sample"
    by (rule reach_start) (simp add: drop_start_def drop_sample_def)
  have "run_path drop_step ?s [?e] (drop_exec ?e ?s)"
    by (simp add: run_path_Cons drop_step_def onDrop_def drop_sample_def Let_def)
  from drop_uploads_every_file [OF r _ _ this refl] show ?thesis by (simp add: drop_sample_def)
qed

text \<open>What one answer pastes, and the error it leaves.\<close>

definition paste_of :: "fetch_result \<Rightarrow> string option" where
  "paste_of r = (case uploadFile r of
      Inl _ \<Rightarrow> None
    | Inr j \<Rightarrow> (case json_field j ''path'' of Inl _ \<Rightarrow> None | Inr p \<Rightarrow> Some (opt_string p @ '' '')))"

definition error_of :: "fetch_result \<Rightarrow> string option" where
  "error_of r = (case uploadFile r of
      Inl x \<Rightarrow> Some x | Inr j \<Rightarrow> (case json_field j ''path'' of Inl x \<Rightarrow> Some x | Inr _ \<Rightarrow> None))"

fun paste_effects :: "nat \<Rightarrow> fetch_result list \<Rightarrow> term_eff list" where
  "paste_effects i [] = []"
| "paste_effects i (r # rs) =
     (case paste_of r of None \<Rightarrow> [] | Some p \<Rightarrow> [PasteTerm i p]) @ paste_effects i rs"

fun last_error :: "string option \<Rightarrow> fetch_result list \<Rightarrow> string option" where
  "last_error x [] = x"
| "last_error x (r # rs) = last_error (case error_of r of None \<Rightarrow> x | Some e \<Rightarrow> Some e) rs"

lemma outcome_effect:
  assumes "instances (view_term s) sid = Some i"
  shows "tlog (view_term (upload_outcome sid r s)) = tlog (view_term s) @ paste_effects i [r]"
    and "errorMsg (upload_outcome sid r s) = last_error (errorMsg s) [r]"
    and "instances (view_term (upload_outcome sid r s)) = instances (view_term s)"
  using assms
  by (auto simp: upload_outcome_def paste_of_def error_of_def on_term_def pasteToTerminal_def log_eff_def map_get_def
      split: sum.split)

lemma next_file_view [simp]:
  "view_term (next_file n sid fs s) = view_term s" "errorMsg (next_file n sid fs s) = errorMsg s"
  by (simp_all add: next_file_def split: list.split)

lemma drop_loop:
  assumes "map_of (drops s) n = Some (sid, files)" and "files \<noteq> []" and "length rs = length files"
    and "instances (view_term s) sid = Some i"
  shows "tlog (view_term (fold (upload_reply n) rs s)) = tlog (view_term s) @ paste_effects i rs
    \<and> errorMsg (fold (upload_reply n) rs s) = last_error (errorMsg s) rs
    \<and> uploadingName (fold (upload_reply n) rs s) = None
    \<and> drops (fold (upload_reply n) rs s) = filter (\<lambda>d. fst d \<noteq> n) (drops s)"
  using assms
proof (induction rs arbitrary: s files)
  case (Cons r rs)
  let ?u = "upload_outcome sid r s" and ?t = "upload_reply n r s"
  have t: "?t = next_file n sid (tl files) ?u" using Cons.prems(1) by (simp add: upload_reply_def)
  note o = outcome_effect [OF Cons.prems(4), of r]
  have gone: "filter (\<lambda>d. fst d \<noteq> n) (set_files n sid fs ds) = filter (\<lambda>d. fst d \<noteq> n) ds" for fs ds
    by (induction ds) (auto simp: set_files_def)
  show ?case
  proof (cases "tl files")
    case Nil
    with Cons.prems have "rs = []" by (cases files) auto
    with Nil t o show ?thesis by (simp add: next_file_def)
  next
    case (Cons f fs)
    then have "map_of (drops ?t) n = Some (sid, tl files)"
      using Cons.prems(1) by (simp add: t next_file_def set_files_get)
    moreover have "length rs = length (tl files)" using Cons.prems(3) by simp
    moreover have "instances (view_term ?t) sid = Some i" using t o(3) Cons.prems(4) by simp
    ultimately have "tlog (view_term (fold (upload_reply n) rs ?t)) = tlog (view_term ?t) @ paste_effects i rs
      \<and> errorMsg (fold (upload_reply n) rs ?t) = last_error (errorMsg ?t) rs
      \<and> uploadingName (fold (upload_reply n) rs ?t) = None
      \<and> drops (fold (upload_reply n) rs ?t) = filter (\<lambda>d. fst d \<noteq> n) (drops ?t)"
      using Cons.IH [of ?t "tl files"] Cons by simp
    moreover have "drops ?t = set_files n sid (f # fs) (drops s)"
      using Cons by (simp add: t next_file_def)
    ultimately show ?thesis using t o by (simp add: gone)
  qed
qed simp

text \<open>
  C32: What a drop does when its uploads run through: the terminal gets the paths of the successful ones,
  each followed by a space, in the order of the files; the last error is shown, and an older one is
  cleared; and nothing is shown as uploading any more.
\<close>
theorem drop_pastes_paths:
  assumes "reach drop_start drop_step s" and "sid \<noteq> []" and "files \<noteq> []" and "length rs = length files"
    and "instances (view_term s) sid = Some i"
    and "t = fold (upload_reply (next_drop s)) rs (onDrop (Some sid) files s)"
  shows "tlog (view_term t) = tlog (view_term s) @ paste_effects i rs
    \<and> errorMsg t = last_error None rs \<and> uploadingName t = None \<and> \<not> isDragging (onDrop (Some sid) files s)
    \<and> drops t = drops s"
proof -
  let ?s = "onDrop (Some sid) files s"
  have inv: "drop_inv s" using drp.reach_inv [OF assms(1)] .
  then have fresh: "next_drop s \<notin> fst ` set (drops s)" by (force simp: drop_inv_def)
  then have "map_of (drops s) (next_drop s) = None" by (simp add: map_of_eq_None_iff)
  then have s: "map_of (drops ?s) (next_drop s) = Some (sid, files)" "view_term ?s = view_term s"
    "errorMsg ?s = None" "\<not> isDragging ?s" "drops ?s = drops s @ [(next_drop s, sid, files)]"
    using assms(2,3) by (cases files; simp add: onDrop_def Let_def map_add_def start_upload_def)+
  have f: "filter (\<lambda>d. fst d \<noteq> next_drop s) (drops s) = drops s"
    using fresh by (force simp: filter_id_conv)
  from drop_loop [OF s(1) assms(3,4), of i] s assms(5,6) f show ?thesis by simp
qed

theorem drop_pastes_paths_witness:
  "errorMsg (fold (upload_reply 0) [Inl ''offline'', stored_at ''/up/b'']
     (onDrop (Some ''s1'') [''a'', ''b''] drop_sample)) = Some ''offline''"
proof -
  have r: "reach drop_start drop_step drop_sample"
    by (rule reach_start) (simp add: drop_start_def drop_sample_def)
  have i: "instances (view_term drop_sample) ''s1'' = Some 0" by code_simp
  from drop_pastes_paths [OF r _ _ _ i refl, of "[''a'', ''b'']" "[Inl ''offline'', stored_at ''/up/b'']"]
  show ?thesis by (simp add: drop_sample_def stored_at_def error_of_def uploadFile_def obj_get_def)
qed

end
