(* ===== verification/InputBar.thy ===== *)
theory InputBar
  imports TermIO
begin

text \<open>
  The input bar for phones (\<open>frontend/src/components/Terminal/MobileInputBar.tsx\<close>): its tool keys, the text
  field, and sending. The terminal's own field is locked meanwhile (the effect of \<open>TerminalView.tsx\<close>).
\<close>

section \<open>Tool keys\<close>

record tool_key =
  tk_label :: ustring
  tk_bytes :: ustring
  tk_title :: "ustring option"

definition ESC :: "16 word" where "ESC = 0x1B"

definition TOOL_KEYS :: "tool_key list" where
  "TOOL_KEYS =
     [\<lparr>tk_label = units ''Esc'', tk_bytes = [ESC], tk_title = None\<rparr>,
      \<lparr>tk_label = units ''Tab'', tk_bytes = [9], tk_title = None\<rparr>,
      \<lparr>tk_label = units ''^C'', tk_bytes = [3], tk_title = Some (units ''Ctrl+C (interrupt)'')\<rparr>,
      \<lparr>tk_label = units ''^D'', tk_bytes = [4], tk_title = Some (units ''Ctrl+D (EOF)'')\<rparr>,
      \<lparr>tk_label = units ''^Z'', tk_bytes = [26], tk_title = Some (units ''Ctrl+Z (suspend)'')\<rparr>,
      \<lparr>tk_label = [0x2191], tk_bytes = ESC # units ''[A'', tk_title = None\<rparr>,
      \<lparr>tk_label = [0x2193], tk_bytes = ESC # units ''[B'', tk_title = None\<rparr>,
      \<lparr>tk_label = [0x2190], tk_bytes = ESC # units ''[D'', tk_title = None\<rparr>,
      \<lparr>tk_label = [0x2192], tk_bytes = ESC # units ''[C'', tk_title = None\<rparr>]"

section \<open>Sending\<close>

text \<open>The state of the bar is its text; \<open>focused\<close> says whether the text field was given the focus.\<close>

record bar_state =
  bar_text :: ustring
  bar_focused :: bool
  bar_term :: term_world

definition sendKey :: "string option \<Rightarrow> ustring \<Rightarrow> bar_state \<Rightarrow> bar_state" where
  "sendKey sessionId bytes s =
     (if \<not> truthy sessionId then s
      else s\<lparr>bar_term := snd (sendToTerminal (the sessionId) bytes (bar_term s))\<rparr>)"

definition handleSend :: "string option \<Rightarrow> bar_state \<Rightarrow> bar_state" where
  "handleSend sessionId s =
     (if \<not> truthy sessionId then s
      else s\<lparr>bar_term := snd (sendToTerminal (the sessionId) (bar_text s @ [13]) (bar_term s)),
             bar_text := [], bar_focused := True\<rparr>)"

text \<open>The key handler: whether the default action is prevented, and the state.\<close>

definition onKeyDown :: "string option \<Rightarrow> string \<Rightarrow> bool \<Rightarrow> bar_state \<Rightarrow> bool \<times> bar_state" where
  "onKeyDown sessionId k shift s =
     (if k = ''Enter'' \<and> \<not> shift then (True, handleSend sessionId s) else (False, s))"

definition onChange :: "ustring \<Rightarrow> bar_state \<Rightarrow> bar_state" where
  "onChange v s = s\<lparr>bar_text := v\<rparr>"

section \<open>The field of the terminal\<close>

text \<open>The attributes of xterm's text field, as an object.\<close>

definition lock_textarea :: "bool \<Rightarrow> string jsobj \<Rightarrow> string jsobj" where
  "lock_textarea mobile ta =
     (if mobile
      then obj_put ''inputmode'' ''none'' (obj_put ''tabindex'' ''-1'' (obj_put ''readonly'' ''true'' ta))
      else obj_put ''tabindex'' ''0'' (obj_del ''inputmode'' (obj_del ''readonly'' ta)))"

section \<open>Properties\<close>

text \<open>
  C33: Sending from the bar while the session's socket is open sends one binary frame: the UTF-8 text of the
  field and a carriage return; a tool key sends its own bytes, and no two keys send the same. The text is
  cleared in any case: if the socket is not open (while reconnecting, say), nothing is sent and the text
  is lost.
\<close>
theorem bar_sends_or_loses:
  assumes "instances (bar_term s) sid = Some i" and "sid \<noteq> []"
  shows "bar_text (handleSend (Some sid) s) = []
    \<and> tlog (bar_term (handleSend (Some sid) s)) = tlog (bar_term s) @
        (if ws_state (bar_term s) i = Some OPEN
         then [SendBytes (the (ti_ws (heap (bar_term s) i))) (TextEncoder_encode (bar_text s @ [13]))] else [])
    \<and> tlog (bar_term (sendKey (Some sid) b s)) = tlog (bar_term s) @
        (if ws_state (bar_term s) i = Some OPEN
         then [SendBytes (the (ti_ws (heap (bar_term s) i))) (TextEncoder_encode b)] else [])
    \<and> bar_text (sendKey (Some sid) b s) = bar_text s
    \<and> distinct (map (\<lambda>k. TextEncoder_encode (tk_bytes k)) TOOL_KEYS)"
proof -
  have "distinct (map (\<lambda>k. TextEncoder_encode (tk_bytes k)) TOOL_KEYS)" by code_simp
  then show ?thesis
    using assms by (simp add: handleSend_def sendKey_def sendToTerminal_def map_get_def log_eff_def)
qed

theorem bar_sends_or_loses_witness:
  "bar_text (handleSend (Some ''s1'') \<lparr>bar_text = [0x6C], bar_focused = False,
     bar_term = after_term (open_events @ [SockClosed 0 True 0])\<rparr>) = []
   \<and> tlog (bar_term (handleSend (Some ''s1'') \<lparr>bar_text = [0x6C], bar_focused = False,
     bar_term = after_term (open_events @ [SockClosed 0 True 0])\<rparr>))
     = tlog (after_term (open_events @ [SockClosed 0 True 0]))"
proof -
  let ?w = "after_term (open_events @ [SockClosed 0 True 0])"
  have "instances ?w ''s1'' = Some 0" by code_simp
  moreover have "ws_state ?w 0 \<noteq> Some OPEN" by code_simp
  ultimately show ?thesis
    using bar_sends_or_loses [of "\<lparr>bar_text = [0x6C], bar_focused = False, bar_term = ?w\<rparr>" "''s1''" 0] by simp
qed

text \<open>
  In the bar, Enter sends and nothing else does: any other key, and Enter with Shift, are left to the text
  field, without a session nothing happens, and the terminal's own text field is read-only exactly while
  the bar is there.
\<close>
lemma bar_keys:
  "(fst (onKeyDown sid k shift s) \<longleftrightarrow> k = ''Enter'' \<and> \<not> shift)
   \<and> snd (onKeyDown sid k shift s) = (if k = ''Enter'' \<and> \<not> shift \<and> truthy sid then handleSend sid s else s)
   \<and> (obj_get (lock_textarea mobile ta) ''readonly'' = Some ''true'' \<longleftrightarrow> mobile)
   \<and> (obj_get (lock_textarea mobile ta) ''inputmode'' = Some ''none'' \<longleftrightarrow> mobile)"
  by (auto simp: onKeyDown_def handleSend_def lock_textarea_def)

end
