(* ===== verification/TermView.thy ===== *)
theory TermView
  imports View FileDrop InputBar Theme
begin

text \<open>
  The rendered terminal with its overlays (\<open>frontend/src/components/Terminal/TerminalView.tsx\<close>) and the input
  bar (\<open>MobileInputBar.tsx\<close>). xterm's own elements are put into the inner container by the terminal hook and
  are not part of the tree.
\<close>

section \<open>The terminal\<close>

text \<open>Starting a drag in the terminal only prevents the default action.\<close>

definition drop_overlay :: "ui_colors \<Rightarrow> drop_event node" where
  "drop_overlay ui =
     El ''div'' []
       [(''position'', S ''absolute''), (''inset'', N 0), (''display'', S ''flex''),
        (''alignItems'', S ''center''), (''justifyContent'', S ''center''),
        (''backgroundColor'', S (ui_dropOverlayBg ui)),
        (''border'', S (''2px dashed '' @ ui_dropOverlayBorder ui)), (''color'', S (ui_dropOverlayText ui)),
        (''fontFamily'', S MONO), (''fontSize'', N 16), (''fontWeight'', N 600),
        (''pointerEvents'', S ''none''), (''zIndex'', N 10)]
       [] [words ''Drop to upload'']"

definition upload_notice :: "ui_colors \<Rightarrow> string \<Rightarrow> drop_event node" where
  "upload_notice ui name =
     El ''div'' []
       [(''position'', S ''absolute''), (''bottom'', N 12), (''right'', N 12),
        (''padding'', S ''6px 12px''), (''backgroundColor'', S (ui_tabActiveBg ui)),
        (''border'', S (''1px solid '' @ ui_accent ui)), (''borderRadius'', N 4),
        (''color'', S (ui_textPrimary ui)), (''fontFamily'', S MONO), (''fontSize'', N 12),
        (''zIndex'', N 11), (''maxWidth'', S ''70%''), (''overflow'', S ''hidden''),
        (''textOverflow'', S ''ellipsis''), (''whiteSpace'', S ''nowrap'')]
       [] [words ''Uploading '', words name, words ''...'']"

definition error_notice :: "ui_colors \<Rightarrow> string \<Rightarrow> drop_event node" where
  "error_notice ui msg =
     El ''div'' [(''title'', S ''Click to dismiss'')]
       [(''position'', S ''absolute''), (''bottom'', N 12), (''left'', N 12), (''padding'', S ''6px 12px''),
        (''backgroundColor'', S (ui_tabActiveBg ui)), (''border'', S (''1px solid '' @ ui_danger ui)),
        (''borderRadius'', N 4), (''color'', S (ui_danger ui)), (''fontFamily'', S MONO),
        (''fontSize'', N 12), (''zIndex'', N 11), (''cursor'', S ''pointer''), (''maxWidth'', S ''70%''),
        (''overflow'', S ''hidden''), (''textOverflow'', S ''ellipsis''), (''whiteSpace'', S ''nowrap'')]
       [(''click'', does [ClickError])] [words ''Upload failed: '', words msg]"

definition TerminalView :: "ui_colors \<Rightarrow> bool \<Rightarrow> string option \<Rightarrow> drop_state \<Rightarrow> drop_event node" where
  "TerminalView ui mobile sessionId s =
     El ''div'' [(''ref'', S ''wrapperRef'')]
       [(''position'', S ''relative''), (''width'', S ''100%''), (''height'', S ''100%''),
        (''backgroundColor'', S (ui_terminalBg ui)), (''paddingLeft'', N (if mobile then 6 else 0)),
        (''boxSizing'', S ''border-box''), (''userSelect'', S ''text'')]
       [(''dragover'', \<lambda>d. ([OverEv (ev_types d)], False)),
        (''dragenter'', \<lambda>d. ([EnterEv (ev_types d)], False)),
        (''dragleave'', \<lambda>d. ([LeaveEv (ev_related d)], False)),
        (''dragstart'', does []),
        (''drop'', \<lambda>d. ([DropEv sessionId (ev_files d)], False))]
       (El ''div'' [(''ref'', S ''containerRef'')]
          [(''width'', S ''100%''), (''height'', S ''100%'')]
          [] []
        # shown_if (isDragging s) (drop_overlay ui)
        @ shown_if (truthy (uploadingName s)) (upload_notice ui (the (uploadingName s)))
        @ shown_if (truthy (errorMsg s)) (error_notice ui (the (errorMsg s))))"

section \<open>The input bar\<close>

datatype bar_action = TapKey ustring | TypeText ustring | PressKey string bool | TapSend

text \<open>What the bar does, for the session of its prop.\<close>

fun bar_exec :: "string option \<Rightarrow> bar_action \<Rightarrow> bar_state \<Rightarrow> bar_state" where
  "bar_exec sessionId (TapKey bytes) s = sendKey sessionId bytes s"
| "bar_exec sessionId (TypeText v) s = onChange v s"
| "bar_exec sessionId (PressKey k shift) s = snd (onKeyDown sessionId k shift s)"
| "bar_exec sessionId TapSend s = handleSend sessionId s"

definition tool_key_view :: "ui_colors \<Rightarrow> tool_key \<Rightarrow> bar_action node" where
  "tool_key_view ui k =
     El ''button''
       [(''key'', U (tk_label k)), (''type'', S ''button''),
        (''title'', U (case tk_title k of Some t \<Rightarrow> t | None \<Rightarrow> tk_label k))]
       [(''flex'', S ''0 0 auto''), (''minWidth'', N 44), (''height'', N 36), (''padding'', S ''0 10px''),
        (''backgroundColor'', S (ui_hoverBg ui)), (''border'', S (''1px solid '' @ ui_sidebarBorder ui)),
        (''borderRadius'', N 6), (''color'', S (ui_textPrimary ui)), (''fontFamily'', S MONO),
        (''fontSize'', N 13), (''cursor'', S ''pointer''), (''whiteSpace'', S ''nowrap'')]
       [(''click'', does [TapKey (tk_bytes k)])] [Text (tk_label k)]"

definition bar_field :: "ui_colors \<Rightarrow> bar_state \<Rightarrow> bar_action node" where
  "bar_field ui s =
     El ''textarea''
       [(''ref'', S ''taRef''), (''value'', U (bar_text s)), (''rows'', N 1),
        (''placeholder'', S ''Type and press Send (Shift+Enter for newline)''),
        (''autoCapitalize'', S ''off''), (''autoCorrect'', S ''off''), (''autoComplete'', S ''off''),
        (''spellCheck'', B False), (''enterKeyHint'', S ''send'')]
       [(''position'', S ''absolute''), (''top'', N 0), (''left'', N 0), (''width'', S ''142.857%''),
        (''height'', S ''142.857%''), (''transform'', S ''scale(0.7)''),
        (''transformOrigin'', S ''top left''), (''padding'', S ''11px 14px''),
        (''backgroundColor'', S ''transparent''), (''border'', S ''none''),
        (''color'', S (ui_textPrimary ui)), (''fontFamily'', S MONO), (''fontSize'', N 20),
        (''lineHeight'', N (7 / 5)), (''outline'', S ''none''), (''resize'', S ''none'')]
       [(''change'', \<lambda>d. ([TypeText (ev_units d)], False)),
        (''keydown'', \<lambda>d. ([PressKey (ev_key d) (ev_shift d)], False))]
       []"

definition send_button :: "ui_colors \<Rightarrow> string option \<Rightarrow> bar_action node" where
  "send_button ui sessionId =
     El ''button'' [(''type'', S ''button''), (''disabled'', B (\<not> truthy sessionId))]
       [(''flex'', S ''0 0 auto''), (''minWidth'', N 56), (''height'', N 40), (''padding'', S ''0 14px''),
        (''backgroundColor'', S (ui_accent ui)), (''border'', S ''none''), (''borderRadius'', N 6),
        (''color'', S ''#fff''), (''fontFamily'', S ''inherit''), (''fontSize'', N 14),
        (''fontWeight'', N 600),
        (''cursor'', S (if truthy sessionId then ''pointer'' else ''not-allowed'')),
        (''opacity'', N (if truthy sessionId then 1 else (1 / 2)))]
       [(''click'', does [TapSend])] [words ''Send'']"

definition MobileInputBar :: "ui_colors \<Rightarrow> string option \<Rightarrow> bar_state \<Rightarrow> bar_action node" where
  "MobileInputBar ui sessionId s =
     El ''div'' []
       [(''flexShrink'', N 0), (''borderTop'', S (''1px solid '' @ ui_sidebarBorder ui)),
        (''backgroundColor'', S (ui_tabActiveBg ui)),
        (''paddingBottom'', S ''env(safe-area-inset-bottom)'')]
       []
       [El ''div'' []
          [(''display'', S ''flex''), (''gap'', N 6), (''padding'', S ''6px 8px''),
           (''overflowX'', S ''auto''), (''WebkitOverflowScrolling'', S ''touch'')]
          [] (map (tool_key_view ui) TOOL_KEYS),
        El ''div'' []
          [(''display'', S ''flex''), (''alignItems'', S ''flex-end''), (''gap'', N 8),
           (''padding'', S ''0 8px 8px'')]
          []
          [El ''div'' []
             [(''flex'', N 1), (''minWidth'', N 0), (''height'', N 40), (''position'', S ''relative''),
              (''overflow'', S ''hidden''), (''backgroundColor'', S (ui_appBg ui)),
              (''border'', S (''1px solid '' @ ui_sidebarBorder ui)), (''borderRadius'', N 6)]
             [] [bar_field ui s],
           send_button ui sessionId]]"

section \<open>What the markup offers\<close>

lemma offered_terminal: "e \<in> offered (TerminalView ui mobile sessionId s) \<longleftrightarrow>
    (\<exists>ts. e = OverEv ts) \<or> (\<exists>ts. e = EnterEv ts) \<or> (\<exists>r. e = LeaveEv r) \<or> (\<exists>fs. e = DropEv sessionId fs)
    \<or> (e = ClickError \<and> truthy (errorMsg s))"
  by (auto simp: TerminalView_def drop_overlay_def upload_notice_def error_notice_def shown_if_def)

lemma terminal_offers_enabled: "e \<in> offered (TerminalView ui mobile sessionId s) \<Longrightarrow> drop_enabled e s"
  by (auto simp: offered_terminal)

text \<open>The bar offers its keys and its field always, and sending if there is a session.\<close>

lemma offered_tool_key: "offered (tool_key_view ui k) = {TapKey (tk_bytes k)}"
  by (simp add: tool_key_view_def)

lemma offered_bar_field:
  "a \<in> offered (bar_field ui s) \<longleftrightarrow> (\<exists>v. a = TypeText v) \<or> (\<exists>k shift. a = PressKey k shift)"
  by (auto simp: bar_field_def)

lemma offered_bar: "a \<in> offered (MobileInputBar ui sessionId s) \<longleftrightarrow>
    a \<in> TapKey ` tk_bytes ` set TOOL_KEYS \<or> (\<exists>v. a = TypeText v) \<or> (\<exists>k shift. a = PressKey k shift)
    \<or> (a = TapSend \<and> truthy sessionId)"
proof -
  have keys: "a \<in> (\<Union>x \<in> set (map (tool_key_view ui) TOOL_KEYS). offered x) \<longleftrightarrow> a \<in> TapKey ` tk_bytes ` set TOOL_KEYS"
    by (auto simp: offered_tool_key simp del: list.map)
  show ?thesis
    unfolding MobileInputBar_def offered_El keys [symmetric]
    by (auto simp: offered_bar_field send_button_def simp del: list.map)
qed

end
