(* ===== verification/Spec2Isabelle.thy ===== *)
theory Spec2Isabelle
  imports AppLate TermShow TermIme TermSilent Contrast ShellInv PageView SidebarView ToastView TermView
begin

text \<open>
  A verification development for the front end of LociTerm (\<open>frontend/src\<close>, TypeScript and React): a page
  with workspaces in a sidebar, sessions as tabs, and one terminal per session that is connected by a
  WebSocket to the Go server. All names below are those of the files under \<open>src/\<close>.

  \<^bold>\<open>The program's parts and how they interact.\<close> \<open>App.tsx\<close> decides which screen is shown, checks
  the authentication, starts the store, polls it, and tells it when the page becomes visible.
  \<open>stores/appStore.ts\<close> holds workspaces, sessions, the selection, the unread flags and the toasts; its
  asynchronous operations call \<open>api/client.ts\<close> and write what they learn when the reply arrives.
  \<open>hooks/useTerminal.ts\<close> keeps one terminal per session in a module-level cache, connects it, and
  reports every byte of output to the store (\<open>markSessionOutput\<close>), which raises an alert when a session
  in the background falls silent after a burst. \<open>Sidebar\<close>, \<open>ToastContainer\<close>, \<open>TerminalView\<close> and
  \<open>MobileInputBar\<close> turn user events into operations of the store and of the hook; \<open>themeStore\<close>,
  \<open>useEffectiveTheme\<close> and \<open>theme.ts\<close> give all of them their colours.

  \<^bold>\<open>Which theory models what.\<close>
  \<^item> \<open>Prelude\<close>, \<open>JsObject\<close>, \<open>Timers\<close>, \<open>JsText\<close>, \<open>Utf8\<close>: the platform. Transition systems with the
    rule of invariants (locale \<open>invariant_machine\<close>, interpreted by every machine below), \<open>Record\<close> and
    \<open>Map\<close> (locale \<open>dictionary\<close>, an association list in insertion order and a partial map), the timer
    queue of \<open>setTimeout\<close> (locale \<open>timer_service\<close>), \<open>trim\<close> and \<open>parseInt\<close>, UTF-16 and UTF-8.
  \<^item> \<open>AppStore\<close>, \<open>AppInv\<close>: the state of the store with its tracking maps and timers (\<open>app_state\<close>,
    \<open>app_world\<close>), one definition per synchronous operation and per \<open>set\<close> call, and the invariants each
    of them keeps. \<open>Http\<close>: requests and responses of \<open>client.ts\<close>, \<open>upload.ts\<close> and the ticket.
  \<^item> \<open>AppAsync\<close>: an async function suspended at an \<open>await\<close> is a value of \<open>await\<close>; \<open>perform\<close> runs an
    operation to its first request, \<open>resume\<close> goes on with a reply, \<open>app_step\<close> interleaves them with
    output, timers, ticks of the poll and visibility changes in any order. \<open>AppReach\<close>: the invariants
    of every reachable state. \<open>AppAlerts\<close>, \<open>AppOps\<close>, \<open>AppLate\<close>: alerts, operations, late replies.
    \<open>AppTree\<close>: the abstract specification of the store as a tree of workspaces and sessions, and the
    refinement of every step to one edit of that tree.
  \<^item> \<open>Terminal\<close>: the instances of \<open>useTerminal.ts\<close> on an explicit heap (the cache, closures and socket
    handlers refer to instances by address, since an instance can outlive its place in the cache), sockets
    with their ready state, and each handler and effect of the hook. \<open>TermSystem\<close>: the events as the
    step relation \<open>term_step\<close>. \<open>TermInv\<close>, \<open>TermSingle\<close>: the invariants of the connection logic.
    \<open>TermConn\<close>, \<open>TermSilent\<close>, \<open>TermIO\<close>, \<open>TermIme\<close>, \<open>TermShow\<close>: the properties of connecting, of
    disposing, of input and output, of composed input, of showing.
  \<^item> \<open>Theme\<close>: palettes, mode, storage, media queries, the document effect. \<open>Contrast\<close>: the colour
    arithmetic, on which the palettes are checked.
  \<^item> \<open>AppShell\<close>, \<open>ShellInv\<close>: \<open>App.tsx\<close> and \<open>LoginForm.tsx\<close>. \<open>SidebarDrag\<close>: resizing the sidebar.
    \<open>SidebarUi\<close>: the sidebar on top of the machine of the store. \<open>ToastUi\<close>: the toast items and their
    timers. \<open>FileDrop\<close>: dropping files, on top of the terminal machine. \<open>InputBar\<close>: the input bar.
  \<^item> \<open>View\<close>: rendered elements with their attributes, styles and handlers, and the bubbling of events.
    \<open>TabBarView\<close>, \<open>PageView\<close> (\<open>App.tsx\<close>, \<open>LoginForm.tsx\<close>, \<open>TerminalPanel.tsx\<close>), \<open>SidebarView\<close>,
    \<open>ToastView\<close>, \<open>TermView\<close> (\<open>TerminalView.tsx\<close>, \<open>MobileInputBar.tsx\<close>): the JSX of the components as
    functions of their state. Handlers give the events of the machines above, so that the guards of those
    machines (\<open>shell_enabled\<close>, \<open>sidebar_enabled\<close>) can be compared with what the markup offers.

  \<^bold>\<open>How the code is translated.\<close> A mutable object is a record, an update returns the new record, a module
  variable is a field of the world. Code between two awaits is one function, for JavaScript does not
  interrupt it. A rejected promise and an early return are branches of a result type. What the
  environment decides (replies of the server, random numbers, sizes, the order in which replies arrive
  and timers fire) is the argument of an event, so that a theorem about all runs covers all of them.
  A timer may fire at any moment from its due time on: in any order with the other due timers, late, or
  not at all in a given run. That covers what a browser does and more, so what holds of all runs holds of
  its runs; where the point is that something does happen in time, the theorem names the moment at which
  the timer fires, or assumes that it was not due before. Loops over arrays are structural recursions; nothing needs fuel. Strings are lists of code
  units (\<open>ustring\<close>) where their bytes matter, in the terminal's input, and lists of characters elsewhere.

  \<^bold>\<open>What the theorems show.\<close>
  \<^item> Alerts: a session becomes unread only when its idle timer fires after a burst of at least
    \<open>MIN_BUSY_MS\<close> and out of sight; such a burst does alert when its timer is due; looking at a
    session cancels its alert; the stack of toasts stays within its bound and names unread sessions only.
  \<^item> The store: its steps refine the edits of a tree; a poll that writes nothing had nothing new to
    show; deleting leaves nothing behind; switching back restores the tab.
  \<^item> Connections: no cached terminal is ever stuck without a connection, a request or a retry; one
    connection at most when sockets close at once, and how a slow closing handshake gives two; the
    bounds of the backoff; a closed socket is replaced; silence after disposal.
  \<^item> Input and output: what is typed is sent as UTF-8 that reads back, to the open socket of its own
    terminal only; composed text is sent once; a settled size is sent; one terminal is shown at a time,
    and its size is the one observed.
  \<^item> The page: screens move forward and the store is started once; a failed start is final; the
    banner's flag is the stored one; the sidebar keeps its width; drops upload every file once and in
    order; toasts expire.
  \<^item> The markup: page and sidebar offer exactly the events that their machines enable; every tab acts on
    its own session.
  \<^item> Where the code does not do what it means to, the theorem says what happens instead: late replies
    (\<open>AppLate\<close>), a slow closing handshake (\<open>TermConn\<close>), a terminal that reconnects while hidden
    (\<open>TermShow\<close>), a failed start (\<open>ShellInv\<close>), text sent to a closed socket (\<open>InputBar\<close>), toasts that
    renew each other's timers (\<open>ToastUi\<close>).

  \<^bold>\<open>Bounds and simplifications.\<close> Times are integers in milliseconds, with exact arithmetic in
  place of doubles; widths are rational and colours real numbers. Ids and titles are strings of
  characters below 256. The production build is modelled: React's StrictMode, which runs effects twice in
  development, is not. The replies of the server have the types \<open>client.ts\<close> promises for them.

  \<^bold>\<open>Not modelled.\<close> The Go server (\<open>cmd\<close>, \<open>internal\<close>) is the environment. xterm.js and its addons are a
  log of the calls made to them; \<open>configureTextarea\<close> only sets attributes of xterm's text field. Of the
  rendering, only the tree of elements is modelled: not the layout, React's reconciliation, or its reaction to
  a component that throws. \<open>main.tsx\<close> and the test-only reset of the store are left out.
\<close>

end
